(* ===== verification/Prelude.thy ===== *)
theory Prelude
  imports Main "HOL-Library.Word" "HOL-Library.AList" "HOL-Library.Char_ord"
    "HOL-Library.List_Lexorder" "HOL-Library.Multiset"
begin

text \<open>
  Shared vocabulary of the Chrono-shift development.

  Machine integers are words of their Rust width, so \<open>+\<close> and \<open>-\<close> wrap as they do in the
  shipped \<^verbatim>\<open>--release\<close> profile (\<^verbatim>\<open>Cargo.toml\<close> does not turn \<^verbatim>\<open>overflow-checks\<close> on). Lengths and
  container sizes (\<^verbatim>\<open>usize\<close>) are \<^typ>\<open>nat\<close>: they count allocated elements.
  A Rust \<^verbatim>\<open>String\<close> or \<^verbatim>\<open>str\<close> is a \<^typ>\<open>string\<close> whose characters are the bytes of its UTF-8
  encoding, so \<^const>\<open>length\<close> is \<^verbatim>\<open>len()\<close> and the lexicographic order of
  \<^verbatim>\<open>List_Lexorder\<close> is Rust's byte-wise \<^verbatim>\<open>Ord\<close>.
  A \<^verbatim>\<open>HashMap\<close> is an association list with distinct keys; the list order stands for the
  map's unspecified iteration order.
  Third-party cryptography is the record \<open>prims\<close>, an argument of every definition that uses it.
\<close>

unbundle bit_operations_syntax

named_theorems hmap_simps \<open>look-up, update and key-set equations of the hash-map model\<close>
named_theorems bytes_simps \<open>lengths and inverses of the byte encodings\<close>

section \<open>Types\<close>

type_synonym u8 = "8 word"
type_synonym u16 = "16 word"
type_synonym u32 = "32 word"
type_synonym u64 = "64 word"
type_synonym bytes = "u8 list"
type_synonym uid = string
type_synonym ('k, 'v) hmap = "('k \<times> 'v) list"

section \<open>Hash maps\<close>

abbreviation hget :: "('k, 'v) hmap \<Rightarrow> 'k \<Rightarrow> 'v option" where
  "hget m k \<equiv> map_of m k"

abbreviation hput :: "'k \<Rightarrow> 'v \<Rightarrow> ('k, 'v) hmap \<Rightarrow> ('k, 'v) hmap" where
  "hput k v m \<equiv> AList.update k v m"

abbreviation hdel :: "'k \<Rightarrow> ('k, 'v) hmap \<Rightarrow> ('k, 'v) hmap" where
  "hdel k m \<equiv> AList.delete k m"

definition hkeys :: "('k, 'v) hmap \<Rightarrow> 'k list" where
  "hkeys m = map fst m"

definition hvalues :: "('k, 'v) hmap \<Rightarrow> 'v list" where
  "hvalues m = map snd m"

definition has_key :: "('k, 'v) hmap \<Rightarrow> 'k \<Rightarrow> bool" where
  "has_key m k \<longleftrightarrow> hget m k \<noteq> None"

text \<open>\<^verbatim>\<open>if let Some(v) = m.get_mut(k) { *v = f(v) }\<close>\<close>
definition hmodify :: "'k \<Rightarrow> ('v \<Rightarrow> 'v) \<Rightarrow> ('k, 'v) hmap \<Rightarrow> ('k, 'v) hmap" where
  "hmodify k f m = (case hget m k of None \<Rightarrow> m | Some v \<Rightarrow> hput k (f v) m)"

definition hwf :: "('k, 'v) hmap \<Rightarrow> bool" where
  "hwf m \<longleftrightarrow> distinct (hkeys m)"

lemma hget_hput [hmap_simps, simp]: "hget (hput k v m) k' = (if k = k' then Some v else hget m k')"
  by (simp add: update_conv')

lemma hget_hdel [hmap_simps, simp]: "hget (hdel k m) k' = (if k = k' then None else hget m k')"
  by (simp add: delete_conv')

lemma hget_hmodify [hmap_simps, simp]:
  "hget (hmodify k f m) k' = (if k = k' then map_option f (hget m k) else hget m k')"
  by (auto simp: hmodify_def split: option.split)

lemma hwf_Nil [hmap_simps, simp]: "hwf []"
  by (simp add: hwf_def hkeys_def)

lemma hwf_hput [hmap_simps, simp]: "hwf m \<Longrightarrow> hwf (hput k v m)"
  by (simp add: hwf_def hkeys_def distinct_update)

lemma hwf_hdel [hmap_simps, simp]: "hwf m \<Longrightarrow> hwf (hdel k m)"
  by (simp add: hwf_def hkeys_def distinct_delete)

lemma hwf_hmodify [hmap_simps, simp]: "hwf m \<Longrightarrow> hwf (hmodify k f m)"
  by (simp add: hmodify_def split: option.split)

lemma hwf_filter [hmap_simps, simp]: "hwf m \<Longrightarrow> hwf (filter P m)"
  by (simp add: hwf_def hkeys_def distinct_map_filter)

lemma set_hkeys [hmap_simps]: "set (hkeys m) = dom (map_of m)"
  by (simp add: hkeys_def dom_map_of_conv_image_fst)

lemma has_key_iff: "has_key m k \<longleftrightarrow> k \<in> set (hkeys m)"
  by (auto simp: has_key_def set_hkeys)

lemma has_key_hput [hmap_simps, simp]: "has_key (hput k v m) k' \<longleftrightarrow> k = k' \<or> has_key m k'"
  by (simp add: has_key_def)

lemma has_key_hdel [hmap_simps, simp]: "has_key (hdel k m) k' \<longleftrightarrow> k \<noteq> k' \<and> has_key m k'"
  by (simp add: has_key_def)

lemma has_key_hmodify [hmap_simps, simp]: "has_key (hmodify k f m) k' \<longleftrightarrow> has_key m k'"
  by (simp add: has_key_def)

lemma hkeys_hput [hmap_simps]: "hkeys (hput k v m) = (if has_key m k then hkeys m else hkeys m @ [k])"
  by (simp add: has_key_iff hkeys_def update_keys)

lemma length_hput_le: "length (hput k v m) \<le> Suc (length m)"
  by (induction m) auto

lemma length_hput [hmap_simps]: "length (hput k v m) = (if has_key m k then length m else Suc (length m))"
  using hkeys_hput [of k v m] by (metis hkeys_def length_append_singleton length_map)

lemma hget_in_set: "hget m k = Some v \<Longrightarrow> (k, v) \<in> set m"
  by (rule map_of_SomeD)

lemma hget_eq_Some_iff: "hwf m \<Longrightarrow> hget m k = Some v \<longleftrightarrow> (k, v) \<in> set m"
  by (simp add: hwf_def hkeys_def)

lemma hget_filter_key: "hwf m \<Longrightarrow>
  hget (filter (\<lambda>(k, v). P k v) m) k =
    (case hget m k of None \<Rightarrow> None | Some v \<Rightarrow> if P k v then Some v else None)"
  by (induction m) (auto simp: hwf_def hkeys_def split: option.split dest: map_of_SomeD,
      (metis fst_conv image_eqI map_of_SomeD)+)

section \<open>Strings and bytes\<close>

definition str_bytes :: "string \<Rightarrow> bytes" where
  "str_bytes s = map (\<lambda>c. of_nat (of_char c)) s"

definition bytes_str :: "bytes \<Rightarrow> string" where
  "bytes_str bs = map (\<lambda>b. char_of (unat b)) bs"

lemma length_str_bytes [bytes_simps, simp]: "length (str_bytes s) = length s"
  by (simp add: str_bytes_def)

lemma length_bytes_str [bytes_simps, simp]: "length (bytes_str s) = length s"
  by (simp add: bytes_str_def)

lemma of_char_lt_256: "(of_char c :: nat) < 256"
  using nat_of_char_less_256 by simp

lemma bytes_str_str_bytes [bytes_simps, simp]: "bytes_str (str_bytes s) = s"
  by (induction s) (simp_all add: str_bytes_def bytes_str_def unat_of_nat of_char_lt_256)

lemma str_bytes_bytes_str [bytes_simps, simp]: "str_bytes (bytes_str bs) = bs"
  by (induction bs)
    (simp_all add: str_bytes_def bytes_str_def of_char_of take_bit_nat_eq_self unsigned_less [where 'b = 8, simplified])

lemma str_bytes_inject [bytes_simps, simp]: "str_bytes s = str_bytes t \<longleftrightarrow> s = t"
  by (metis bytes_str_str_bytes)

lemma str_bytes_append [bytes_simps]: "str_bytes (s @ t) = str_bytes s @ str_bytes t"
  by (simp add: str_bytes_def)

text \<open>\<^verbatim>\<open>n.to_be_bytes()\<close> at a width of \<open>k\<close> bytes; the value is cut to that width first, as
  \<^verbatim>\<open>(len as u32)\<close> does.\<close>
fun be_bytes :: "nat \<Rightarrow> nat \<Rightarrow> bytes" where
  "be_bytes 0 n = []"
| "be_bytes (Suc k) n = be_bytes k (n div 256) @ [of_nat (n mod 256)]"

definition from_be :: "bytes \<Rightarrow> nat" where
  "from_be bs = foldl (\<lambda>a b. a * 256 + unat b) 0 bs"

definition le_bytes :: "nat \<Rightarrow> nat \<Rightarrow> bytes" where
  "le_bytes k n = rev (be_bytes k n)"

lemma length_be_bytes [bytes_simps, simp]: "length (be_bytes k n) = k"
  by (induction k arbitrary: n) simp_all

lemma from_be_be_bytes [bytes_simps]: "from_be (be_bytes k n) = n mod 256 ^ k"
proof (induction k arbitrary: n)
  case 0
  then show ?case by (simp add: from_be_def)
next
  case (Suc k)
  have "from_be (be_bytes (Suc k) n) = from_be (be_bytes k (n div 256)) * 256 + n mod 256"
    by (simp add: from_be_def unat_of_nat)
  also have "\<dots> = (n div 256) mod 256 ^ k * 256 + n mod 256"
    by (simp add: Suc.IH)
  also have "\<dots> = n mod (256 * 256 ^ k)"
    by (metis add.commute mod_mult2_eq mult.commute)
  finally show ?case by simp
qed

lemma be_bytes_inject: "n < 256 ^ k \<Longrightarrow> m < 256 ^ k \<Longrightarrow> be_bytes k n = be_bytes k m \<longleftrightarrow> n = m"
  by (metis from_be_be_bytes mod_less)

lemma be8_inject [bytes_simps, simp]: "be_bytes 8 (unat (a :: u64)) = be_bytes 8 (unat b) \<longleftrightarrow> a = b"
proof -
  have "unat a < 256 ^ 8" and "unat b < 256 ^ 8"
    using unsigned_less [of a] unsigned_less [of b] by simp_all
  then show ?thesis by (simp add: be_bytes_inject word_unat_eq_iff)
qed

text \<open>The contents of a \<^verbatim>\<open>[u8; n]\<close>: exactly \<open>n\<close> bytes whatever was copied in. Third-party
  functions that write into a fixed-size array are wrapped in it; it is the identity on
  results of the right length.\<close>
definition arr :: "nat \<Rightarrow> bytes \<Rightarrow> bytes" where
  "arr n bs = take n (bs @ replicate n 0)"

lemma length_arr [bytes_simps, simp]: "length (arr n bs) = n"
  by (simp add: arr_def)

lemma arr_id [bytes_simps, simp]: "length bs = n \<Longrightarrow> arr n bs = bs"
  by (simp add: arr_def)

section \<open>UTF-8\<close>

text \<open>\<^verbatim>\<open>core::str::Utf8Chunks\<close>: one scalar value or one maximal invalid prefix at the front of a
  non-empty slice, as (number of bytes, whether they are valid).\<close>

definition cont_byte :: "bytes \<Rightarrow> nat \<Rightarrow> bool" where
  "cont_byte bs i \<longleftrightarrow> i < length bs \<and> 0x80 \<le> bs ! i \<and> bs ! i \<le> 0xBF"

definition second_ok :: "u8 \<Rightarrow> u8 \<Rightarrow> bool" where
  "second_ok b c \<longleftrightarrow>
     (if b = 0xE0 then 0xA0 \<le> c \<and> c \<le> 0xBF
      else if b = 0xED then 0x80 \<le> c \<and> c \<le> 0x9F
      else if b = 0xF0 then 0x90 \<le> c \<and> c \<le> 0xBF
      else if b = 0xF4 then 0x80 \<le> c \<and> c \<le> 0x8F
      else 0x80 \<le> c \<and> c \<le> 0xBF)"

definition utf8_step :: "bytes \<Rightarrow> nat \<times> bool" where
  "utf8_step bs = (let b = hd bs in
     if b < 0x80 then (1, True)
     else if 0xC2 \<le> b \<and> b \<le> 0xDF then (if cont_byte bs 1 then (2, True) else (1, False))
     else if 0xE0 \<le> b \<and> b \<le> 0xEF then
       (if \<not> (1 < length bs \<and> second_ok b (bs ! 1)) then (1, False)
        else if cont_byte bs 2 then (3, True) else (2, False))
     else if 0xF0 \<le> b \<and> b \<le> 0xF4 then
       (if \<not> (1 < length bs \<and> second_ok b (bs ! 1)) then (1, False)
        else if \<not> cont_byte bs 2 then (2, False)
        else if cont_byte bs 3 then (4, True) else (3, False))
     else (1, False))"

lemma utf8_step_pos: "0 < fst (utf8_step bs)"
  by (simp add: utf8_step_def Let_def)

lemma utf8_step_shrinks: "bs \<noteq> [] \<Longrightarrow> length bs - fst (utf8_step bs) < length bs"
  by (simp add: diff_less utf8_step_pos)

text \<open>\<^verbatim>\<open>std::str::from_utf8(..).is_ok()\<close> and \<^verbatim>\<open>String::from_utf8_lossy\<close>.\<close>

function utf8_valid :: "bytes \<Rightarrow> bool" where
  "utf8_valid bs = (if bs = [] then True
     else if snd (utf8_step bs) then utf8_valid (drop (fst (utf8_step bs)) bs) else False)"
  by pat_completeness auto
termination
  by (relation "measure length") (simp_all add: utf8_step_shrinks)

function utf8_lossy :: "bytes \<Rightarrow> bytes" where
  "utf8_lossy bs = (if bs = [] then []
     else (if snd (utf8_step bs) then take (fst (utf8_step bs)) bs else [0xEF, 0xBF, 0xBD])
       @ utf8_lossy (drop (fst (utf8_step bs)) bs))"
  by pat_completeness auto
termination
  by (relation "measure length") (simp_all add: utf8_step_shrinks)

declare utf8_valid.simps [simp del] utf8_lossy.simps [simp del]

lemma utf8_lossy_valid [simp]: "utf8_valid bs \<Longrightarrow> utf8_lossy bs = bs"
proof (induction bs rule: utf8_lossy.induct)
  case (1 bs)
  show ?case
  proof (cases "bs = []")
    case True
    then show ?thesis by (simp add: utf8_lossy.simps)
  next
    case False
    with "1.prems" have "snd (utf8_step bs)" and "utf8_valid (drop (fst (utf8_step bs)) bs)"
      by (simp_all add: utf8_valid.simps [of bs] split: if_splits)
    with False "1.IH" show ?thesis by (simp add: utf8_lossy.simps [of bs])
  qed
qed

lemma utf8_valid_ascii: "\<forall>b \<in> set bs. b < 0x80 \<Longrightarrow> utf8_valid bs"
proof (induction bs)
  case Nil
  show ?case by (simp add: utf8_valid.simps)
next
  case (Cons b bs)
  then have "b < 0x80" by simp
  then have "utf8_step (b # bs) = (1, True)"
    by (simp only: utf8_step_def Let_def list.sel if_True)
  with Cons show ?case by (simp add: utf8_valid.simps [of "b # bs"])
qed

definition str_valid :: "string \<Rightarrow> bool" where
  "str_valid s \<longleftrightarrow> utf8_valid (str_bytes s)"

text \<open>\<^verbatim>\<open>String::from_utf8(bytes).ok()\<close> and the lossy conversion, as strings.\<close>
definition from_utf8 :: "bytes \<Rightarrow> string option" where
  "from_utf8 bs = (if utf8_valid bs then Some (bytes_str bs) else None)"

definition from_utf8_lossy :: "bytes \<Rightarrow> string" where
  "from_utf8_lossy bs = bytes_str (utf8_lossy bs)"

lemma from_utf8_str_bytes [simp]: "str_valid s \<Longrightarrow> from_utf8 (str_bytes s) = Some s"
  by (simp add: from_utf8_def str_valid_def)

lemma from_utf8_lossy_str_bytes [simp]: "str_valid s \<Longrightarrow> from_utf8_lossy (str_bytes s) = s"
  by (simp add: from_utf8_lossy_def str_valid_def)

section \<open>Generic list facts\<close>

lemma filter_map_fst_distinct: "distinct (map f xs) \<Longrightarrow> distinct (map f (filter P xs))"
  by (rule distinct_map_filter)

lemma map_update_find_id:
  "(\<And>x. x \<in> set xs \<Longrightarrow> key (f x) = key x) \<Longrightarrow> map key (map f xs) = map key xs"
  by simp

lemma remdups_member [simp]: "List.member (remdups xs) x \<longleftrightarrow> x \<in> set xs"
  by simp

text \<open>\<^verbatim>\<open>iter().position(|u| u == x)\<close>\<close>
fun position :: "'a \<Rightarrow> 'a list \<Rightarrow> nat option" where
  "position x [] = None"
| "position x (y # ys) = (if y = x then Some 0 else map_option Suc (position x ys))"

lemma position_Some: "position x xs = Some i \<Longrightarrow> i < length xs \<and> xs ! i = x"
  by (induction xs arbitrary: i) (auto split: if_splits)

lemma position_None_iff: "position x xs = None \<longleftrightarrow> x \<notin> set xs"
  by (induction xs) auto

lemma position_nth: "distinct xs \<Longrightarrow> i < length xs \<Longrightarrow> position (xs ! i) xs = Some i"
  by (induction xs arbitrary: i) (auto simp: nth_Cons split: nat.split)

lemma position_mem: "x \<in> set xs \<Longrightarrow> \<exists>i. position x xs = Some i"
  by (induction xs) auto

section \<open>Interfaces shared by the components\<close>

text \<open>A component whose operations all keep an invariant keeps it along every sequence of
  operations, in any interleaving.\<close>

locale op_system =
  fixes step :: "'op \<Rightarrow> 's \<Rightarrow> 's"
    and inv :: "'s \<Rightarrow> bool"
  assumes step_inv: "inv s \<Longrightarrow> inv (step op s)"
begin

lemma run_inv: "inv s \<Longrightarrow> inv (fold step ops s)"
  by (induction ops arbitrary: s) (simp_all add: step_inv)

end

text \<open>A counter-like observation that no operation can lower.\<close>

locale monotone_system = op_system step inv
  for step :: "'op \<Rightarrow> 's \<Rightarrow> 's" and inv :: "'s \<Rightarrow> bool" +
  fixes obs :: "'s \<Rightarrow> 'a :: preorder"
  assumes step_mono: "inv s \<Longrightarrow> obs s \<le> obs (step op s)"
begin

lemma run_mono: "inv s \<Longrightarrow> obs s \<le> obs (fold step ops s)"
proof (induction ops arbitrary: s)
  case Nil
  show ?case by simp
next
  case (Cons op ops)
  then have "obs s \<le> obs (step op s)" and "obs (step op s) \<le> obs (fold step ops (step op s))"
    by (simp_all add: step_mono step_inv)
  then show ?case by (auto intro: order_trans)
qed

end

text \<open>The same for operations that keep the invariant only when they are well-formed themselves.\<close>

locale guarded_system =
  fixes step :: "'op \<Rightarrow> 's \<Rightarrow> 's"
    and inv :: "'s \<Rightarrow> bool"
    and enabled :: "'op \<Rightarrow> bool"
  assumes enabled_inv: "enabled op \<Longrightarrow> inv s \<Longrightarrow> inv (step op s)"
begin

lemma run_enabled_inv: "list_all enabled ops \<Longrightarrow> inv s \<Longrightarrow> inv (fold step ops s)"
  by (induction ops arbitrary: s) (simp_all add: enabled_inv)

end

sublocale op_system \<subseteq> unguarded: guarded_system step inv "\<lambda>_. True"
  by unfold_locales (simp add: step_inv)

text \<open>Functional refinement: on good states every enabled operation commutes with the abstraction, so a run
  of enabled operations is the abstract run.\<close>

locale refinement = guarded_system step inv enabled
  for step :: "'op \<Rightarrow> 's \<Rightarrow> 's" and inv :: "'s \<Rightarrow> bool" and enabled :: "'op \<Rightarrow> bool" +
  fixes astep :: "'op \<Rightarrow> 'a \<Rightarrow> 'a"
    and abs :: "'s \<Rightarrow> 'a"
  assumes step_abs: "enabled op \<Longrightarrow> inv s \<Longrightarrow> abs (step op s) = astep op (abs s)"
begin

lemma run_abs: "list_all enabled ops \<Longrightarrow> inv s \<Longrightarrow> abs (fold step ops s) = fold astep ops (abs s)"
  by (induction ops arbitrary: s) (simp_all add: enabled_inv step_abs)

end

text \<open>An encoder with a partial decoder: decoding recovers every admissible value, so the encoding
  is injective on them.\<close>

locale codec =
  fixes enc :: "'a \<Rightarrow> 'b"
    and dec :: "'b \<Rightarrow> 'a option"
    and ok :: "'a \<Rightarrow> bool"
  assumes dec_enc: "ok x \<Longrightarrow> dec (enc x) = Some x"
begin

lemma enc_inj: "ok x \<Longrightarrow> ok y \<Longrightarrow> enc x = enc y \<Longrightarrow> x = y"
  by (metis dec_enc option.inject)

lemma inj_on_enc: "inj_on enc {x. ok x}"
  by (rule inj_onI) (simp add: enc_inj)

lemma dec_surj: "ok x \<Longrightarrow> \<exists>y. dec y = Some x"
  using dec_enc by blast

end

end
