(* ===== verification/Float64.thy ===== *)
theory Float64
  imports Prelude
begin

text \<open>
  The part of IEEE-754 binary64 that the reputation and address-book code uses: finite
  non-negative values, addition, multiplication, division, \<^verbatim>\<open>min\<close> and comparison.

  Every such value is a multiple of the least subnormal \<open>2\<^sup>-\<^sup>1\<^sup>0\<^sup>7\<^sup>4\<close>, so a value is stored exactly as
  the natural number of those units. An operation computes its exact rational result and rounds
  it to the nearest number with at most 53 significant bits, ties to even. Comparison is then
  comparison of naturals. Overflow to infinity and NaN do not arise: all values in the code are
  below \<open>2\<^sup>6\<^sup>4\<close>.
\<close>

type_synonym f64 = nat

definition f64_unit :: nat where
  "f64_unit = 2 ^ 1074"

fun bit_len :: "nat \<Rightarrow> nat" where
  "bit_len n = (if n = 0 then 0 else Suc (bit_len (n div 2)))"

declare bit_len.simps [simp del]

text \<open>Nearest integer to \<open>a / b\<close>, ties to even.\<close>
definition round_half_even :: "nat \<Rightarrow> nat \<Rightarrow> nat" where
  "round_half_even a b = (let q = a div b; r = a mod b in
     if 2 * r < b then q else if b < 2 * r then q + 1 else if even q then q else q + 1)"

text \<open>Nearest binary64 value to \<open>a / b\<close> units.\<close>
definition f64_round :: "nat \<Rightarrow> nat \<Rightarrow> f64" where
  "f64_round a b = (let s = bit_len (a div b) - 53 in round_half_even a (b * 2 ^ s) * 2 ^ s)"

definition f64_rep :: "f64 \<Rightarrow> bool" where
  "f64_rep x \<longleftrightarrow> x mod 2 ^ (bit_len x - 53) = 0"

definition f64_lit :: "nat \<Rightarrow> nat \<Rightarrow> f64" where
  "f64_lit num den = f64_round (num * f64_unit) den"

definition f64_add :: "f64 \<Rightarrow> f64 \<Rightarrow> f64" where
  "f64_add x y = f64_round (x + y) 1"

definition f64_mul :: "f64 \<Rightarrow> f64 \<Rightarrow> f64" where
  "f64_mul x y = f64_round (x * y) f64_unit"

definition f64_div :: "f64 \<Rightarrow> f64 \<Rightarrow> f64" where
  "f64_div x y = f64_round (x * f64_unit) y"

text \<open>\<^verbatim>\<open>n as f64\<close>\<close>
definition f64_of_nat :: "nat \<Rightarrow> f64" where
  "f64_of_nat n = f64_round (n * f64_unit) 1"

abbreviation f64_one :: f64 where "f64_one \<equiv> f64_unit"

section \<open>Rounding is monotone and fixes representable values\<close>

lemma bit_len_bounds: "0 < n \<Longrightarrow> 2 ^ (bit_len n - 1) \<le> n \<and> n < 2 ^ bit_len n"
proof (induction n rule: bit_len.induct)
  case (1 n)
  show ?case
  proof (cases "n = 1")
    case True
    then show ?thesis by (simp add: bit_len.simps)
  next
    case False
    with 1 have "0 < n div 2" by (simp add: div_greater_zero_iff)
    with 1 have IH: "2 ^ (bit_len (n div 2) - 1) \<le> n div 2" "n div 2 < 2 ^ bit_len (n div 2)"
      by simp_all
    from \<open>0 < n div 2\<close> have pos: "0 < bit_len (n div 2)" by (simp add: bit_len.simps)
    have eq: "bit_len n = Suc (bit_len (n div 2))" using "1.prems" by (simp add: bit_len.simps)
    have "2 ^ (bit_len n - 1) = 2 * 2 ^ (bit_len (n div 2) - 1)"
      using pos eq by (cases "bit_len (n div 2)") simp_all
    also have "\<dots> \<le> 2 * (n div 2)" using IH(1) by simp
    finally have "2 ^ (bit_len n - 1) \<le> n" by simp
    moreover have "n < 2 * 2 ^ bit_len (n div 2)" using IH(2) by linarith
    ultimately show ?thesis using eq by simp
  qed
qed

lemma bit_len_less_iff: "n < 2 ^ k \<longleftrightarrow> bit_len n \<le> k"
proof
  assume "n < 2 ^ k"
  show "bit_len n \<le> k"
  proof (rule ccontr)
    assume "\<not> bit_len n \<le> k"
    then have "k \<le> bit_len n - 1" and "0 < n" by (simp_all add: bit_len.simps split: if_splits)
    then have "2 ^ k \<le> (2 :: nat) ^ (bit_len n - 1)" by (simp add: power_increasing)
    with bit_len_bounds [OF \<open>0 < n\<close>] \<open>n < 2 ^ k\<close> show False by linarith
  qed
next
  assume "bit_len n \<le> k"
  then have "(2 :: nat) ^ bit_len n \<le> 2 ^ k" by (simp add: power_increasing)
  moreover have "n < 2 ^ bit_len n" by (cases "n = 0") (simp_all add: bit_len_bounds)
  ultimately show "n < 2 ^ k" by linarith
qed

lemma bit_len_mono: "m \<le> n \<Longrightarrow> bit_len m \<le> bit_len n"
  by (meson bit_len_less_iff le_less_trans order_refl)

text \<open>\<^const>\<open>round_half_even\<close> is the nearest integer: it is characterised by half-unit bounds.\<close>

lemma round_half_even_bounds:
  assumes "0 < b"
  shows "2 * (b * round_half_even a b) \<le> 2 * a + b" and "2 * a \<le> 2 * (b * round_half_even a b) + b"
proof -
  define q r where "q = a div b" and "r = a mod b"
  have a: "a = b * q + r" and r: "r < b" by (simp_all add: q_def r_def assms)
  have "round_half_even a b = q \<and> 2 * r \<le> b \<or> round_half_even a b = q + 1 \<and> b \<le> 2 * r"
    by (auto simp: round_half_even_def Let_def q_def r_def)
  then show "2 * (b * round_half_even a b) \<le> 2 * a + b" and "2 * a \<le> 2 * (b * round_half_even a b) + b"
    using r by (auto simp: a algebra_simps)
qed

lemma round_half_even_exact: "0 < b \<Longrightarrow> round_half_even (b * q) b = q"
  by (simp add: round_half_even_def)

lemma round_half_even_mono:
  assumes "0 < b" and "a \<le> c"
  shows "round_half_even a b \<le> round_half_even c b"
proof (rule ccontr)
  define x y where "x = round_half_even a b" and "y = round_half_even c b"
  assume "\<not> round_half_even a b \<le> round_half_even c b"
  then have "y + 1 \<le> x" by (simp add: x_def y_def)
  then have "b * y + b \<le> b * x" using mult_le_mono2 [of "y + 1" x b] by simp
  moreover have "2 * (b * x) \<le> 2 * a + b" and "2 * c \<le> 2 * (b * y) + b"
    using round_half_even_bounds [OF assms(1)] by (simp_all add: x_def y_def)
  ultimately have "a = c" using assms by linarith
  with \<open>y + 1 \<le> x\<close> show False by (simp add: x_def y_def)
qed

lemma f64_round_upper:
  assumes "0 < b"
  shows "round_half_even a (b * 2 ^ (bit_len (a div b) - 53)) \<le> 2 ^ 53"
proof -
  define s where "s = bit_len (a div b) - 53"
  have "bit_len (a div b) \<le> 53 + s" by (simp add: s_def)
  then have "a div b < 2 ^ (53 + s)" by (simp add: bit_len_less_iff)
  then have "a < 2 ^ (53 + s) * b" using assms by (simp add: div_less_iff_less_mult)
  also have "\<dots> = (b * 2 ^ s) * 2 ^ 53" by (simp add: power_add)
  finally have "a \<le> (b * 2 ^ s) * 2 ^ 53" by simp
  then have "round_half_even a (b * 2 ^ s) \<le> round_half_even ((b * 2 ^ s) * 2 ^ 53) (b * 2 ^ s)"
    using assms by (intro round_half_even_mono) simp_all
  then show ?thesis using assms by (simp add: round_half_even_exact s_def)
qed

lemma f64_round_lower:
  assumes "0 < b" and "53 < bit_len (c div b)"
  shows "2 ^ 52 \<le> round_half_even c (b * 2 ^ (bit_len (c div b) - 53))"
proof -
  define t where "t = bit_len (c div b) - 53"
  have t: "bit_len (c div b) = 53 + t" using assms(2) by (simp add: t_def)
  then have "\<not> c div b < 2 ^ (52 + t)" by (simp add: bit_len_less_iff)
  then have "2 ^ (52 + t) * b \<le> c" using assms(1) by (simp add: not_less less_eq_div_iff_mult_less_eq)
  then have "(b * 2 ^ t) * 2 ^ 52 \<le> c" by (simp add: power_add algebra_simps)
  then have "round_half_even ((b * 2 ^ t) * 2 ^ 52) (b * 2 ^ t) \<le> round_half_even c (b * 2 ^ t)"
    using assms(1) by (intro round_half_even_mono) simp_all
  then show ?thesis using assms(1) by (simp add: round_half_even_exact t_def)
qed

lemma f64_round_mono:
  assumes "0 < b" and "a \<le> c"
  shows "f64_round a b \<le> f64_round c b"
proof -
  define s t where "s = bit_len (a div b) - 53" and "t = bit_len (c div b) - 53"
  have "s \<le> t" using assms by (simp add: s_def t_def bit_len_mono div_le_mono diff_le_mono)
  show ?thesis
  proof (cases "s = t")
    case True
    then show ?thesis
      using assms by (simp add: f64_round_def Let_def s_def t_def round_half_even_mono)
  next
    case False
    with \<open>s \<le> t\<close> have "s < t" by simp
    then have "53 < bit_len (c div b)" by (simp add: t_def)
    have "f64_round a b \<le> 2 ^ 53 * 2 ^ s"
      using f64_round_upper [OF assms(1), of a] by (simp add: f64_round_def Let_def s_def)
    also have "\<dots> \<le> 2 ^ 52 * 2 ^ t"
      using \<open>s < t\<close> power_increasing [of "Suc s" t "2 :: nat"] by simp
    also have "\<dots> \<le> f64_round c b"
      using f64_round_lower [OF assms(1) \<open>53 < bit_len (c div b)\<close>]
      by (simp add: f64_round_def Let_def t_def)
    finally show ?thesis .
  qed
qed

lemma f64_round_exact:
  assumes "0 < b" and "f64_rep x"
  shows "f64_round (x * b) b = x"
proof -
  define s where "s = bit_len x - 53"
  define k where "k = x div 2 ^ s"
  have x: "x = k * 2 ^ s" using assms(2) by (simp add: f64_rep_def s_def k_def dvd_div_mult_self mod_0_imp_dvd)
  have "f64_round (x * b) b = round_half_even ((b * 2 ^ s) * k) (b * 2 ^ s) * 2 ^ s"
    using assms(1) by (simp add: f64_round_def Let_def flip: s_def) (simp add: x ac_simps)
  also have "\<dots> = x" using assms(1) by (simp only: round_half_even_exact x) (simp add: round_half_even_exact)
  finally show ?thesis .
qed

lemma f64_rep_small_mult: "r \<le> 2 ^ 53 \<Longrightarrow> f64_rep (r * 2 ^ s)"
proof -
  assume r: "r \<le> 2 ^ 53"
  show ?thesis
  proof (cases "r = 2 ^ 53")
    case True
    then have "r * 2 ^ s = 2 ^ (53 + s)" by (simp add: power_add)
    moreover have "bit_len (2 ^ (53 + s)) \<le> 54 + s" by (simp flip: bit_len_less_iff)
    ultimately show ?thesis
      by (simp add: f64_rep_def le_imp_power_dvd flip: dvd_eq_mod_eq_0)
  next
    case False
    with r have "r < 2 ^ 53" by simp
    then have "r * 2 ^ s < 2 ^ (53 + s)" by (simp add: power_add)
    then have "bit_len (r * 2 ^ s) - 53 \<le> s" by (simp add: bit_len_less_iff)
    then show ?thesis
      by (simp add: f64_rep_def dvd_mult le_imp_power_dvd flip: dvd_eq_mod_eq_0)
  qed
qed

lemma f64_rep_round [simp]: "0 < b \<Longrightarrow> f64_rep (f64_round a b)"
  unfolding f64_round_def Let_def by (rule f64_rep_small_mult, rule f64_round_upper)

lemma f64_unit_pos [simp]: "0 < f64_unit"
  by (simp add: f64_unit_def)

lemma f64_rep_power: "f64_rep (2 ^ k)"
  using f64_rep_small_mult [of 1 k] by simp

lemma f64_rep_unit [simp]: "f64_rep f64_unit"
  unfolding f64_unit_def by (rule f64_rep_power)

lemma f64_rep_0 [simp]: "f64_rep 0"
  by (simp add: f64_rep_def)

lemma f64_rep_add [simp]: "f64_rep (f64_add x y)"
  by (simp add: f64_add_def)

lemma f64_rep_mul [simp]: "f64_rep (f64_mul x y)"
  by (simp add: f64_mul_def)

lemma f64_rep_lit [simp]: "0 < d \<Longrightarrow> f64_rep (f64_lit n d)"
  by (simp add: f64_lit_def)

lemma f64_rep_min [simp]: "f64_rep x \<Longrightarrow> f64_rep y \<Longrightarrow> f64_rep (min x y)"
  by (simp add: min_def)

section \<open>The order facts the components use\<close>

lemma f64_mul_le: "f64_rep x \<Longrightarrow> y \<le> f64_one \<Longrightarrow> f64_mul x y \<le> x"
  using f64_round_mono [of f64_unit "x * y" "x * f64_unit"] f64_round_exact [of f64_unit x]
  by (simp add: f64_mul_def)

lemma f64_add_ge: "f64_rep x \<Longrightarrow> x \<le> f64_add x y"
  using f64_round_mono [of 1 x "x + y"] f64_round_exact [of 1 x] by (simp add: f64_add_def)

lemma f64_mul_mono: "x \<le> x' \<Longrightarrow> f64_mul x y \<le> f64_mul x' y"
  by (simp add: f64_mul_def f64_round_mono)

lemma f64_add_mono: "x \<le> x' \<Longrightarrow> f64_add x y \<le> f64_add x' y"
  by (simp add: f64_add_def f64_round_mono)

lemma f64_lit_le_one: "0 < d \<Longrightarrow> n \<le> d \<Longrightarrow> f64_lit n d \<le> f64_one"
  using f64_round_mono [of d "n * f64_unit" "f64_unit * d"] f64_round_exact [of d f64_unit]
  by (simp add: f64_lit_def mult.commute)

lemma f64_lit_mono: "0 < d \<Longrightarrow> n \<le> m \<Longrightarrow> f64_lit n d \<le> f64_lit m d"
  by (simp add: f64_lit_def f64_round_mono)

end
