(* ===== verification/Crypto.thy ===== *)
theory Crypto
  imports Prelude
begin

text \<open>
  \<^verbatim>\<open>crypto.rs\<close>, \<^verbatim>\<open>identity.rs\<close> and \<^verbatim>\<open>validate_uid\<close> of \<^verbatim>\<open>lib.rs\<close>: the AES-GCM envelope, constant-time
  comparison, session-key derivation, hexadecimal encoding, Ed25519 identities and fingerprints.
  The cryptographic crates (sha2, hkdf, ed25519-dalek, x25519-dalek, aes-gcm) are the fields of
  \<open>prims\<close>; random bytes are arguments.
\<close>

section \<open>Third-party primitives\<close>

record prims =
  sha256_fn :: "bytes \<Rightarrow> bytes"
  hkdf_fn :: "bytes option \<Rightarrow> bytes \<Rightarrow> bytes \<Rightarrow> bytes" \<comment> \<open>salt, key material, info\<close>
  ed_public :: "bytes \<Rightarrow> bytes"
  ed_sign :: "bytes \<Rightarrow> bytes \<Rightarrow> bytes" \<comment> \<open>secret key, message\<close>
  ed_key_ok :: "bytes \<Rightarrow> bool" \<comment> \<open>\<^verbatim>\<open>VerifyingKey::from_bytes\<close> succeeds\<close>
  ed_sig_ok :: "bytes \<Rightarrow> bool" \<comment> \<open>\<^verbatim>\<open>Signature::from_slice\<close> succeeds\<close>
  ed_verify :: "bytes \<Rightarrow> bytes \<Rightarrow> bytes \<Rightarrow> bool" \<comment> \<open>public key, message, signature\<close>
  x_public :: "bytes \<Rightarrow> bytes"
  x_dh :: "bytes \<Rightarrow> bytes \<Rightarrow> bytes" \<comment> \<open>secret key, public key\<close>
  x_contributory :: "bytes \<Rightarrow> bool"
  aead_enc :: "bytes \<Rightarrow> bytes \<Rightarrow> bytes \<Rightarrow> bytes option" \<comment> \<open>key, nonce, plaintext\<close>
  aead_dec :: "bytes \<Rightarrow> bytes \<Rightarrow> bytes \<Rightarrow> bytes option" \<comment> \<open>key, nonce, ciphertext with tag\<close>

text \<open>Documented behaviour of those crates, as named hypotheses.\<close>

definition aead_law :: "prims \<Rightarrow> bool" where
  "aead_law P \<longleftrightarrow> (\<forall>k n m c. aead_enc P k n m = Some c \<longrightarrow>
     aead_dec P k n c = Some m \<and> length c = length m + 16)"

definition dh_law :: "prims \<Rightarrow> bool" where
  "dh_law P \<longleftrightarrow> (\<forall>a b. x_dh P a (x_public P b) = x_dh P b (x_public P a))"

definition sig_law :: "prims \<Rightarrow> bool" where
  "sig_law P \<longleftrightarrow> (\<forall>sk m. ed_sig_ok P (ed_sign P sk m) \<and>
     ed_verify P (ed_public P sk) m (ed_sign P sk m))"

definition keys_law :: "prims \<Rightarrow> bool" where
  "keys_law P \<longleftrightarrow> (\<forall>sk. length (ed_public P sk) = 32 \<and> ed_key_ok P (ed_public P sk)
     \<and> length (x_public P sk) = 32)"

text \<open>A small concrete instance, used by witnesses only: it satisfies all four laws.\<close>

definition toy_prims :: prims where
  "toy_prims = \<lparr>
     sha256_fn = (\<lambda>m. [of_nat (length m), sum_list m]),
     hkdf_fn = (\<lambda>salt k info. (case salt of None \<Rightarrow> k | Some s \<Rightarrow> s @ k) @ info),
     ed_public = arr 32,
     ed_sign = (\<lambda>sk m. arr 64 (arr 32 sk @ m)),
     ed_key_ok = (\<lambda>_. True),
     ed_sig_ok = (\<lambda>s. length s = 64),
     ed_verify = (\<lambda>pk m s. s = arr 64 (pk @ m)),
     x_public = arr 32,
     x_dh = (\<lambda>a b. [sum_list (arr 32 a) + sum_list b]),
     x_contributory = (\<lambda>s. s \<noteq> [0]),
     aead_enc = (\<lambda>k n m. Some (m @ replicate 16 0)),
     aead_dec = (\<lambda>k n c. Some (take (length c - 16) c)) \<rparr>"

lemma toy_aead [simp]: "aead_law toy_prims"
  by (simp add: aead_law_def toy_prims_def)

lemma toy_dh [simp]: "dh_law toy_prims"
  by (simp add: dh_law_def toy_prims_def add.commute)

lemma toy_sig [simp]: "sig_law toy_prims"
  by (simp add: sig_law_def toy_prims_def)

lemma toy_keys [simp]: "keys_law toy_prims"
  by (simp add: keys_law_def toy_prims_def)

section \<open>crypto.rs\<close>

definition sha256 :: "prims \<Rightarrow> bytes \<Rightarrow> bytes" where
  "sha256 P data = arr 32 (sha256_fn P data)"

definition encrypt_e2e :: "prims \<Rightarrow> bytes \<Rightarrow> bytes \<Rightarrow> bytes \<Rightarrow> bytes option" where
  "encrypt_e2e P nonce plaintext key =
     (case aead_enc P key nonce plaintext of None \<Rightarrow> None | Some ct \<Rightarrow> Some (nonce @ ct))"

definition decrypt_e2e :: "prims \<Rightarrow> bytes \<Rightarrow> bytes \<Rightarrow> bytes option" where
  "decrypt_e2e P encrypted key =
     (if length encrypted < 28 then None
      else aead_dec P key (take 12 encrypted) (drop 12 encrypted))"

text \<open>Fresh random bytes come in; zeroing keeps the length.\<close>
definition generate_key :: "bytes \<Rightarrow> bytes" where
  "generate_key rnd = arr 32 rnd"

definition generate_nonce :: "bytes \<Rightarrow> bytes" where
  "generate_nonce rnd = arr 12 rnd"

definition secure_random_bytes :: "bytes \<Rightarrow> nat \<Rightarrow> bytes" where
  "secure_random_bytes rnd len = arr len rnd"

definition secure_clear :: "bytes \<Rightarrow> bytes" where
  "secure_clear data = replicate (length data) 0"

text \<open>The loop accumulates the XOR of the first \<open>min_len\<close> bytes without an early exit.\<close>
fun ct_diff :: "bytes \<Rightarrow> bytes \<Rightarrow> u8 \<Rightarrow> u8" where
  "ct_diff (a # as) (b # bs) d = ct_diff as bs (d OR (a XOR b))"
| "ct_diff _ _ d = d"

definition constant_time_eq :: "bytes \<Rightarrow> bytes \<Rightarrow> bool" where
  "constant_time_eq a b \<longleftrightarrow> ct_diff a b 0 = 0 \<and> length a = length b"

definition hkdf_expand32 :: "prims \<Rightarrow> bytes \<Rightarrow> bytes \<Rightarrow> bytes" where
  "hkdf_expand32 P prk info = arr 32 (hkdf_fn P None prk info)"

definition derive_session_key :: "prims \<Rightarrow> bytes \<Rightarrow> bytes \<Rightarrow> bytes \<Rightarrow> bytes" where
  "derive_session_key P shared_secret eph_a eph_b =
     (let (lo, hi) = (if eph_a < eph_b then (eph_a, eph_b) else (eph_b, eph_a));
          salt = lo @ hi
      in arr 32 (hkdf_fn P (Some salt) shared_secret (str_bytes ''chrono-session-v1'')))"

section \<open>identity.rs\<close>

record Identity =
  id_uid :: string
  id_secret_hex :: string
  id_public_hex :: string
  id_created :: u64

definition hex_digit :: "nat \<Rightarrow> char" where
  "hex_digit n = char_of (if n < 10 then 48 + n else 87 + n)"

definition hex_encode :: "bytes \<Rightarrow> string" where
  "hex_encode bs = concat (map (\<lambda>b. [hex_digit (unat b div 16), hex_digit (unat b mod 16)]) bs)"

definition hex_val :: "char \<Rightarrow> nat option" where
  "hex_val c = (let n = of_char c in
     if 48 \<le> n \<and> n \<le> 57 then Some (n - 48)
     else if 97 \<le> n \<and> n \<le> 102 then Some (n - 87)
     else if 65 \<le> n \<and> n \<le> 70 then Some (n - 55)
     else None)"

text \<open>\<^verbatim>\<open>u8::from_str_radix(s, 16).ok()\<close> on a two-character slice: the standard library accepts one
  leading plus sign.\<close>
definition parse_hex_pair :: "char \<Rightarrow> char \<Rightarrow> u8 option" where
  "parse_hex_pair c d =
     (if c = CHR ''+'' then map_option of_nat (hex_val d)
      else case (hex_val c, hex_val d) of
        (Some h, Some l) \<Rightarrow> Some (of_nat (16 * h + l))
      | _ \<Rightarrow> None)"

definition is_ascii :: "string \<Rightarrow> bool" where
  "is_ascii s \<longleftrightarrow> (\<forall>c \<in> set s. (of_char c :: nat) < 128)"

fun hex_pairs :: "string \<Rightarrow> bytes option" where
  "hex_pairs (c # d # s) =
     (case parse_hex_pair c d of None \<Rightarrow> None | Some b \<Rightarrow> map_option ((#) b) (hex_pairs s))"
| "hex_pairs _ = Some []"

definition hex_decode :: "string \<Rightarrow> bytes option" where
  "hex_decode hex = (if length hex mod 2 \<noteq> 0 \<or> \<not> is_ascii hex then None else hex_pairs hex)"

text \<open>\<^verbatim>\<open>hex_decode(..)\<close> followed by \<^verbatim>\<open><[u8; 32]>::try_from(..)\<close>\<close>
definition hex_decode32 :: "string \<Rightarrow> bytes option" where
  "hex_decode32 hex = (case hex_decode hex of
     None \<Rightarrow> None | Some bs \<Rightarrow> if length bs = 32 then Some bs else None)"

definition generate :: "prims \<Rightarrow> bytes \<Rightarrow> u64 \<Rightarrow> string \<Rightarrow> Identity" where
  "generate P key_bytes now u =
     \<lparr> id_uid = u,
       id_secret_hex = hex_encode (arr 32 key_bytes),
       id_public_hex = hex_encode (ed_public P (arr 32 key_bytes)),
       id_created = now \<rparr>"

definition public_key :: "prims \<Rightarrow> Identity \<Rightarrow> bytes option" where
  "public_key P ident = (case hex_decode32 (id_public_hex ident) of
     None \<Rightarrow> None | Some vk \<Rightarrow> if ed_key_ok P vk then Some vk else None)"

definition signing_key :: "Identity \<Rightarrow> bytes option" where
  "signing_key ident = hex_decode32 (id_secret_hex ident)"

definition sign :: "prims \<Rightarrow> Identity \<Rightarrow> bytes \<Rightarrow> bytes option" where
  "sign P ident message = (case signing_key ident of
     None \<Rightarrow> None | Some sk \<Rightarrow> Some (ed_sign P sk message))"

fun chunks4 :: "string \<Rightarrow> string list" where
  "chunks4 s = (if s = [] then [] else take 4 s # chunks4 (drop 4 s))"

declare chunks4.simps [simp del]

fun join_sp :: "string list \<Rightarrow> string" where
  "join_sp [] = []"
| "join_sp [s] = s"
| "join_sp (s # t # ss) = s @ '' '' @ join_sp (t # ss)"

definition upper_char :: "char \<Rightarrow> char" where
  "upper_char c = (let n = of_char c in if 97 \<le> n \<and> n \<le> 122 then char_of (n - 32 :: nat) else c)"

definition fingerprint_of_public_hex :: "prims \<Rightarrow> string \<Rightarrow> string" where
  "fingerprint_of_public_hex P hex =
     map upper_char (join_sp (take 8 (chunks4 (hex_encode (sha256 P (str_bytes hex))))))"

definition fingerprint :: "prims \<Rightarrow> Identity \<Rightarrow> string" where
  "fingerprint P ident = fingerprint_of_public_hex P (id_public_hex ident)"

definition public_hex_short :: "Identity \<Rightarrow> string" where
  "public_hex_short ident = (let h = id_public_hex ident in
     if length h < 8 \<or> \<not> is_ascii h then h else take 8 h @ ''...'' @ drop (length h - 8) h)"

section \<open>lib.rs\<close>

definition uid_byte_ok :: "u8 \<Rightarrow> bool" where
  "uid_byte_ok b \<longleftrightarrow> (48 \<le> b \<and> b \<le> 57) \<or> (65 \<le> b \<and> b \<le> 90) \<or> (97 \<le> b \<and> b \<le> 122)
     \<or> b \<in> set (str_bytes ''._-@:[]'')"

definition validate_uid :: "string \<Rightarrow> bool" where
  "validate_uid u \<longleftrightarrow> u \<noteq> [] \<and> length u \<le> 64 \<and> (\<forall>b \<in> set (str_bytes u). uid_byte_ok b)"

section \<open>Correctness\<close>

lemma length_sha256 [bytes_simps, simp]: "length (sha256 P m) = 32"
  by (simp add: sha256_def)

lemma length_hkdf_expand32 [bytes_simps, simp]: "length (hkdf_expand32 P k i) = 32"
  by (simp add: hkdf_expand32_def)

lemma aead_dec_enc: "aead_law P \<Longrightarrow> aead_enc P k n m = Some c \<Longrightarrow> aead_dec P k n c = Some m"
  by (simp add: aead_law_def)

lemma length_aead_enc: "aead_law P \<Longrightarrow> aead_enc P k n m = Some c \<Longrightarrow> length c = length m + 16"
  by (simp add: aead_law_def)

lemma decrypt_encrypt_e2e:
  assumes "aead_law P" and "length nonce = 12" and "encrypt_e2e P nonce m key = Some c"
  shows "decrypt_e2e P c key = Some m"
  using assms
  by (auto simp: encrypt_e2e_def decrypt_e2e_def length_aead_enc aead_dec_enc split: option.splits)

lemma length_encrypt_e2e:
  assumes "aead_law P" and "length nonce = 12" and "encrypt_e2e P nonce m key = Some c"
  shows "length c = length m + 28"
  using assms by (auto simp: encrypt_e2e_def length_aead_enc split: option.splits)

lemma xor_eq_0_iff: "(x XOR y :: 'a :: len word) = 0 \<longleftrightarrow> x = y"
  by (metis xor_self_eq bit.xor_left_self xor.right_neutral)

lemma ct_diff_eq_0_iff: "length a = length b \<Longrightarrow> ct_diff a b d = 0 \<longleftrightarrow> d = 0 \<and> a = b"
  by (induction a b arbitrary: d rule: list_induct2) (auto simp: or_eq_0_iff xor_eq_0_iff)

lemma constant_time_eq_iff [simp]: "constant_time_eq a b \<longleftrightarrow> a = b"
  by (auto simp: constant_time_eq_def ct_diff_eq_0_iff)

lemma of_char_char_of_small: "n < 256 \<Longrightarrow> of_char (char_of n) = (n :: nat)"
  by (simp add: of_char_of take_bit_nat_eq_self)

lemma of_char_hex_digit: "n < 16 \<Longrightarrow> of_char (hex_digit n) = (if n < 10 then 48 + n else 87 + n)"
  by (simp add: hex_digit_def of_char_char_of_small)

lemma hex_val_digit [simp]: "n < 16 \<Longrightarrow> hex_val (hex_digit n) = Some n"
  by (simp add: hex_val_def of_char_hex_digit)

lemma hex_digit_ascii: "n < 16 \<Longrightarrow> of_char (hex_digit n) < (128 :: nat)"
  by (simp add: of_char_hex_digit)

lemma hex_digit_not_plus: "n < 16 \<Longrightarrow> hex_digit n \<noteq> CHR ''+''"
  using of_char_hex_digit [of n] by (auto split: if_splits)

lemma unat_u8_lt: "unat (b :: u8) < 256"
  using unsigned_less [of b] by simp

lemma parse_hex_pair_digits [simp]:
  "parse_hex_pair (hex_digit (unat b div 16)) (hex_digit (unat b mod 16)) = Some b" for b :: u8
proof -
  have "unat b div 16 < 16" using unat_u8_lt [of b] by (simp add: less_mult_imp_div_less)
  then show ?thesis by (simp add: parse_hex_pair_def hex_digit_not_plus)
qed

lemma length_hex_encode [bytes_simps, simp]: "length (hex_encode bs) = 2 * length bs"
  by (induction bs) (simp_all add: hex_encode_def)

lemma is_ascii_hex_encode [simp]: "is_ascii (hex_encode bs)"
  by (auto simp: hex_encode_def is_ascii_def hex_digit_ascii less_mult_imp_div_less unat_u8_lt)

lemma hex_pairs_encode [simp]: "hex_pairs (hex_encode bs) = Some bs"
  by (induction bs) (simp_all add: hex_encode_def)

lemma hex_decode_encode [simp]: "hex_decode (hex_encode bs) = Some bs"
  by (simp add: hex_decode_def)

interpretation hex: codec hex_encode hex_decode "\<lambda>_. True"
  by unfold_locales simp

lemma hex_decode32_encode [simp]: "length bs = 32 \<Longrightarrow> hex_decode32 (hex_encode bs) = Some bs"
  by (simp add: hex_decode32_def)

lemma length_hex_pairs: "hex_pairs s = Some bs \<Longrightarrow> length s div 2 = length bs"
  by (induction s arbitrary: bs rule: hex_pairs.induct) (auto split: option.splits)

lemma hex_decode32_length: "hex_decode32 s = Some bs \<Longrightarrow> length bs = 32 \<and> length s = 64"
  by (auto simp: hex_decode32_def hex_decode_def split: option.splits if_splits dest!: length_hex_pairs)

lemma hex_encode_inject [simp]: "hex_encode a = hex_encode b \<longleftrightarrow> a = b"
  using hex.enc_inj by blast

lemma generate_keys:
  assumes "keys_law P" and "length seed = 32"
  shows "signing_key (generate P seed now u) = Some seed"
    and "public_key P (generate P seed now u) = Some (ed_public P seed)"
  using assms by (simp_all add: generate_def signing_key_def public_key_def keys_law_def)

lemma derive_session_key_commute: "derive_session_key P s a b = derive_session_key P s b a"
  by (auto simp: derive_session_key_def)

lemma length_derive_session_key [bytes_simps, simp]: "length (derive_session_key P s a b) = 32"
  by (simp add: derive_session_key_def split_beta)

end
