(* ===== verification/DcCore.thy ===== *)
theory DcCore
  imports Float64 Crypto
begin

text \<open>
  \<^verbatim>\<open>dcnet/mod.rs\<close>: byte-wise XOR, the per-round pairwise share derived from a friend-edge key, and
  the per-participant reputation counters. The interface \<open>pair_masks\<close> states what the round code
  relies on (a symmetric family of equally long masks) and proves once that all masks cancel in
  the XOR over a group.
\<close>

section \<open>XOR\<close>

definition get0 :: "bytes \<Rightarrow> nat \<Rightarrow> u8" where
  "get0 a i = (if i < length a then a ! i else 0)"

definition xor_bytes :: "bytes \<Rightarrow> bytes \<Rightarrow> bytes" where
  "xor_bytes a b = map (\<lambda>i. get0 a i XOR get0 b i) [0..<max (length a) (length b)]"

text \<open>The accumulation loop \<^verbatim>\<open>for s in shares { out = xor_bytes(&out, s) }\<close>.\<close>
definition xor_into :: "bytes \<Rightarrow> bytes list \<Rightarrow> bytes" where
  "xor_into out ss = foldl xor_bytes out ss"

section \<open>Pairwise shares\<close>

definition pair_info :: "u64 \<Rightarrow> bytes \<Rightarrow> bytes \<Rightarrow> bytes" where
  "pair_info round_id peer_a peer_b =
     (let (lo, hi) = (if peer_a < peer_b then (peer_a, peer_b) else (peer_b, peer_a))
      in str_bytes ''chrono-dcnet-pair-v1'' @ be_bytes 8 (unat round_id) @ lo @ hi)"

definition pair_block :: "prims \<Rightarrow> bytes \<Rightarrow> bytes \<Rightarrow> u8 \<Rightarrow> bytes" where
  "pair_block P edge_key info block = arr 32 (hkdf_fn P None edge_key (info @ [block]))"

text \<open>The block counter is a \<^verbatim>\<open>u8\<close>: it wraps after 256 blocks in the release profile.\<close>
function pair_blocks :: "prims \<Rightarrow> bytes \<Rightarrow> bytes \<Rightarrow> nat \<Rightarrow> u8 \<Rightarrow> bytes \<Rightarrow> bytes" where
  "pair_blocks P edge_key info len block out =
     (if length out < len
      then pair_blocks P edge_key info len (block + 1) (out @ pair_block P edge_key info block)
      else out)"
  by pat_completeness auto
termination
  by (relation "measure (\<lambda>(P, k, i, len, b, out). len - length out)") (auto simp: pair_block_def)

declare pair_blocks.simps [simp del]

definition derive_pair_share :: "prims \<Rightarrow> bytes \<Rightarrow> u64 \<Rightarrow> bytes \<Rightarrow> bytes \<Rightarrow> nat \<Rightarrow> bytes" where
  "derive_pair_share P edge_key round_id peer_a peer_b len =
     take len (pair_blocks P edge_key (pair_info round_id peer_a peer_b) len 0 [])"

section \<open>Participants\<close>

record Participant =
  peer_id :: bytes
  shares :: "bytes list"
  reputation :: f64
  consecutive_drops :: u32
  rounds_participated :: u64

definition Participant_new :: "bytes \<Rightarrow> Participant" where
  "Participant_new pid = \<lparr> peer_id = pid, shares = [], reputation = f64_one,
     consecutive_drops = 0, rounds_participated = 0 \<rparr>"

definition penalize :: "Participant \<Rightarrow> Participant" where
  "penalize p = p\<lparr> consecutive_drops := consecutive_drops p + 1,
     reputation := f64_mul (reputation p) (f64_lit 7 10) \<rparr>"

definition reward :: "Participant \<Rightarrow> Participant" where
  "reward p = p\<lparr> consecutive_drops := 0,
     reputation := min (f64_add (reputation p) (f64_lit 5 100)) f64_one \<rparr>"

definition is_malicious :: "Participant \<Rightarrow> bool" where
  "is_malicious p \<longleftrightarrow> consecutive_drops p \<ge> 3 \<or> reputation p < f64_lit 3 10"

definition absorb_from :: "Participant \<Rightarrow> Participant \<Rightarrow> Participant" where
  "absorb_from p other = p\<lparr> reputation := reputation other,
     consecutive_drops := consecutive_drops other,
     rounds_participated := rounds_participated other \<rparr>"

text \<open>A fresh random block.\<close>
definition generate_share :: "bytes \<Rightarrow> bytes" where
  "generate_share rnd = arr 32 rnd"

section \<open>XOR is a commutative monoid with self-inverse elements\<close>

lemma length_xor_bytes [bytes_simps, simp]: "length (xor_bytes a b) = max (length a) (length b)"
  by (simp add: xor_bytes_def)

lemma get0_xor_bytes [simp]: "get0 (xor_bytes a b) i = get0 a i XOR get0 b i"
  by (auto simp: get0_def xor_bytes_def)

lemma bytes_eq_iff: "a = b \<longleftrightarrow> length a = length b \<and> (\<forall>i. get0 a i = get0 b i)"
  by (metis get0_def nth_equalityI)

lemma xor_bytes_commute: "xor_bytes a b = xor_bytes b a"
  by (simp add: bytes_eq_iff [of "xor_bytes a b"] max.commute xor.commute)

lemma xor_bytes_assoc: "xor_bytes (xor_bytes a b) c = xor_bytes a (xor_bytes b c)"
  by (simp add: bytes_eq_iff [of "xor_bytes (xor_bytes a b) c"] max.assoc xor.assoc)

lemma xor_bytes_left_commute: "xor_bytes a (xor_bytes b c) = xor_bytes b (xor_bytes a c)"
  by (metis xor_bytes_assoc xor_bytes_commute)

lemmas xor_ac = xor_bytes_assoc xor_bytes_commute xor_bytes_left_commute

lemma get0_replicate [simp]: "get0 (replicate n 0) i = 0"
  by (simp add: get0_def)

lemma xor_bytes_zeros [simp]: "n \<le> length a \<Longrightarrow> xor_bytes a (replicate n 0) = a"
  by (simp add: bytes_eq_iff [of _ a])

lemma xor_bytes_zeros' [simp]: "n \<le> length a \<Longrightarrow> xor_bytes (replicate n 0) a = a"
  by (metis xor_bytes_commute xor_bytes_zeros)

lemma xor_bytes_self [simp]: "xor_bytes a a = replicate (length a) 0"
  by (simp add: bytes_eq_iff [of "xor_bytes a a"])

lemma xor_bytes_cancel: "length b \<le> length a \<Longrightarrow> xor_bytes (xor_bytes a b) b = a"
  by (simp add: xor_bytes_assoc)

lemma xor_into_Nil [simp]: "xor_into out [] = out"
  by (simp add: xor_into_def)

lemma xor_into_Cons [simp]: "xor_into out (s # ss) = xor_into (xor_bytes out s) ss"
  by (simp add: xor_into_def)

lemma xor_into_xor: "xor_into (xor_bytes a b) ss = xor_bytes a (xor_into b ss)"
  by (induction ss arbitrary: b) (simp_all add: xor_bytes_assoc)

lemma xor_into_snoc: "xor_into out (ss @ [s]) = xor_bytes (xor_into out ss) s"
  by (simp add: xor_into_def)

lemma length_xor_into [bytes_simps]:
  "\<forall>s \<in> set ss. length s = length out \<Longrightarrow> length (xor_into out ss) = length out"
  by (induction ss arbitrary: out) simp_all

lemma xor_into_perm: "mset ss = mset ts \<Longrightarrow> xor_into out ss = xor_into out ts"
proof -
  assume "mset ss = mset ts"
  moreover have conv: "xor_into o' us = fold (\<lambda>s acc. xor_bytes acc s) us o'" for us o'
    by (simp add: xor_into_def foldl_conv_fold)
  moreover have "(\<lambda>acc. xor_bytes acc x) \<circ> (\<lambda>acc. xor_bytes acc y)
      = (\<lambda>acc. xor_bytes acc y) \<circ> (\<lambda>acc. xor_bytes acc x)" for x y
    by (simp add: fun_eq_iff xor_ac)
  ultimately show ?thesis unfolding conv by (metis fold_multiset_equiv)
qed

lemma xor_into_zero_Cons:
  "length s = n \<Longrightarrow> xor_into (replicate n 0) (s # ss) = xor_bytes s (xor_into (replicate n 0) ss)"
  by (metis xor_bytes_commute xor_into_Cons xor_into_xor)

lemma xor_into_pointwise:
  assumes "\<forall>x \<in> set xs. length (f x) = n" and "\<forall>x \<in> set xs. length (g x) = n"
  shows "xor_into (replicate n 0) (map (\<lambda>x. xor_bytes (f x) (g x)) xs) =
    xor_bytes (xor_into (replicate n 0) (map f xs)) (xor_into (replicate n 0) (map g xs))"
  using assms
proof (induction xs rule: rev_induct)
  case Nil
  show ?case by simp
next
  case (snoc x xs)
  then show ?case by (simp add: xor_into_snoc xor_ac)
qed

lemma xor_into_single:
  assumes "distinct xs" and "length m = n"
  shows "xor_into (replicate n 0) (map (\<lambda>p. if p = s then m else replicate n 0) xs) =
    (if s \<in> set xs then m else replicate n 0)"
  using assms by (induction xs rule: rev_induct) (auto simp: xor_into_snoc)

text \<open>XORing a value into one summand XORs it into the total.\<close>
lemma xor_into_shift_one:
  assumes "distinct xs" and "length m = n" and "\<forall>x \<in> set xs. length (f x) = n"
  shows "xor_into (replicate n 0) (map (\<lambda>x. xor_bytes (f x) (if x = s then m else replicate n 0)) xs) =
    xor_bytes (xor_into (replicate n 0) (map f xs)) (if s \<in> set xs then m else replicate n 0)"
  using assms by (simp add: xor_into_pointwise xor_into_single)

section \<open>Cancellation of pairwise masks\<close>

locale pair_masks =
  fixes mask :: "'p \<Rightarrow> 'p \<Rightarrow> bytes"
    and n :: nat
  assumes mask_sym: "mask a b = mask b a"
    and mask_len: "length (mask a b) = n"
begin

lemma node_len: "length (xor_into (replicate n 0) (map (mask p) qs)) = n"
  by (simp add: length_xor_into mask_len)

lemma masks_cancel:
  "distinct ps \<Longrightarrow>
   xor_into (replicate n 0)
     (map (\<lambda>p. xor_into (replicate n 0) (map (mask p) (filter (\<lambda>q. q \<noteq> p) ps))) ps) = replicate n 0"
proof (induction ps)
  case Nil
  show ?case by simp
next
  case (Cons p ps)
  let ?z = "replicate n 0 :: bytes"
  let ?X = "xor_into ?z (map (mask p) ps)"
  let ?V = "\<lambda>q. xor_into ?z (map (mask q) (filter (\<lambda>r. r \<noteq> q) ps))"
  have own: "filter (\<lambda>q. q \<noteq> p) ps = ps" using Cons.prems by (auto simp: filter_id_conv)
  have "xor_into ?z (map (mask q) (filter (\<lambda>r. r \<noteq> q) (p # ps))) = xor_bytes (mask p q) (?V q)"
    if "q \<in> set ps" for q
  proof -
    have "filter (\<lambda>r. r \<noteq> q) (p # ps) = p # filter (\<lambda>r. r \<noteq> q) ps" using that Cons.prems by auto
    then show ?thesis
      by (simp only: list.map xor_into_zero_Cons mask_len mask_sym [of q p])
  qed
  then have "map (\<lambda>q. xor_into ?z (map (mask q) (filter (\<lambda>r. r \<noteq> q) (p # ps)))) ps
      = map (\<lambda>q. xor_bytes (mask p q) (?V q)) ps"
    by (rule map_cong [OF refl])
  then have "xor_into ?z (map (\<lambda>q. xor_into ?z (map (mask q) (filter (\<lambda>r. r \<noteq> q) (p # ps)))) ps)
      = xor_into ?z (map (\<lambda>q. xor_bytes (mask p q) (?V q)) ps)"
    by (simp only:)
  also have "\<dots> = xor_bytes ?X (xor_into ?z (map ?V ps))"
    by (rule xor_into_pointwise) (simp_all add: mask_len node_len)
  also have "\<dots> = ?X" using Cons by (simp add: node_len)
  finally show ?case
    using own by (simp add: xor_into_zero_Cons node_len del: xor_into_Cons)
qed

lemma masks_with_message:
  assumes "distinct ps" and "s \<in> set ps" and "length m = n"
  shows "xor_into (replicate n 0)
     (map (\<lambda>p. xor_bytes (xor_into (replicate n 0) (map (mask p) (filter (\<lambda>q. q \<noteq> p) ps)))
                 (if p = s then m else replicate n 0)) ps) = m"
  using assms by (simp add: xor_into_shift_one node_len masks_cancel)

end

section \<open>Properties of the pairwise share\<close>

lemma length_pair_block [bytes_simps, simp]: "length (pair_block P k info b) = 32"
  by (simp add: pair_block_def)

lemma blocks_needed: "0 < d \<Longrightarrow> (d + 31) div 32 = Suc ((d - 32 + 31) div 32)" for d :: nat
proof -
  assume "0 < d"
  then have "(d + 31) div 32 = (d - 1 + 32) div 32" by simp
  also have "\<dots> = Suc ((d - 1) div 32)" by simp
  also have "(d - 1) div 32 = (d - 32 + 31) div 32"
    by (cases "32 \<le> d") (simp_all add: div_eq_0_iff)
  finally show ?thesis .
qed

lemma pair_blocks_unfold:
  "pair_blocks P k info len b out =
     out @ concat (map (\<lambda>i. pair_block P k info (b + of_nat i)) [0..<(len - length out + 31) div 32])"
proof (induction P k info len b out rule: pair_blocks.induct)
  case (1 P k info len b out)
  show ?case
  proof (cases "length out < len")
    case True
    define m where "m = (len - (length out + 32) + 31) div 32"
    have m: "(len - length out + 31) div 32 = Suc m"
      using True blocks_needed [of "len - length out"] by (simp add: m_def)
    have "[0..<Suc m] = 0 # map Suc [0..<m]" by (simp add: map_Suc_upt upt_conv_Cons)
    then have shift: "map (\<lambda>i. pair_block P k info (b + of_nat i)) [0..<Suc m]
        = pair_block P k info b # map (\<lambda>i. pair_block P k info ((b + 1) + of_nat i)) [0..<m]"
      by (simp add: add.assoc comp_def)
    have "pair_blocks P k info len b out = pair_blocks P k info len (b + 1) (out @ pair_block P k info b)"
      using True by (simp add: pair_blocks.simps [of P k info len b out])
    also have "\<dots> = out @ concat (map (\<lambda>i. pair_block P k info (b + of_nat i)) [0..<Suc m])"
      unfolding shift using 1 [OF True] by (simp add: m_def)
    finally show ?thesis unfolding m .
  next
    case False
    then show ?thesis by (simp add: pair_blocks.simps [of _ _ _ len _ out])
  qed
qed

lemma nth_concat_blocks:
  assumes "\<And>i. length (f i) = k" and "0 < k"
  shows "j < m * k \<Longrightarrow> concat (map f [0..<m]) ! j = f (j div k) ! (j mod k)"
proof (induction m)
  case 0
  then show ?case by simp
next
  case (Suc m)
  have len: "length (concat (map f [0..<m])) = m * k"
    by (induction m) (simp_all add: assms(1))
  show ?case
  proof (cases "j < m * k")
    case True
    with Suc len show ?thesis by (simp add: nth_append)
  next
    case False
    with Suc.prems have j: "j = m * k + (j - m * k)" "j - m * k < k" by auto
    then have "j div k = m" "j mod k = j - m * k"
      by (metis add.commute assms(2) div_mult_self3 less_not_refl div_less add_0)
        (metis j mod_mult_self3 mod_less)
    with False len show ?thesis by (simp add: nth_append)
  qed
qed

lemma length_derive_pair_share [bytes_simps, simp]:
  "length (derive_pair_share P k r a b len) = len"
proof -
  have "length (concat (map f [0..<m])) = m * 32" if "\<And>i. length (f i) = 32" for f :: "nat \<Rightarrow> bytes" and m
    using that by (induction m) simp_all
  moreover have "len \<le> (len + 31) div 32 * 32" by simp
  ultimately show ?thesis by (simp add: derive_pair_share_def pair_blocks_unfold min_def)
qed

text \<open>Byte \<open>i\<close> of the share is byte \<open>i mod 32\<close> of the HKDF block numbered \<open>i div 32\<close>, the number
  being cut to eight bits.\<close>
lemma derive_pair_share_nth:
  assumes "i < len"
  shows "derive_pair_share P k r a b len ! i =
    pair_block P k (pair_info r a b) (of_nat (i div 32)) ! (i mod 32)"
proof -
  have "i < (len + 31) div 32 * 32" using assms by simp
  with assms show ?thesis
    by (simp add: derive_pair_share_def pair_blocks_unfold nth_concat_blocks)
qed

lemma pair_info_commute: "pair_info r a b = pair_info r b a"
  by (auto simp: pair_info_def)

lemma derive_pair_share_commute: "derive_pair_share P k r a b len = derive_pair_share P k r b a len"
  by (simp add: derive_pair_share_def pair_info_commute)

text \<open>The edge keys of a group are one key per unordered pair of members; with them the derived
  shares are a symmetric family of masks.\<close>
interpretation edge_share: pair_masks
  "\<lambda>p q. derive_pair_share P (key {p, q}) r (pid p) (pid q) len" len
  for P :: prims and key :: "'p set \<Rightarrow> bytes" and r :: u64 and pid :: "'p \<Rightarrow> bytes" and len :: nat
proof unfold_locales
  fix a b :: 'p
  show "derive_pair_share P (key {a, b}) r (pid a) (pid b) len
      = derive_pair_share P (key {b, a}) r (pid b) (pid a) len"
    by (simp only: insert_commute derive_pair_share_commute [of P _ r "pid a"])
qed simp

section \<open>Participants keep a reputation in [0, 1]\<close>

definition participant_ok :: "Participant \<Rightarrow> bool" where
  "participant_ok p \<longleftrightarrow> f64_rep (reputation p) \<and> reputation p \<le> f64_one"

lemma participant_ok_new [simp]: "participant_ok (Participant_new pid)"
  by (simp add: participant_ok_def Participant_new_def)

lemma participant_ok_penalize [simp]: "participant_ok p \<Longrightarrow> participant_ok (penalize p)"
  using f64_mul_le [of "reputation p" "f64_lit 7 10"] f64_lit_le_one [of 10 7]
  by (auto simp: participant_ok_def penalize_def intro: order_trans)

lemma participant_ok_reward [simp]: "participant_ok (reward p)"
  by (simp add: participant_ok_def reward_def)

lemma participant_ok_absorb [simp]: "participant_ok q \<Longrightarrow> participant_ok (absorb_from p q)"
  by (simp add: participant_ok_def absorb_from_def)

lemma penalize_lowers: "participant_ok p \<Longrightarrow> reputation (penalize p) \<le> reputation p"
  by (simp add: participant_ok_def penalize_def f64_mul_le f64_lit_le_one)

lemma reward_raises: "participant_ok p \<Longrightarrow> reputation p \<le> reputation (reward p)"
  by (simp add: participant_ok_def reward_def f64_add_ge)

lemma peer_id_simps [simp]:
  "peer_id (Participant_new pid) = pid" "peer_id (penalize p) = peer_id p"
  "peer_id (reward p) = peer_id p" "peer_id (absorb_from p q) = peer_id p"
  by (simp_all add: Participant_new_def penalize_def reward_def absorb_from_def)

end
