(* ===== verification/Messages.thy ===== *)
theory Messages
  imports Crypto
begin

text \<open>
  \<^verbatim>\<open>net/tcp.rs\<close>: the peer-to-peer message type, length-prefixed frames and traffic padding.
  A TCP stream is the list of bytes still to be read; \<^verbatim>\<open>write_all\<close> appends to it and \<^verbatim>\<open>read_exact\<close>
  fails when the stream ends early. JSON conversion belongs to serde and is a parameter wherever
  it is used.
\<close>

datatype io_error =
    UnexpectedEof
  | InvalidData string
  | PermissionDenied string
  | TimedOut string
  | OtherError string

datatype PeerMessage =
    FriendRequest uid string \<comment> \<open>from_uid, greeting\<close>
  | FriendAccept uid
  | ChannelMessage string uid string \<comment> \<open>channel, from_uid, text\<close>
  | DcRoundMsg string u64 bytes \<comment> \<open>channel, round_id, xored_payload\<close>
  | DcRoundStart string u64 uid "uid list" u64 nat
      \<comment> \<open>channel, round_id, leader_id, participants, deadline_secs, payload_len\<close>
  | DcRoundShare string u64 uid bytes bytes
      \<comment> \<open>channel, round_id, peer_uid, xored_payload, signature\<close>
  | DcRoundResult string u64 bytes bytes \<comment> \<open>channel, round_id, extracted_message, leader_signature\<close>
  | RoundSyncRequest uid string \<comment> \<open>from_uid, channel\<close>
  | RoundSyncResponse uid string u64 nat "(uid \<times> string) list"
      \<comment> \<open>leader_uid, channel, round_id, payload_len, share_commitments\<close>
  | LeaderChange string uid string u64 \<comment> \<open>network, new_leader, reason, round_id\<close>
  | NetworkInvite uid string string bytes \<comment> \<open>from_uid, network_name, pgp_fingerprint, signature\<close>
  | NetworkJoinRequest uid string string bytes
  | NetworkJoinAccept uid string "uid list" bytes \<comment> \<open>from_uid, network_name, member_list, signature\<close>
  | NetworkKick uid string uid string bytes
      \<comment> \<open>from_uid, network_name, kicked_uid, reason, signature\<close>
  | NetworkSync uid string "uid list" string u64 bytes
      \<comment> \<open>from_uid, network_name, members, topic, round_id, signature\<close>
  | Ping u64
  | Pong u64
  | AuthChallenge uid string string bytes bytes
      \<comment> \<open>from_uid, public_key_hex, eph_pub_hex, nonce, signature\<close>
  | AuthResponse uid string string bytes \<comment> \<open>from_uid, public_key_hex, eph_pub_hex, signature\<close>
  | RelayRequest uid uid string u64 u64 u8 bytes bytes
      \<comment> \<open>from_uid, to_uid, origin_key_hex, nonce, timestamp, hops_left, signature, encrypted_payload\<close>
  | RelayResponse uid uid string u64 u64 u8 bytes bytes

section \<open>Frames\<close>

text \<open>\<^verbatim>\<open>stream.read_exact(&mut buf)\<close> with a buffer of \<open>n\<close> bytes: the bytes read and the rest.\<close>
definition read_exact :: "nat \<Rightarrow> bytes \<Rightarrow> io_error + (bytes \<times> bytes)" where
  "read_exact n s = (if length s < n then Inl UnexpectedEof else Inr (take n s, drop n s))"

definition send_frame :: "bytes \<Rightarrow> bytes \<Rightarrow> bytes" where
  "send_frame stream payload = stream @ be_bytes 4 (length payload) @ payload"

definition recv_frame :: "bytes \<Rightarrow> io_error + (bytes \<times> bytes)" where
  "recv_frame stream = (case read_exact 4 stream of
     Inl e \<Rightarrow> Inl e
   | Inr (len_buf, s1) \<Rightarrow>
       (let len = from_be len_buf in
        if len > 65536 then Inl (InvalidData ''frame too large'')
        else read_exact len s1))"

definition send_encrypted_frame ::
  "prims \<Rightarrow> bytes \<Rightarrow> bytes \<Rightarrow> bytes \<Rightarrow> bytes \<Rightarrow> io_error + bytes" where
  "send_encrypted_frame P nonce stream payload key = (case encrypt_e2e P nonce payload key of
     None \<Rightarrow> Inl (OtherError ''encrypt failed'')
   | Some enc \<Rightarrow> Inr (send_frame stream enc))"

definition recv_encrypted_frame :: "prims \<Rightarrow> bytes \<Rightarrow> bytes \<Rightarrow> io_error + (bytes \<times> bytes)" where
  "recv_encrypted_frame P stream key = (case recv_frame stream of
     Inl e \<Rightarrow> Inl e
   | Inr (enc, rest) \<Rightarrow> (case decrypt_e2e P enc key of
       None \<Rightarrow> Inl (OtherError ''decrypt failed'')
     | Some p \<Rightarrow> Inr (p, rest)))"

section \<open>Traffic padding\<close>

definition PADDED_SIZE :: nat where
  "PADDED_SIZE = 1024"

text \<open>\<open>fill\<close> is what \<^verbatim>\<open>OsRng\<close> writes into the tail.\<close>
definition pad_frame :: "bytes \<Rightarrow> bytes \<Rightarrow> io_error + bytes" where
  "pad_frame fill payload =
     (if length payload > PADDED_SIZE then Inl (InvalidData ''payload too large'')
      else Inr (payload @ arr (PADDED_SIZE - length payload) fill))"

definition keepalive_frame :: "bytes \<Rightarrow> bytes" where
  "keepalive_frame fill = arr PADDED_SIZE fill"

definition unpad_frame :: "bytes \<Rightarrow> nat \<Rightarrow> bytes" where
  "unpad_frame padded original_len = take (min original_len (length padded)) padded"

section \<open>Correctness\<close>

lemma read_exact_append [simp]: "length a = n \<Longrightarrow> read_exact n (a @ b) = Inr (a, b)"
  by (simp add: read_exact_def)

lemma read_exact_Inr: "read_exact n s = Inr (a, b) \<longleftrightarrow> s = a @ b \<and> length a = n"
  by (auto simp: read_exact_def)

lemma recv_send_frame:
  assumes "length payload \<le> 65536"
  shows "recv_frame (send_frame [] payload @ rest) = Inr (payload, rest)"
  using assms by (simp add: recv_frame_def send_frame_def from_be_be_bytes)

lemma recv_frame_oversized:
  assumes "65536 < length payload" and "length payload < 2 ^ 32"
  shows "recv_frame (send_frame [] payload @ rest) = Inl (InvalidData ''frame too large'')"
  using assms by (simp add: recv_frame_def send_frame_def from_be_be_bytes)

interpretation frame: codec "send_frame []"
  "\<lambda>s. case recv_frame s of Inr (p, []) \<Rightarrow> Some p | _ \<Rightarrow> None" "\<lambda>p. length p \<le> 65536"
proof unfold_locales
  fix p :: bytes
  assume "length p \<le> 65536"
  then show "(case recv_frame (send_frame [] p) of Inr (p, []) \<Rightarrow> Some p | _ \<Rightarrow> None) = Some p"
    using recv_send_frame [of p "[]"] by simp
qed

lemma pad_unpad_frame:
  assumes "pad_frame fill payload = Inr padded"
  shows "length padded = PADDED_SIZE" and "unpad_frame padded (length payload) = payload"
  using assms by (auto simp: pad_frame_def unpad_frame_def split: if_splits)

end
