(* ===== verification/RoundNetwork.thy ===== *)
theory RoundNetwork
  imports DcCore Messages
begin

text \<open>
  \<^verbatim>\<open>dcnet/round_network.rs\<close>: the share a participant computes, the leader's collector, the framing of
  the message inside the fixed payload, share signatures, and the single monotonic round counter.
  Instants are milliseconds. Where a call can panic its result is an option whose \<^const>\<open>None\<close> is the
  panic.
\<close>

section \<open>Constants and peer ids\<close>

definition DEFAULT_PAYLOAD_LEN :: nat where
  "DEFAULT_PAYLOAD_LEN = 1024"

definition MAX_ROUND_DEADLINE_SECS :: u64 where
  "MAX_ROUND_DEADLINE_SECS = 30"

definition SHARE_SIG_DOMAIN :: bytes where
  "SHARE_SIG_DOMAIN = str_bytes ''chrono-dcnet-share-v1''"

definition peer_id_of :: "prims \<Rightarrow> uid \<Rightarrow> bytes" where
  "peer_id_of P u = sha256 P (str_bytes u)"

section \<open>The collector\<close>

record RoundCollector =
  rc_channel :: string
  rc_round_id :: u64
  rc_participants :: "uid list" \<comment> \<open>a hash set: distinct\<close>
  rc_shares_received :: "(uid, bytes) hmap"
  rc_deadline :: nat
  rc_payload_len :: nat
  rc_my_message :: "bytes option"
  rc_my_share_submitted :: bool

datatype submit_error =
    NotAParticipant uid
  | DuplicateShare uid
  | LengthMismatch nat nat \<comment> \<open>got, expected\<close>

definition RoundCollector_new ::
  "nat \<Rightarrow> string \<Rightarrow> u64 \<Rightarrow> uid list \<Rightarrow> u64 \<Rightarrow> nat \<Rightarrow> RoundCollector" where
  "RoundCollector_new now channel round_id participants deadline_secs payload_len =
     \<lparr> rc_channel = channel, rc_round_id = round_id,
       rc_participants = remdups participants, rc_shares_received = [],
       rc_deadline = now + 1000 * unat (min deadline_secs MAX_ROUND_DEADLINE_SECS),
       rc_payload_len = min (max payload_len 4) 65536,
       rc_my_message = None, rc_my_share_submitted = False \<rparr>"

definition is_expired :: "nat \<Rightarrow> RoundCollector \<Rightarrow> bool" where
  "is_expired now c \<longleftrightarrow> now \<ge> rc_deadline c"

definition is_complete :: "RoundCollector \<Rightarrow> bool" where
  "is_complete c \<longleftrightarrow> length (rc_shares_received c) \<ge> length (rc_participants c)"

definition submit_share :: "uid \<Rightarrow> bytes \<Rightarrow> RoundCollector \<Rightarrow> submit_error + RoundCollector" where
  "submit_share peer_uid xored c =
     (if \<not> List.member (rc_participants c) peer_uid then Inl (NotAParticipant peer_uid)
      else if has_key (rc_shares_received c) peer_uid then Inl (DuplicateShare peer_uid)
      else if length xored \<noteq> rc_payload_len c then Inl (LengthMismatch (length xored) (rc_payload_len c))
      else Inr (c\<lparr> rc_shares_received := hput peer_uid xored (rc_shares_received c) \<rparr>))"

definition missing_participants :: "RoundCollector \<Rightarrow> uid list" where
  "missing_participants c = filter (\<lambda>p. \<not> has_key (rc_shares_received c) p) (rc_participants c)"

text \<open>\<^verbatim>\<open>result[..xored.len()].copy_from_slice(&xored)\<close> panics when a share is longer than the
  result.\<close>
fun extract_loop :: "bytes \<Rightarrow> bytes list \<Rightarrow> bytes option" where
  "extract_loop result [] = Some result"
| "extract_loop result (share # ss) =
     (let xored = xor_bytes result share in
      if length xored > length result then None
      else extract_loop (xored @ drop (length xored) result) ss)"

definition extract_message :: "RoundCollector \<Rightarrow> bytes option option" where
  "extract_message c =
     (if rc_shares_received c = [] then Some None
      else map_option Some
             (extract_loop (replicate (rc_payload_len c) 0) (hvalues (rc_shares_received c))))"

section \<open>Framing the message\<close>

definition pad_message :: "prims \<Rightarrow> bytes \<Rightarrow> nat \<Rightarrow> bytes option" where
  "pad_message P msg payload_len =
     (let frame_len = 36 + length msg in
      if payload_len < frame_len then None
      else Some (be_bytes 4 (length msg) @ sha256 P msg @ msg @ replicate (payload_len - frame_len) 0))"

definition unpad_message :: "prims \<Rightarrow> bytes \<Rightarrow> bytes option" where
  "unpad_message P padded =
     (if length padded < 36 then None
      else let len = from_be (take 4 padded) in
        if len > length padded - 36 then None
        else let msg = take len (drop 36 padded) in
          if sha256 P msg \<noteq> take 32 (drop 4 padded) then None else Some msg)"

section \<open>Shares\<close>

fun share_loop ::
  "prims \<Rightarrow> u64 \<Rightarrow> uid \<Rightarrow> nat \<Rightarrow> (uid, bytes) hmap \<Rightarrow> bytes \<Rightarrow> uid list \<Rightarrow> bytes option" where
  "share_loop P round_id my_uid payload_len edge_keys output [] = Some output"
| "share_loop P round_id my_uid payload_len edge_keys output (other # others) =
     (if other = my_uid then share_loop P round_id my_uid payload_len edge_keys output others
      else case hget edge_keys other of
        None \<Rightarrow> None
      | Some key \<Rightarrow> share_loop P round_id my_uid payload_len edge_keys
          (xor_bytes output
            (derive_pair_share P key round_id (peer_id_of P my_uid) (peer_id_of P other) payload_len))
          others)"

definition mask_message :: "prims \<Rightarrow> bytes option \<Rightarrow> nat \<Rightarrow> bytes \<Rightarrow> bytes option" where
  "mask_message P message payload_len output = (case message of
     None \<Rightarrow> Some output
   | Some msg \<Rightarrow> (case pad_message P msg payload_len of
       None \<Rightarrow> None | Some padded \<Rightarrow> Some (xor_bytes output padded)))"

definition compute_xor_share_secure ::
  "prims \<Rightarrow> u64 \<Rightarrow> uid \<Rightarrow> uid list \<Rightarrow> bytes option \<Rightarrow> nat \<Rightarrow> (uid, bytes) hmap \<Rightarrow> bytes option" where
  "compute_xor_share_secure P round_id my_uid participants message payload_len edge_keys =
     (if length participants < 2 \<or> \<not> list_ex (\<lambda>u. u = my_uid) participants then None
      else case share_loop P round_id my_uid payload_len edge_keys (replicate payload_len 0) participants of
        None \<Rightarrow> None
      | Some output \<Rightarrow> mask_message P message payload_len output)"

text \<open>\<^verbatim>\<open>while result.len() < output_len { result.extend_from_slice(&hash) }\<close>, the hash being the
  digest of \<open>input\<close>.\<close>
function sim_fill :: "prims \<Rightarrow> bytes \<Rightarrow> nat \<Rightarrow> bytes \<Rightarrow> bytes" where
  "sim_fill P input output_len result =
     (if length result < output_len
      then sim_fill P input output_len (result @ sha256 P input) else result)"
  by pat_completeness auto
termination
  by (relation "measure (\<lambda>(P, h, n, r). n - length r)") (auto simp: sha256_def)

declare sim_fill.simps [simp del]

definition pairwise_share_simulation :: "prims \<Rightarrow> u64 \<Rightarrow> uid \<Rightarrow> uid \<Rightarrow> nat \<Rightarrow> bytes" where
  "pairwise_share_simulation P round_id peer_a peer_b output_len =
     (let (p1, p2) = (if peer_a < peer_b then (peer_a, peer_b) else (peer_b, peer_a));
          input = str_bytes ''chrono-dcnet-pairwise-sim-v1''
                   @ be_bytes 4 (length p1) @ str_bytes p1
                   @ be_bytes 4 (length p2) @ str_bytes p2 @ be_bytes 8 (unat round_id)
      in take output_len (sim_fill P input output_len []))"

definition compute_xor_share_simulation ::
  "prims \<Rightarrow> u64 \<Rightarrow> uid \<Rightarrow> uid list \<Rightarrow> bytes option \<Rightarrow> nat \<Rightarrow> bytes option" where
  "compute_xor_share_simulation P round_id my_uid participants message payload_len =
     mask_message P message payload_len
       (foldl (\<lambda>output other. if other = my_uid then output
           else xor_bytes output (pairwise_share_simulation P round_id my_uid other payload_len))
         (replicate payload_len 0) participants)"

section \<open>Share signatures and messages\<close>

definition share_signature_message :: "string \<Rightarrow> u64 \<Rightarrow> bytes \<Rightarrow> bytes" where
  "share_signature_message channel round_id share =
     SHARE_SIG_DOMAIN @ be_bytes 4 (length channel) @ str_bytes channel
       @ be_bytes 8 (unat round_id) @ share"

definition sign_share :: "prims \<Rightarrow> bytes \<Rightarrow> string \<Rightarrow> u64 \<Rightarrow> bytes \<Rightarrow> bytes" where
  "sign_share P sk channel round_id share =
     ed_sign P sk (share_signature_message channel round_id share)"

definition verify_share_signature ::
  "prims \<Rightarrow> bytes \<Rightarrow> string \<Rightarrow> u64 \<Rightarrow> bytes \<Rightarrow> bytes \<Rightarrow> bool" where
  "verify_share_signature P vk channel round_id share signature \<longleftrightarrow>
     ed_sig_ok P signature \<and>
     ed_verify P vk (share_signature_message channel round_id share) signature"

definition build_round_start ::
  "string \<Rightarrow> u64 \<Rightarrow> uid \<Rightarrow> uid list \<Rightarrow> u64 \<Rightarrow> nat \<Rightarrow> PeerMessage" where
  "build_round_start channel round_id leader_id participants deadline_secs payload_len =
     DcRoundStart channel round_id leader_id participants deadline_secs payload_len"

definition build_round_share :: "string \<Rightarrow> u64 \<Rightarrow> uid \<Rightarrow> bytes \<Rightarrow> bytes \<Rightarrow> PeerMessage" where
  "build_round_share channel round_id peer_uid xored_payload signature =
     DcRoundShare channel round_id peer_uid xored_payload signature"

section \<open>The round counter\<close>

record RoundTracker =
  rt_current_round_id :: u64
  rt_active_round :: "RoundCollector option"
  rt_message_queue :: "string list"
  rt_last_leader_seen :: nat

definition RoundTracker_new :: "nat \<Rightarrow> RoundTracker" where
  "RoundTracker_new now = \<lparr> rt_current_round_id = 0, rt_active_round = None,
     rt_message_queue = [], rt_last_leader_seen = now \<rparr>"

definition next_round :: "RoundTracker \<Rightarrow> RoundTracker \<times> u64" where
  "next_round t = (let r = rt_current_round_id t + 1 in (t\<lparr> rt_current_round_id := r \<rparr>, r))"

definition mark_seen :: "u64 \<Rightarrow> RoundTracker \<Rightarrow> RoundTracker \<times> bool" where
  "mark_seen round_id t =
     (if round_id = rt_current_round_id t + 1 then (t\<lparr> rt_current_round_id := round_id \<rparr>, True)
      else (t, False))"

definition is_stale :: "RoundTracker \<Rightarrow> u64 \<Rightarrow> bool" where
  "is_stale t round_id \<longleftrightarrow> round_id \<le> rt_current_round_id t"

definition verify_round_id :: "RoundTracker \<Rightarrow> u64 \<Rightarrow> bool" where
  "verify_round_id t round_id \<longleftrightarrow>
     round_id = rt_current_round_id t \<or> round_id = rt_current_round_id t + 1"

definition queue_message :: "string \<Rightarrow> RoundTracker \<Rightarrow> RoundTracker" where
  "queue_message txt t = t\<lparr> rt_message_queue := rt_message_queue t @ [txt] \<rparr>"

definition dequeue_message :: "RoundTracker \<Rightarrow> RoundTracker \<times> string option" where
  "dequeue_message t = (case rt_message_queue t of
     [] \<Rightarrow> (t, None)
   | m # ms \<Rightarrow> (t\<lparr> rt_message_queue := ms \<rparr>, Some m))"

definition build_sync_response ::
  "prims \<Rightarrow> RoundTracker \<Rightarrow> uid \<Rightarrow> string \<Rightarrow> RoundCollector \<Rightarrow> PeerMessage" where
  "build_sync_response P t leader_uid channel c =
     RoundSyncResponse leader_uid channel (rt_current_round_id t) (rc_payload_len c)
       (map (\<lambda>(u, share). (u, hex_encode (sha256 P share))) (rc_shares_received c))"

definition verify_share_commitment :: "prims \<Rightarrow> uid \<Rightarrow> bytes \<Rightarrow> string \<Rightarrow> bool" where
  "verify_share_commitment P u share commitment \<longleftrightarrow> hex_encode (sha256 P share) = commitment"

section \<open>Framing round trip\<close>

lemma length_peer_id_of [bytes_simps, simp]: "length (peer_id_of P u) = 32"
  by (simp add: peer_id_of_def)

lemma pad_message_Some: "pad_message P msg n = Some padded \<Longrightarrow> length padded = n \<and> 36 + length msg \<le> n"
  by (auto simp: pad_message_def Let_def split: if_splits)

lemma unpad_pad:
  assumes "pad_message P msg n = Some padded" and "length msg < 2 ^ 32"
  shows "unpad_message P padded = Some msg"
  using assms
  by (auto simp: pad_message_def unpad_message_def Let_def from_be_be_bytes split: if_splits)

lemma pad_message_fits: "36 + length msg \<le> n \<Longrightarrow> \<exists>padded. pad_message P msg n = Some padded"
  by (simp add: pad_message_def)

interpretation payload: codec "\<lambda>m. the (pad_message P m n)" "unpad_message P"
  "\<lambda>m. 36 + length m \<le> n \<and> length m < 2 ^ 32"
  for P :: prims and n :: nat
proof unfold_locales
  fix m :: bytes
  assume "36 + length m \<le> n \<and> length m < 2 ^ 32"
  then show "unpad_message P (the (pad_message P m n)) = Some m"
    by (metis option.sel pad_message_fits unpad_pad)
qed

text \<open>What decoding accepts is exactly a frame whose checksum matches its content.\<close>
lemma unpad_message_Some_iff:
  "unpad_message P padded = Some msg \<longleftrightarrow>
     (\<exists>hd4 tl. padded = hd4 @ sha256 P msg @ msg @ tl \<and> length hd4 = 4 \<and> from_be hd4 = length msg)"
    (is "?l \<longleftrightarrow> ?r")
proof
  assume l: ?l
  let ?n = "from_be (take 4 padded)"
  from l have len: "36 \<le> length padded" "?n \<le> length padded - 36"
    and msg: "msg = take ?n (drop 36 padded)" and sum: "sha256 P msg = take 32 (drop 4 padded)"
    by (auto simp: unpad_message_def Let_def split: if_splits)
  have "drop 4 padded = take 32 (drop 4 padded) @ drop 32 (drop 4 padded)"
    by (rule append_take_drop_id [symmetric])
  also have "drop 32 (drop 4 padded) = drop 36 padded" by simp
  also have "\<dots> = msg @ drop ?n (drop 36 padded)"
    by (subst msg) (rule append_take_drop_id [symmetric])
  finally have "padded = take 4 padded @ sha256 P msg @ msg @ drop ?n (drop 36 padded)"
    by (metis append_take_drop_id sum)
  moreover have "length msg = ?n" using len msg by simp
  ultimately show ?r using len by (metis (no_types) length_take min.absorb2 numeral_le_iff
      order_trans semiring_norm(68) semiring_norm(71) semiring_norm(73))
next
  assume ?r
  then show ?l by (auto simp: unpad_message_def Let_def)
qed

section \<open>Shares in closed form\<close>

lemma share_loop_eq:
  "share_loop P r me n ek out os =
     (if \<forall>q \<in> set os. q \<noteq> me \<longrightarrow> has_key ek q
      then Some (xor_into out (map (\<lambda>q. derive_pair_share P (the (hget ek q)) r
                                   (peer_id_of P me) (peer_id_of P q) n)
                                 (filter (\<lambda>q. q \<noteq> me) os)))
      else None)"
  by (induction os arbitrary: out) (auto simp: has_key_def split: option.splits)

text \<open>A group whose members hold the same key at both ends of every edge.\<close>
definition edges_agree :: "(uid set \<Rightarrow> bytes) \<Rightarrow> (uid \<Rightarrow> (uid, bytes) hmap) \<Rightarrow> uid list \<Rightarrow> bool" where
  "edges_agree key ek ps \<longleftrightarrow>
     (\<forall>p \<in> set ps. \<forall>q \<in> set ps. p \<noteq> q \<longrightarrow> hget (ek p) q = Some (key {p, q}))"

abbreviation edge_mask :: "prims \<Rightarrow> (uid set \<Rightarrow> bytes) \<Rightarrow> u64 \<Rightarrow> nat \<Rightarrow> uid \<Rightarrow> uid \<Rightarrow> bytes" where
  "edge_mask P key r n p q \<equiv> derive_pair_share P (key {p, q}) r (peer_id_of P p) (peer_id_of P q) n"

lemma compute_share_closed:
  assumes "edges_agree key ek ps" and "2 \<le> length ps" and "p \<in> set ps"
  shows "compute_xor_share_secure P r p ps msg n (ek p) =
    mask_message P msg n
      (xor_into (replicate n 0) (map (edge_mask P key r n p) (filter (\<lambda>q. q \<noteq> p) ps)))"
proof -
  have "hget (ek p) q = Some (key {p, q})" if "q \<in> set ps" "q \<noteq> p" for q
    using assms that by (simp add: edges_agree_def)
  then have eq: "map (\<lambda>q. derive_pair_share P (the (hget (ek p) q)) r (peer_id_of P p) (peer_id_of P q) n)
      (filter (\<lambda>q. q \<noteq> p) ps) = map (edge_mask P key r n p) (filter (\<lambda>q. q \<noteq> p) ps)"
    and all: "\<forall>q \<in> set ps. q \<noteq> p \<longrightarrow> has_key (ek p) q"
    by (auto simp: has_key_def)
  show ?thesis
    unfolding compute_xor_share_secure_def share_loop_eq eq
    using assms all by (auto simp: list_ex_iff)
qed

lemma mask_message_fits:
  assumes "pad_message P m n = Some padded" and "length out = n"
  shows "mask_message P (if b then Some m else None) n out =
    Some (xor_bytes out (if b then padded else replicate n 0))"
  using assms by (simp add: mask_message_def)

section \<open>Collecting shares\<close>

definition collector_ok :: "RoundCollector \<Rightarrow> bool" where
  "collector_ok c \<longleftrightarrow> distinct (rc_participants c) \<and> hwf (rc_shares_received c)
     \<and> set (hkeys (rc_shares_received c)) \<subseteq> set (rc_participants c)
     \<and> (\<forall>s \<in> set (hvalues (rc_shares_received c)). length s = rc_payload_len c)"

lemma collector_ok_new [simp]: "collector_ok (RoundCollector_new now ch r ps dl n)"
  by (simp add: collector_ok_def RoundCollector_new_def hkeys_def hvalues_def)

lemma hput_fresh: "\<not> has_key m k \<Longrightarrow> hput k v m = m @ [(k, v)]"
  by (induction m) (auto simp: has_key_def split: if_splits)

lemma submit_share_Inr_iff:
  "submit_share u x c = Inr c' \<longleftrightarrow>
     u \<in> set (rc_participants c) \<and> \<not> has_key (rc_shares_received c) u \<and> length x = rc_payload_len c
     \<and> c' = c\<lparr> rc_shares_received := rc_shares_received c @ [(u, x)] \<rparr>"
  by (auto simp: submit_share_def hput_fresh)

lemma collector_ok_submit: "collector_ok c \<Longrightarrow> submit_share u x c = Inr c' \<Longrightarrow> collector_ok c'"
  by (auto simp: submit_share_Inr_iff collector_ok_def hwf_def has_key_iff hkeys_def hvalues_def)

lemma extract_loop_eq:
  "\<forall>s \<in> set ss. length s = length out \<Longrightarrow> extract_loop out ss = Some (xor_into out ss)"
  by (induction ss arbitrary: out) (simp_all add: Let_def)

lemma extract_message_ok:
  assumes "collector_ok c" and "rc_shares_received c \<noteq> []"
  shows "extract_message c =
    Some (Some (xor_into (replicate (rc_payload_len c) 0) (hvalues (rc_shares_received c))))"
  using assms by (simp add: extract_message_def extract_loop_eq collector_ok_def)

lemma is_complete_iff:
  assumes "collector_ok c"
  shows "is_complete c \<longleftrightarrow> missing_participants c = []"
proof -
  have keys: "length (rc_shares_received c) = card (set (hkeys (rc_shares_received c)))"
    using assms by (simp add: collector_ok_def hwf_def distinct_card) (simp add: hkeys_def)
  have parts: "length (rc_participants c) = card (set (rc_participants c))"
    using assms by (simp add: collector_ok_def distinct_card)
  have "set (hkeys (rc_shares_received c)) \<subseteq> set (rc_participants c)"
    using assms by (simp add: collector_ok_def)
  then have "is_complete c \<longleftrightarrow> set (hkeys (rc_shares_received c)) = set (rc_participants c)"
    unfolding is_complete_def keys parts by (metis List.finite_set card_seteq order_refl)
  also have "\<dots> \<longleftrightarrow> missing_participants c = []"
    using assms by (auto simp: missing_participants_def filter_empty_conv has_key_iff collector_ok_def)
  finally show ?thesis .
qed

text \<open>A leader's run: submissions in arrival order, rejected ones leaving the collector as it was.\<close>
definition submit_or_skip :: "uid \<times> bytes \<Rightarrow> RoundCollector \<Rightarrow> RoundCollector" where
  "submit_or_skip ux c = (case submit_share (fst ux) (snd ux) c of Inl _ \<Rightarrow> c | Inr c' \<Rightarrow> c')"

interpretation collect: op_system submit_or_skip collector_ok
  by unfold_locales (auto simp: submit_or_skip_def collector_ok_submit split: sum.split)

fun submit_all :: "(uid \<times> bytes) list \<Rightarrow> RoundCollector \<Rightarrow> submit_error + RoundCollector" where
  "submit_all [] c = Inr c"
| "submit_all ((u, x) # xs) c = (case submit_share u x c of Inl e \<Rightarrow> Inl e | Inr c' \<Rightarrow> submit_all xs c')"

lemma submit_all_fresh:
  assumes "distinct (map fst xs)" and "fst ` set xs \<subseteq> set (rc_participants c)"
    and "\<forall>u \<in> fst ` set xs. \<not> has_key (rc_shares_received c) u"
    and "\<forall>x \<in> snd ` set xs. length x = rc_payload_len c"
  shows "submit_all xs c = Inr (c\<lparr> rc_shares_received := rc_shares_received c @ xs \<rparr>)"
  using assms
proof (induction xs arbitrary: c)
  case Nil
  show ?case by simp
next
  case (Cons ux xs)
  obtain u x where ux: "ux = (u, x)" by (cases ux)
  let ?c = "c\<lparr> rc_shares_received := rc_shares_received c @ [(u, x)] \<rparr>"
  have "submit_share u x c = Inr ?c" using Cons.prems ux by (simp add: submit_share_Inr_iff)
  moreover have "submit_all xs ?c = Inr (?c\<lparr> rc_shares_received := rc_shares_received ?c @ xs \<rparr>)"
    using Cons.prems ux by (intro Cons.IH) (auto simp: has_key_iff hkeys_def)
  ultimately show ?case using ux by simp
qed

section \<open>A round delivers the sender's message\<close>

definition round_share ::
  "prims \<Rightarrow> u64 \<Rightarrow> uid list \<Rightarrow> uid \<Rightarrow> bytes \<Rightarrow> nat \<Rightarrow> (uid \<Rightarrow> (uid, bytes) hmap) \<Rightarrow> uid \<Rightarrow> bytes option" where
  "round_share P r ps s msg n ek p =
     compute_xor_share_secure P r p ps (if p = s then Some msg else None) n (ek p)"

lemma round_share_closed:
  assumes "edges_agree key ek ps" and "2 \<le> length ps" and "p \<in> set ps"
    and "pad_message P msg n = Some padded"
  shows "round_share P r ps s msg n ek p =
    Some (xor_bytes (xor_into (replicate n 0) (map (edge_mask P key r n p) (filter (\<lambda>q. q \<noteq> p) ps)))
      (if p = s then padded else replicate n 0))"
  using assms
  by (simp only: round_share_def compute_share_closed mask_message_fits edge_share.node_len)

lemma round_shares_xor:
  assumes "edges_agree key ek ps" and "2 \<le> length ps" and "distinct ps" and "s \<in> set ps"
    and "pad_message P msg n = Some padded" and "mset us = mset ps"
  shows "xor_into (replicate n 0) (map (\<lambda>p. the (round_share P r ps s msg n ek p)) us) = padded"
proof -
  have "mset (map (\<lambda>p. the (round_share P r ps s msg n ek p)) us)
      = mset (map (\<lambda>p. the (round_share P r ps s msg n ek p)) ps)"
    using assms(6) by simp
  moreover have "map (\<lambda>p. the (round_share P r ps s msg n ek p)) ps =
    map (\<lambda>p. xor_bytes
        (xor_into (replicate n 0) (map (edge_mask P key r n p) (filter (\<lambda>q. q \<noteq> p) ps)))
        (if p = s then padded else replicate n 0)) ps"
    using round_share_closed [OF assms(1,2) _ assms(5)] by (intro map_cong) simp_all
  moreover have "length padded = n" using pad_message_Some [OF assms(5)] by simp
  ultimately show ?thesis
    using edge_share.masks_with_message [OF assms(3,4), of padded n P key r "peer_id_of P"]
    by (metis xor_into_perm)
qed

lemma collect_round:
  assumes "edges_agree key ek ps" and "2 \<le> length ps" and "distinct ps" and "s \<in> set ps"
    and "pad_message P msg n = Some padded" and "n \<le> 65536" and "mset us = mset ps"
  shows "\<exists>c. submit_all (map (\<lambda>p. (p, the (round_share P r ps s msg n ek p))) us)
      (RoundCollector_new now ch r ps dl n) = Inr c \<and> collector_ok c \<and> missing_participants c = []
      \<and> extract_message c = Some (Some padded)"
proof -
  let ?sh = "\<lambda>p. the (round_share P r ps s msg n ek p)"
  let ?xs = "map (\<lambda>p. (p, ?sh p)) us" and ?new = "RoundCollector_new now ch r ps dl n"
  let ?c = "?new\<lparr> rc_shares_received := ?xs \<rparr>"
  have n: "4 \<le> n" "length padded = n" using pad_message_Some [OF assms(5)] by auto
  have us: "distinct us" "set us = set ps"
    using assms(3,7) by (metis mset_eq_imp_distinct_iff, metis mset_eq_setD)
  have len: "length (?sh p) = n" if "p \<in> set us" for p
    using that us n round_share_closed [OF assms(1,2) _ assms(5), of p r s]
    by (simp add: edge_share.node_len)
  have c0: "rc_shares_received ?new = []" "rc_payload_len ?new = n" "set (rc_participants ?new) = set ps"
    using n assms(6) by (simp_all add: RoundCollector_new_def)
  have "submit_all ?xs ?new = Inr ?c"
    using us len c0 by (subst submit_all_fresh) (auto simp: comp_def has_key_def image_iff)
  moreover have "collector_ok ?c"
    using us len c0 collector_ok_new [of now ch r ps dl n]
    by (auto simp: collector_ok_def hwf_def hkeys_def hvalues_def comp_def)
  moreover have "missing_participants ?c = []"
    using us c0 by (auto simp: missing_participants_def filter_empty_conv has_key_iff hkeys_def image_iff)
  moreover have "extract_message ?c = Some (Some padded)"
  proof -
    have "us \<noteq> []" using assms(4) us by auto
    moreover have "hvalues ?xs = map ?sh us" by (simp add: hvalues_def)
    ultimately show ?thesis
      using extract_message_ok [OF \<open>collector_ok ?c\<close>] c0 round_shares_xor [OF assms(1-5,7), of r] by simp
  qed
  ultimately show ?thesis by blast
qed

text \<open>C1: A DC-Net round delivers. In a group of at least two distinct members who hold the same
  edge key at both ends of every edge, every member can compute its share; whatever the order in
  which the shares reach the leader, all are accepted, the round is complete, and unpadding the XOR
  of the shares gives exactly the sender's message.\<close>
theorem round_delivers:
  assumes "edges_agree key ek ps" and "2 \<le> length ps" and "distinct ps" and "s \<in> set ps"
    and "36 + length msg \<le> n" and "n \<le> 65536" and "mset us = mset ps"
  shows "(\<forall>p \<in> set ps. \<exists>share. round_share P r ps s msg n ek p = Some share \<and> length share = n) \<and>
    (\<exists>c out. submit_all (map (\<lambda>p. (p, the (round_share P r ps s msg n ek p))) us)
        (RoundCollector_new now ch r ps dl n) = Inr c
      \<and> is_complete c \<and> extract_message c = Some (Some out) \<and> unpad_message P out = Some msg)"
proof -
  obtain padded where pad: "pad_message P msg n = Some padded" using pad_message_fits assms(5) by blast
  have "length msg < 2 ^ 32" using assms(5,6) by simp
  then have "unpad_message P padded = Some msg" by (rule unpad_pad [OF pad])
  moreover have "length padded = n" using pad_message_Some [OF pad] by simp
  ultimately show ?thesis
    using collect_round [OF assms(1-4) pad assms(6,7), of r now ch dl] is_complete_iff
      round_share_closed [OF assms(1,2) _ pad] by (auto simp: edge_share.node_len)
qed

definition demo_keys :: "uid \<Rightarrow> (uid, bytes) hmap" where
  "demo_keys p = (if p = ''alice'' then [(''bob'', [1]), (''carol'', [2])]
     else if p = ''bob'' then [(''alice'', [1]), (''carol'', [3])]
     else [(''alice'', [2]), (''bob'', [3])])"

definition demo_key :: "uid set \<Rightarrow> bytes" where
  "demo_key e = (if e = {''alice'', ''bob''} then [1] else if e = {''alice'', ''carol''} then [2] else [3])"

lemma demo_edges: "edges_agree demo_key demo_keys [''alice'', ''bob'', ''carol'']"
  by (simp add: edges_agree_def demo_key_def demo_keys_def doubleton_eq_iff)

theorem round_delivers_witness:
  "\<exists>c out. submit_all (map (\<lambda>p. (p, the (round_share toy_prims 7 [''alice'', ''bob'', ''carol''] ''bob''
        [0, 1, 0] 64 demo_keys p))) [''carol'', ''alice'', ''bob''])
      (RoundCollector_new 0 ''general'' 7 [''alice'', ''bob'', ''carol''] 10 64) = Inr c
    \<and> is_complete c \<and> extract_message c = Some (Some out) \<and> unpad_message toy_prims out = Some [0, 1, 0]"
  using round_delivers [OF demo_edges, of "''bob''" "[0, 1, 0]" 64 "[''carol'', ''alice'', ''bob'']"
      toy_prims 7 0 "''general''" 10] by simp

section \<open>Untraceability\<close>

text \<open>The i-th 32-byte block of a message, zero-filled.\<close>
definition blk :: "bytes \<Rightarrow> nat \<Rightarrow> bytes" where
  "blk m i = map (\<lambda>j. get0 m (32 * i + j)) [0..<32]"

text \<open>HKDF with the output blocks of one edge in one round re-drawn: each is XORed with a block of
  \<open>m\<close>.\<close>
definition shift_edge :: "prims \<Rightarrow> bytes \<Rightarrow> bytes \<Rightarrow> bytes \<Rightarrow> prims" where
  "shift_edge P k info m = P\<lparr> hkdf_fn := (\<lambda>salt key i.
     if salt = None \<and> key = k \<and> i \<noteq> [] \<and> butlast i = info
     then xor_bytes (arr 32 (hkdf_fn P salt key i)) (blk m (unat (last i)))
     else hkdf_fn P salt key i) \<rparr>"

lemma shift_edge_frame [simp]:
  "sha256 (shift_edge P k info m) x = sha256 P x"
  "peer_id_of (shift_edge P k info m) u = peer_id_of P u"
  "pad_message (shift_edge P k info m) msg n = pad_message P msg n"
  by (simp_all add: sha256_def shift_edge_def peer_id_of_def pad_message_def Let_def)

lemma shift_edge_same: "pair_block (shift_edge P k info m) k info b =
  xor_bytes (pair_block P k info b) (blk m (unat b))"
  by (simp add: pair_block_def shift_edge_def blk_def)

lemma shift_edge_other: "k' \<noteq> k \<Longrightarrow> pair_block (shift_edge P k info m) k' info' b = pair_block P k' info' b"
  by (simp add: pair_block_def shift_edge_def)

lemma derive_shift_other:
  "k' \<noteq> k \<Longrightarrow> derive_pair_share (shift_edge P k info m) k' r a b n = derive_pair_share P k' r a b n"
  by (simp add: derive_pair_share_def pair_blocks_unfold shift_edge_other)

lemma derive_shift_same:
  assumes "length m = n" and "n \<le> 8192"
  shows "derive_pair_share (shift_edge P k (pair_info r a b) m) k r a b n =
    xor_bytes (derive_pair_share P k r a b n) m"
proof (rule nth_equalityI)
  fix i
  assume "i < length (derive_pair_share (shift_edge P k (pair_info r a b) m) k r a b n)"
  then have i: "i < n" by simp
  then have "i div 32 < 256" using assms(2) by (simp add: less_mult_imp_div_less)
  then have u: "unat (of_nat (i div 32) :: u8) = i div 32" by (simp add: unat_of_nat)
  have "blk m (i div 32) ! (i mod 32) = get0 m i" by (simp add: blk_def)
  moreover have "length (blk m (i div 32)) = 32" by (simp add: blk_def)
  ultimately have "xor_bytes (pair_block P k (pair_info r a b) (of_nat (i div 32))) (blk m (i div 32)) ! (i mod 32)
      = pair_block P k (pair_info r a b) (of_nat (i div 32)) ! (i mod 32) XOR get0 m i"
    by (simp add: xor_bytes_def get0_def)
  with i u assms(1) show "derive_pair_share (shift_edge P k (pair_info r a b) m) k r a b n ! i =
      xor_bytes (derive_pair_share P k r a b n) m ! i"
    by (simp add: derive_pair_share_nth shift_edge_same xor_bytes_def get0_def)
qed (use assms in simp)

lemma edge_mask_shift:
  assumes "pad_message P msg n = Some padded" and "n \<le> 8192" and "p \<noteq> q"
    and "key {p, q} = key {s, s'} \<longrightarrow> {p, q} = {s, s'}"
  shows "edge_mask (shift_edge P (key {s, s'}) (pair_info r (peer_id_of P s) (peer_id_of P s')) padded) key r n p q
    = xor_bytes (edge_mask P key r n p q) (if {p, q} = {s, s'} then padded else replicate n 0)"
proof -
  let ?P = "shift_edge P (key {s, s'}) (pair_info r (peer_id_of P s) (peer_id_of P s')) padded"
  have len: "length padded = n" using pad_message_Some [OF assms(1)] by simp
  show ?thesis
  proof (cases "{p, q} = {s, s'}")
    case True
    then have "pair_info r (peer_id_of P p) (peer_id_of P q) = pair_info r (peer_id_of P s) (peer_id_of P s')"
      by (metis doubleton_eq_iff pair_info_commute)
    with True show ?thesis
      using derive_shift_same [OF len assms(2), of P "key {p, q}" r "peer_id_of P p" "peer_id_of P q"]
      by simp
  next
    case False
    with assms(4) show ?thesis by (simp add: derive_shift_other)
  qed
qed



section \<open>What the leader accepts\<close>

lemma submit_or_skip_frame [simp]:
  "rc_participants (submit_or_skip ux c) = rc_participants c"
  "rc_payload_len (submit_or_skip ux c) = rc_payload_len c"
  by (auto simp: submit_or_skip_def submit_share_Inr_iff split: sum.split)

lemma submit_or_skip_shares:
  "rc_shares_received (submit_or_skip (u, x) c) =
     (if u \<in> set (rc_participants c) \<and> \<not> has_key (rc_shares_received c) u \<and> length x = rc_payload_len c
      then rc_shares_received c @ [(u, x)] else rc_shares_received c)"
  by (auto simp: submit_or_skip_def submit_share_def hput_fresh)

lemma fold_submit_hget:
  "hget (rc_shares_received (fold submit_or_skip xs c)) u =
     (case hget (rc_shares_received c) u of
        Some x \<Rightarrow> Some x
      | None \<Rightarrow> map_of (filter (\<lambda>(v, x). v \<in> set (rc_participants c) \<and> length x = rc_payload_len c) xs) u)"
proof (induction xs arbitrary: c)
  case Nil
  show ?case by (simp split: option.split)
next
  case (Cons vx xs)
  obtain v x where vx: "vx = (v, x)" by (cases vx)
  show ?case
    by (auto simp: Cons.IH vx submit_or_skip_shares has_key_def map_add_def split: option.splits)
qed

text \<open>C24: Whatever shares arrive, in whatever order and from whomever, the collector holds for each
  participant exactly the first share of the announced length that came under its name, and nothing
  for anyone else; extraction never panics, and the round counts as complete exactly when no
  participant is missing.\<close>
theorem collector_first_valid:
  "let c = fold submit_or_skip xs (RoundCollector_new now ch r ps dl n) in
     hget (rc_shares_received c) u =
       map_of (filter (\<lambda>(v, x). v \<in> set ps \<and> length x = min (max n 4) 65536) xs) u
     \<and> extract_message c \<noteq> None
     \<and> (is_complete c \<longleftrightarrow> missing_participants c = [])"
proof -
  let ?c = "fold submit_or_skip xs (RoundCollector_new now ch r ps dl n)"
  have ok: "collector_ok ?c" by (rule collect.run_inv) simp
  have "extract_message ?c \<noteq> None"
    using extract_message_ok [OF ok] by (cases "rc_shares_received ?c = []") (simp_all add: extract_message_def)
  moreover have "hget (rc_shares_received ?c) u =
      map_of (filter (\<lambda>(v, x). v \<in> set ps \<and> length x = min (max n 4) 65536) xs) u"
    by (simp add: fold_submit_hget RoundCollector_new_def)
  ultimately show ?thesis using is_complete_iff [OF ok] by (simp add: Let_def)
qed

text \<open>A rejected submission names its reason, in the order the code checks them: not a
  participant, then a duplicate, then a wrong length; an accepted one adds exactly that share.\<close>
theorem submit_share_outcome:
  "submit_share u x c =
     (if u \<notin> set (rc_participants c) then Inl (NotAParticipant u)
      else case hget (rc_shares_received c) u of
        Some _ \<Rightarrow> Inl (DuplicateShare u)
      | None \<Rightarrow> if length x = rc_payload_len c
          then Inr (c\<lparr> rc_shares_received := rc_shares_received c @ [(u, x)] \<rparr>)
          else Inl (LengthMismatch (length x) (rc_payload_len c)))"
  by (auto simp: submit_share_def has_key_def hput_fresh split: option.splits)

text \<open>The payload framing is exact for binary content. A message that fits is recovered byte for
  byte, trailing zeros included, and what the decoder accepts is exactly a frame whose length field
  and SHA-256 checksum match the content it returns; everything else is refused.\<close>
theorem payload_framing:
  "(36 + length msg \<le> n \<and> n \<le> 65536 \<longrightarrow>
      (\<exists>padded. pad_message P msg n = Some padded \<and> length padded = n \<and> unpad_message P padded = Some msg))
   \<and> (n < 36 + length msg \<longrightarrow> pad_message P msg n = None)
   \<and> (unpad_message P buf = Some m \<longleftrightarrow>
      (\<exists>hd4 tl. buf = hd4 @ sha256 P m @ m @ tl \<and> length hd4 = 4 \<and> from_be hd4 = length m))"
proof -
  have "\<exists>padded. pad_message P msg n = Some padded \<and> length padded = n \<and> unpad_message P padded = Some msg"
    if "36 + length msg \<le> n" "n \<le> 65536"
    using that pad_message_fits [of msg n P] pad_message_Some unpad_pad by fastforce
  moreover have "n < 36 + length msg \<longrightarrow> pad_message P msg n = None" by (simp add: pad_message_def)
  ultimately show ?thesis using unpad_message_Some_iff by blast
qed

theorem payload_framing_witness:
  "\<exists>padded. pad_message toy_prims [7, 0, 0] 40 = Some padded \<and> length padded = 40
     \<and> unpad_message toy_prims padded = Some [7, 0, 0]"
  using payload_framing [of "[7, 0, 0]" 40 toy_prims "[]" "[]"] by simp

section \<open>Refusal without keys\<close>

text \<open>A node never falls back to a guessable share. The share computation succeeds only when the
  node is in a list of at least two participants, holds an edge key for every other participant,
  and any message fits the payload; the share then has exactly the announced length.\<close>
theorem share_requires_all_edge_keys:
  "(\<exists>share. compute_xor_share_secure P r me ps msg n ek = Some share) \<longleftrightarrow>
     2 \<le> length ps \<and> me \<in> set ps \<and> (\<forall>q \<in> set ps - {me}. has_key ek q)
     \<and> (case msg of None \<Rightarrow> True | Some m \<Rightarrow> 36 + length m \<le> n)"
  by (auto simp: compute_xor_share_secure_def share_loop_eq list_ex_iff mask_message_def
      pad_message_def Let_def split: option.splits if_splits)

theorem share_requires_all_edge_keys_witness:
  "\<not> (\<exists>share. compute_xor_share_secure toy_prims 1 ''alice'' [''alice'', ''bob'', ''carol''] None 64
       [(''bob'', [1])] = Some share)"
  using share_requires_all_edge_keys [of toy_prims 1 "''alice''" "[''alice'', ''bob'', ''carol'']"
      None 64 "[(''bob'', [1])]"] by (simp add: has_key_def)

section \<open>The keystream is 8192 bytes long\<close>

lemma derive_pair_share_period:
  assumes "i + 8192 < n"
  shows "derive_pair_share P k r a b n ! (i + 8192) = derive_pair_share P k r a b n ! i"
proof -
  have eq: "i + 8192 = i + 32 * 256" by simp
  have "(i + 8192) mod 32 = i mod 32" unfolding eq by (rule mod_mult_self2)
  moreover have "(i + 8192) div 32 = i div 32 + 256" by simp
  moreover have "(of_nat (i div 32 + 256) :: u8) = of_nat (i div 32) + 0"
    unfolding of_nat_add by (intro arg_cong2 [of _ _ _ _ "(+)"] refl) simp
  ultimately show ?thesis using assms by (simp add: derive_pair_share_nth del: of_nat_add)
qed

lemma xor_into_period:
  assumes "\<forall>s \<in> set ss. length s = n \<and> s ! (i + d) = s ! i" and "i + d < n"
  shows "get0 (xor_into (replicate n 0) ss) (i + d) = get0 (xor_into (replicate n 0) ss) i"
  using assms
proof (induction ss rule: rev_induct)
  case Nil
  show ?case by simp
next
  case (snoc s ss)
  then show ?case by (simp add: xor_into_snoc) (simp add: get0_def)
qed

text \<open>C35: The \<^verbatim>\<open>u8\<close> block counter limits the masking. In a round whose payload is longer than 8192
  bytes (up to 65536 are admitted) the masks repeat, so the sender's own share, which everyone
  on the path to the leader sees, reveals the XOR of any two bytes of its padded message that lie
  8192 positions apart.\<close>
theorem long_payload_leaks:
  assumes "compute_xor_share_secure P r me ps (Some msg) n ek = Some share"
    and "pad_message P msg n = Some padded" and "i + 8192 < n"
  shows "get0 share (i + 8192) XOR get0 share i = get0 padded (i + 8192) XOR get0 padded i"
proof -
  let ?masks = "map (\<lambda>q. derive_pair_share P (the (hget ek q)) r (peer_id_of P me) (peer_id_of P q) n)
    (filter (\<lambda>q. q \<noteq> me) ps)"
  have "share = xor_bytes (xor_into (replicate n 0) ?masks) padded"
    using assms(1,2) by (auto simp: compute_xor_share_secure_def share_loop_eq mask_message_def split: if_splits)
  moreover have "get0 (xor_into (replicate n 0) ?masks) (i + 8192) = get0 (xor_into (replicate n 0) ?masks) i"
    by (rule xor_into_period) (use assms(3) derive_pair_share_period in auto)
  ultimately show ?thesis by (simp add: xor.assoc xor.left_commute)
qed

theorem long_payload_leaks_witness:
  "\<exists>share padded. compute_xor_share_secure toy_prims 1 ''alice'' [''alice'', ''bob''] (Some [9]) 9000
      [(''bob'', [1])] = Some share \<and> pad_message toy_prims [9] 9000 = Some padded
    \<and> get0 share 8228 XOR get0 share 36 = get0 padded 8228 XOR get0 padded 36"
proof -
  obtain padded where pad: "pad_message toy_prims [9] 9000 = Some padded"
    using pad_message_fits [of "[9]" 9000 toy_prims] by auto
  obtain share where "compute_xor_share_secure toy_prims 1 ''alice'' [''alice'', ''bob''] (Some [9]) 9000
      [(''bob'', [1])] = Some share"
    by (auto simp: compute_xor_share_secure_def mask_message_def pad)
  with pad long_payload_leaks [OF this pad, of 36] show ?thesis by auto
qed

section \<open>Share signatures\<close>

lemma append_eq_len: "length a = length c \<Longrightarrow> a @ b = c @ d \<longleftrightarrow> a = c \<and> b = d"
  by simp

text \<open>The bytes a share signature covers determine the channel, the round and the share, so a
  signature made for one round or channel is a signature on no other; and a share signed by a node
  verifies under its public key.\<close>
theorem share_signature_binds:
  assumes "length ch < 2 ^ 32" and "length ch' < 2 ^ 32"
  shows "(share_signature_message ch r share = share_signature_message ch' r' share' \<longleftrightarrow>
      ch = ch' \<and> r = r' \<and> share = share')
    \<and> (sig_law P \<longrightarrow> verify_share_signature P (ed_public P sk) ch r share (sign_share P sk ch r share))"
proof -
  have "be_bytes 4 (length ch) = be_bytes 4 (length ch') \<longleftrightarrow> length ch = length ch'"
    using assms by (intro be_bytes_inject) simp_all
  then show ?thesis
    by (auto simp: share_signature_message_def verify_share_signature_def sign_share_def sig_law_def)
qed

theorem share_signature_binds_witness:
  "share_signature_message ''ab'' 1 [2] \<noteq> share_signature_message ''a'' 1 [2]
   \<and> verify_share_signature toy_prims (ed_public toy_prims [3]) ''ab'' 1 [2] (sign_share toy_prims [3] ''ab'' 1 [2])"
  using share_signature_binds [of "''ab''" "''a''" 1 "[2]" 1 "[2]" toy_prims "[3]"] by simp

section \<open>The round counter\<close>

datatype tracker_op = NextRound | MarkSeen u64 | QueueMessage string | DequeueMessage

fun tracker_step :: "tracker_op \<Rightarrow> RoundTracker \<Rightarrow> RoundTracker" where
  "tracker_step NextRound t = fst (next_round t)"
| "tracker_step (MarkSeen r) t = fst (mark_seen r t)"
| "tracker_step (QueueMessage m) t = queue_message m t"
| "tracker_step DequeueMessage t = fst (dequeue_message t)"

lemma tracker_step_advance:
  "\<exists>d \<le> 1. rt_current_round_id (tracker_step op t) = rt_current_round_id t + of_nat d"
  by (cases op) (auto simp: next_round_def mark_seen_def queue_message_def dequeue_message_def Let_def
      split: list.split intro: exI [of _ 0] exI [of _ "1 :: nat"])

lemma tracker_run_advance:
  "\<exists>d \<le> length ops. rt_current_round_id (fold tracker_step ops t) = rt_current_round_id t + of_nat d"
proof (induction ops arbitrary: t)
  case Nil
  show ?case by simp
next
  case (Cons op ops)
  obtain d where d: "d \<le> 1" "rt_current_round_id (tracker_step op t) = rt_current_round_id t + of_nat d"
    using tracker_step_advance by blast
  obtain e where e: "e \<le> length ops" "rt_current_round_id (fold tracker_step ops (tracker_step op t))
      = rt_current_round_id (tracker_step op t) + of_nat e"
    using Cons by blast
  from d e show ?case by (intro exI [of _ "d + e"]) (simp add: add.assoc)
qed

text \<open>No round id is replayed. Once a tracker has accepted a round id, then for any sequence of
  fewer than 2^64 - 1 further operations the same id is rejected and leaves the tracker unchanged.
  The id accepted was the successor of the current one, so a far-future id cannot move the
  counter either.\<close>
theorem no_round_replay:
  assumes "mark_seen r t = (t', True)" and "length ops < 2 ^ 64 - 1"
  shows "r = rt_current_round_id t + 1
    \<and> mark_seen r (fold tracker_step ops t') = (fold tracker_step ops t', False)"
proof -
  have cur: "rt_current_round_id t' = r" "r = rt_current_round_id t + 1"
    using assms(1) by (auto simp: mark_seen_def split: if_splits)
  obtain d where d: "d \<le> length ops" "rt_current_round_id (fold tracker_step ops t') = r + of_nat d"
    using tracker_run_advance [of ops t'] cur by auto
  have "\<not> 2 ^ 64 dvd d + 1" using d assms(2) by (auto dest!: dvd_imp_le)
  then have "(of_nat (d + 1) :: u64) \<noteq> 0" by (simp only: word_of_nat_eq_0_iff) simp
  then have "r \<noteq> r + of_nat d + 1"
    by (simp add: add.assoc) (simp add: add.commute)
  then show ?thesis using d cur by (simp add: mark_seen_def)
qed

theorem no_round_replay_witness:
  "mark_seen 1 (fold tracker_step [NextRound, QueueMessage ''hi'', MarkSeen 9]
     (fst (mark_seen 1 (RoundTracker_new 0)))) =
   (fold tracker_step [NextRound, QueueMessage ''hi'', MarkSeen 9]
     (fst (mark_seen 1 (RoundTracker_new 0))), False)"
proof -
  have "mark_seen 1 (RoundTracker_new 0) = (fst (mark_seen 1 (RoundTracker_new 0)), True)"
    by (simp add: mark_seen_def RoundTracker_new_def)
  then show ?thesis by (rule no_round_replay [THEN conjunct2]) simp
qed

end
