(* ===== verification/RoundDriver.thy ===== *)
theory RoundDriver
  imports RoundNetwork
begin

text \<open>
  \<^verbatim>\<open>dcnet/round_driver.rs\<close>: the per-channel mesh state machine. Every operation takes the driver state
  and returns it updated, with the messages to send and the texts extracted. \<^verbatim>\<open>Instant::now()\<close> is the
  argument \<open>now\<close> (milliseconds), taken once per call.
\<close>

section \<open>Data\<close>

definition CHANNEL_PAYLOAD_LEN :: nat where
  "CHANNEL_PAYLOAD_LEN = 4096"

definition CHANNEL_ROUND_DEADLINE_SECS :: u64 where
  "CHANNEL_ROUND_DEADLINE_SECS = 30"

definition MAX_CONFLICT_RETRIES :: u32 where
  "MAX_CONFLICT_RETRIES = 3"

record RoundContext =
  ctx_my_uid :: uid
  ctx_signing_key :: bytes
  ctx_edge_keys :: "(uid, bytes) hmap"
  ctx_known_keys :: "(uid, string) hmap"

record ExtractedMessage =
  em_channel :: string
  em_text :: string
  em_round_id :: u64

type_synonym outgoing = "(uid \<times> PeerMessage) list"

record RoundAction =
  act_extracted :: "ExtractedMessage list"
  act_outgoing :: outgoing

definition no_action :: RoundAction where
  "no_action = \<lparr> act_extracted = [], act_outgoing = [] \<rparr>"

record RoundDriver =
  rd_tracker :: RoundTracker
  rd_pending_message :: "bytes option"
  rd_pending_round_id :: "u64 option"
  rd_retries :: u32
  rd_collectors :: "(u64, RoundCollector) hmap"
  rd_emitted :: "u64 list" \<comment> \<open>a hash set\<close>
  rd_my_share :: "(bytes \<times> bytes) option"
  rd_my_share_broadcast :: bool
  rd_pending_outgoing :: outgoing
  rd_retry_after_peer :: "u64 option"

datatype driver_error = MessageTooLong | NotAChannelParticipant | MissingEdgeKeys

section \<open>Operations\<close>

definition RoundDriver_new :: "nat \<Rightarrow> RoundDriver" where
  "RoundDriver_new now = \<lparr> rd_tracker = RoundTracker_new now, rd_pending_message = None,
     rd_pending_round_id = None, rd_retries = 0, rd_collectors = [], rd_emitted = [],
     rd_my_share = None, rd_my_share_broadcast = False, rd_pending_outgoing = [],
     rd_retry_after_peer = None \<rparr>"

definition to_others :: "uid \<Rightarrow> uid list \<Rightarrow> PeerMessage \<Rightarrow> outgoing" where
  "to_others me participants msg = map (\<lambda>u. (u, msg)) (filter (\<lambda>u. u \<noteq> me) participants)"

text \<open>The round id is consumed before the share is computed, so a missing key leaves the counter
  advanced.\<close>
definition initiate :: "prims \<Rightarrow> nat \<Rightarrow> string \<Rightarrow> string \<Rightarrow> uid list \<Rightarrow> RoundContext \<Rightarrow> RoundDriver
    \<Rightarrow> RoundDriver \<times> (driver_error + outgoing)" where
  "initiate P now channel txt participants ctx d =
     (if length txt + 36 > CHANNEL_PAYLOAD_LEN then (d, Inl MessageTooLong)
      else if length participants < 2 \<or> \<not> list_ex (\<lambda>u. u = ctx_my_uid ctx) participants
      then (d, Inl NotAChannelParticipant)
      else let (tracker, round_id) = next_round (rd_tracker d);
               d1 = d\<lparr> rd_tracker := tracker \<rparr> in
        case compute_xor_share_secure P round_id (ctx_my_uid ctx) participants (Some (str_bytes txt))
               CHANNEL_PAYLOAD_LEN (ctx_edge_keys ctx) of
          None \<Rightarrow> (d1, Inl MissingEdgeKeys)
        | Some share \<Rightarrow>
            (let signature = sign_share P (ctx_signing_key ctx) channel round_id share;
                 collector = RoundCollector_new now channel round_id participants
                   CHANNEL_ROUND_DEADLINE_SECS CHANNEL_PAYLOAD_LEN;
                 d2 = d1\<lparr> rd_collectors := hput round_id collector (rd_collectors d1),
                   rd_pending_message := Some (str_bytes txt),
                   rd_pending_round_id := Some round_id,
                   rd_my_share := Some (share, signature),
                   rd_my_share_broadcast := False,
                   rd_retries := 0 \<rparr>;
                 start = build_round_start channel round_id (ctx_my_uid ctx) participants
                   CHANNEL_ROUND_DEADLINE_SECS CHANNEL_PAYLOAD_LEN
             in (d2, Inr (to_others (ctx_my_uid ctx) participants start))))"

definition abort_pending_round :: "RoundDriver \<Rightarrow> RoundDriver" where
  "abort_pending_round d =
     (case rd_pending_round_id d of
        None \<Rightarrow> d
      | Some i \<Rightarrow> d\<lparr> rd_pending_round_id := None, rd_collectors := hdel i (rd_collectors d) \<rparr>)
     \<lparr> rd_my_share := None, rd_my_share_broadcast := False \<rparr>"

definition retry_pending ::
  "prims \<Rightarrow> nat \<Rightarrow> string \<Rightarrow> uid list \<Rightarrow> RoundContext \<Rightarrow> RoundDriver \<Rightarrow> RoundDriver" where
  "retry_pending P now channel participants ctx d =
     (if rd_retries d \<ge> MAX_CONFLICT_RETRIES then d\<lparr> rd_pending_message := None \<rparr>
      else let d1 = d\<lparr> rd_retries := rd_retries d + 1 \<rparr> in
        case rd_pending_message d1 of
          None \<Rightarrow> d1
        | Some txt \<Rightarrow>
            (case initiate P now channel (from_utf8_lossy txt) participants ctx d1 of
               (d2, Inl _) \<Rightarrow> d2
             | (d2, Inr out) \<Rightarrow> d2\<lparr> rd_pending_outgoing := rd_pending_outgoing d2 @ out \<rparr>))"

definition drop_one :: "prims \<Rightarrow> nat \<Rightarrow> RoundContext \<Rightarrow> u64 \<Rightarrow> RoundDriver \<Rightarrow> RoundDriver" where
  "drop_one P now ctx i d =
     (let was_mine = (rd_pending_round_id d = Some i);
          participants = (case hget (rd_collectors d) i of None \<Rightarrow> [] | Some c \<Rightarrow> rc_participants c);
          channel = (case hget (rd_collectors d) i of None \<Rightarrow> [] | Some c \<Rightarrow> rc_channel c);
          d1 = d\<lparr> rd_collectors := hdel i (rd_collectors d) \<rparr> in
      if was_mine
      then let d2 = d1\<lparr> rd_pending_round_id := None, rd_my_share := None, rd_my_share_broadcast := False \<rparr>
           in if participants \<noteq> [] then retry_pending P now channel participants ctx d2 else d2
      else d1)"

definition drop_expired :: "prims \<Rightarrow> nat \<Rightarrow> RoundContext \<Rightarrow> RoundDriver \<Rightarrow> RoundDriver" where
  "drop_expired P now ctx d =
     (let expired = map fst (filter (\<lambda>(_, c). is_expired now c) (rd_collectors d))
      in fold (drop_one P now ctx) expired d)"

definition on_round_start :: "prims \<Rightarrow> nat \<Rightarrow> string \<Rightarrow> u64 \<Rightarrow> uid \<Rightarrow> uid list \<Rightarrow> u64 \<Rightarrow> nat
    \<Rightarrow> RoundContext \<Rightarrow> RoundDriver \<Rightarrow> RoundDriver \<times> RoundAction" where
  "on_round_start P now channel round_id leader_id participants deadline_secs payload_len ctx d =
     (let (tracker, seen) = mark_seen round_id (rd_tracker d);
          d1 = d\<lparr> rd_tracker := tracker \<rparr>;
          conflict = (rd_pending_round_id d1 = Some round_id \<and> leader_id \<noteq> ctx_my_uid ctx);
          lost = (\<not> seen \<and> conflict \<and> leader_id < ctx_my_uid ctx) in
      if \<not> seen \<and> \<not> lost then (d1, no_action)
      else
        let d2 = (if lost then (abort_pending_round d1)\<lparr> rd_retry_after_peer := Some round_id \<rparr> else d1) in
        if \<not> list_ex (\<lambda>u. u = ctx_my_uid ctx) participants then (d2, no_action)
        else case compute_xor_share_secure P round_id (ctx_my_uid ctx) participants None payload_len
                    (ctx_edge_keys ctx) of
          None \<Rightarrow> (d2, no_action)
        | Some share \<Rightarrow>
            (let signature = sign_share P (ctx_signing_key ctx) channel round_id share;
                 share_msg = build_round_share channel round_id (ctx_my_uid ctx) share signature;
                 collector = RoundCollector_new now channel round_id participants deadline_secs payload_len;
                 collector' = (case submit_share (ctx_my_uid ctx) share collector of
                   Inl _ \<Rightarrow> collector | Inr c \<Rightarrow> c);
                 d3 = d2\<lparr> rd_collectors := hput round_id collector' (rd_collectors d2) \<rparr>
             in (d3, no_action\<lparr> act_outgoing := to_others (ctx_my_uid ctx) participants share_msg \<rparr>)))"

definition parse_verifying_key :: "prims \<Rightarrow> string \<Rightarrow> bytes option" where
  "parse_verifying_key P key_hex = (case hex_decode32 key_hex of
     None \<Rightarrow> None | Some vk \<Rightarrow> if ed_key_ok P vk then Some vk else None)"

text \<open>The signature check at the top of \<^verbatim>\<open>on_round_share\<close>: refused only when the peer's key is known,
  parses, and does not verify the share.\<close>
definition share_refused ::
  "prims \<Rightarrow> RoundContext \<Rightarrow> string \<Rightarrow> u64 \<Rightarrow> uid \<Rightarrow> bytes \<Rightarrow> bytes \<Rightarrow> bool" where
  "share_refused P ctx channel round_id peer_uid share signature =
     (case hget (ctx_known_keys ctx) peer_uid of
        None \<Rightarrow> False
      | Some key_hex \<Rightarrow> (case parse_verifying_key P key_hex of
          None \<Rightarrow> False
        | Some vk \<Rightarrow> \<not> verify_share_signature P vk channel round_id share signature))"

text \<open>\<^verbatim>\<open>extract_message().. unpad_message(..).and_then(String::from_utf8)\<close>. \<open>Some None\<close> of
  \<^const>\<open>extract_message\<close> is an empty collector; its panic cannot happen in the collectors a driver
  holds (\<open>driver_ok\<close> below).\<close>
definition collected_text :: "prims \<Rightarrow> RoundCollector \<Rightarrow> string option" where
  "collected_text P c = (case extract_message c of
     Some (Some payload) \<Rightarrow> (case unpad_message P payload of None \<Rightarrow> None | Some b \<Rightarrow> from_utf8 b)
   | _ \<Rightarrow> None)"

text \<open>The tail of \<^verbatim>\<open>on_round_share\<close>, run when the collector is complete: emit the text once, forget
  the collector, then settle our own round and a round we had lost a conflict against.\<close>
definition emit_collected :: "prims \<Rightarrow> string \<Rightarrow> u64 \<Rightarrow> RoundCollector \<Rightarrow> RoundAction \<Rightarrow> RoundDriver
    \<Rightarrow> RoundDriver \<times> RoundAction \<times> bool" where
  "emit_collected P channel round_id c action d =
     (case collected_text P c of
        None \<Rightarrow> (d, action, False)
      | Some txt \<Rightarrow>
          if List.member (rd_emitted d) round_id then (d, action, False)
          else (d\<lparr> rd_emitted := rd_emitted d @ [round_id] \<rparr>,
                action\<lparr> act_extracted := act_extracted action @
                  [\<lparr> em_channel = channel, em_text = txt, em_round_id = round_id \<rparr>] \<rparr>, True))"

definition settle_own ::
  "prims \<Rightarrow> nat \<Rightarrow> string \<Rightarrow> uid list \<Rightarrow> RoundContext \<Rightarrow> bool \<Rightarrow> bool \<Rightarrow> RoundDriver \<Rightarrow> RoundDriver" where
  "settle_own P now channel participants ctx is_my_round extracted_ok d =
     (if is_my_round
      then let d' = d\<lparr> rd_pending_round_id := None, rd_my_share := None, rd_my_share_broadcast := False \<rparr>
           in if \<not> extracted_ok then retry_pending P now channel participants ctx d'
              else d'\<lparr> rd_pending_message := None \<rparr>
      else d)"

definition settle_lost ::
  "prims \<Rightarrow> nat \<Rightarrow> string \<Rightarrow> u64 \<Rightarrow> uid list \<Rightarrow> RoundContext \<Rightarrow> RoundDriver \<Rightarrow> RoundDriver" where
  "settle_lost P now channel round_id participants ctx d =
     (if rd_retry_after_peer d = Some round_id
      then let d' = d\<lparr> rd_retry_after_peer := None \<rparr>
           in if rd_pending_message d' \<noteq> None
              then retry_pending P now channel participants ctx d' else d'
      else d)"

definition complete_round :: "prims \<Rightarrow> nat \<Rightarrow> string \<Rightarrow> u64 \<Rightarrow> bool \<Rightarrow> RoundCollector \<Rightarrow> RoundContext
    \<Rightarrow> RoundAction \<Rightarrow> RoundDriver \<Rightarrow> RoundDriver \<times> RoundAction" where
  "complete_round P now channel round_id is_my_round c ctx action d =
     (let (d1, action1, extracted_ok) = emit_collected P channel round_id c action d;
          round_participants = rc_participants c;
          d2 = d1\<lparr> rd_collectors := hdel round_id (rd_collectors d1) \<rparr>;
          d3 = settle_own P now channel round_participants ctx is_my_round extracted_ok d2;
          d4 = settle_lost P now channel round_id round_participants ctx d3
      in (d4, action1))"

text \<open>The middle of \<^verbatim>\<open>on_round_share\<close>: when this is our round and only our own share is missing, our
  message share goes into the collector and out to everyone.\<close>
definition broadcast_last :: "string \<Rightarrow> u64 \<Rightarrow> RoundContext \<Rightarrow> RoundCollector \<Rightarrow> RoundDriver
    \<Rightarrow> RoundCollector \<times> bool \<times> RoundAction" where
  "broadcast_last channel round_id ctx c d =
     (let is_my_round = (rd_pending_round_id d = Some round_id);
          all_others_arrived = (missing_participants c = [ctx_my_uid ctx]) in
      if is_my_round \<and> \<not> rd_my_share_broadcast d \<and> all_others_arrived
      then case rd_my_share d of
        None \<Rightarrow> (c, rd_my_share_broadcast d, no_action)
      | Some (my_share, my_sig) \<Rightarrow>
          ((case submit_share (ctx_my_uid ctx) my_share c of Inl _ \<Rightarrow> c | Inr c' \<Rightarrow> c'), True,
           no_action\<lparr> act_outgoing := to_others (ctx_my_uid ctx) (rc_participants c)
             (build_round_share channel round_id (ctx_my_uid ctx) my_share my_sig) \<rparr>)
      else (c, rd_my_share_broadcast d, no_action))"

definition on_round_share :: "prims \<Rightarrow> nat \<Rightarrow> string \<Rightarrow> u64 \<Rightarrow> uid \<Rightarrow> bytes \<Rightarrow> bytes
    \<Rightarrow> RoundContext \<Rightarrow> RoundDriver \<Rightarrow> RoundDriver \<times> RoundAction" where
  "on_round_share P now channel round_id peer_uid share signature ctx d =
     (if share_refused P ctx channel round_id peer_uid share signature then (d, no_action)
      else case hget (rd_collectors d) round_id of
        None \<Rightarrow> (d, no_action)
      | Some c0 \<Rightarrow> (case submit_share peer_uid share c0 of
          Inl _ \<Rightarrow> (d, no_action)
        | Inr c1 \<Rightarrow>
            (let is_my_round = (rd_pending_round_id d = Some round_id);
                 (c2, broadcast, action) = broadcast_last channel round_id ctx c1 d;
                 d1 = d\<lparr> rd_collectors := hput round_id c2 (rd_collectors d),
                         rd_my_share_broadcast := broadcast \<rparr>
             in if is_complete c2 then complete_round P now channel round_id is_my_round c2 ctx action d1
                else (d1, action))))"

fun dispatch :: "prims \<Rightarrow> nat \<Rightarrow> PeerMessage \<Rightarrow> RoundContext \<Rightarrow> RoundDriver \<Rightarrow> RoundDriver \<times> RoundAction" where
  "dispatch P now (DcRoundStart channel round_id leader_id participants deadline_secs payload_len) ctx d =
     on_round_start P now channel round_id leader_id participants deadline_secs payload_len ctx d"
| "dispatch P now (DcRoundShare channel round_id peer_uid xored_payload signature) ctx d =
     on_round_share P now channel round_id peer_uid xored_payload signature ctx d"
| "dispatch P now _ ctx d = (d, no_action)"

definition handle :: "prims \<Rightarrow> nat \<Rightarrow> PeerMessage \<Rightarrow> RoundContext \<Rightarrow> RoundDriver \<Rightarrow> RoundDriver \<times> RoundAction" where
  "handle P now msg ctx d =
     (let d1 = drop_expired P now ctx d;
          (d2, action) = dispatch P now msg ctx d1
      in (d2\<lparr> rd_pending_outgoing := [] \<rparr>,
          action\<lparr> act_outgoing := act_outgoing action @ rd_pending_outgoing d2 \<rparr>))"

definition drain_pending_outgoing :: "RoundDriver \<Rightarrow> RoundDriver \<times> outgoing" where
  "drain_pending_outgoing d = (d\<lparr> rd_pending_outgoing := [] \<rparr>, rd_pending_outgoing d)"

section \<open>The driver invariant\<close>

definition collectors_ok :: "(u64, RoundCollector) hmap \<Rightarrow> bool" where
  "collectors_ok m \<longleftrightarrow> hwf m \<and> (\<forall>i c. hget m i = Some c \<longrightarrow> collector_ok c \<and> rc_round_id c = i)"

definition retry_weight :: "RoundDriver \<Rightarrow> nat" where
  "retry_weight d = unat (rd_retries d) + (if rd_pending_round_id d = None then 0 else 1)
     + (if rd_retry_after_peer d = None then 0 else 1)"

definition driver_ok :: "RoundDriver \<Rightarrow> bool" where
  "driver_ok d \<longleftrightarrow> collectors_ok (rd_collectors d) \<and> distinct (rd_emitted d) \<and> retry_weight d \<le> 2"

lemma collectors_ok_hput [simp]:
  "collectors_ok m \<Longrightarrow> collector_ok c \<Longrightarrow> rc_round_id c = i \<Longrightarrow> collectors_ok (hput i c m)"
  by (auto simp: collectors_ok_def)

lemma collectors_ok_hdel [simp]: "collectors_ok m \<Longrightarrow> collectors_ok (hdel i m)"
  by (auto simp: collectors_ok_def split: if_splits)

lemma RoundCollector_new_fields [simp]:
  "rc_round_id (RoundCollector_new now ch r ps dl n) = r"
  "rc_participants (RoundCollector_new now ch r ps dl n) = remdups ps"
  "rc_shares_received (RoundCollector_new now ch r ps dl n) = []"
  "rc_channel (RoundCollector_new now ch r ps dl n) = ch"
  "rc_payload_len (RoundCollector_new now ch r ps dl n) = min (max n 4) 65536"
  by (simp_all add: RoundCollector_new_def)

lemma submit_share_frame:
  "submit_share u x c = Inr c' \<Longrightarrow> rc_round_id c' = rc_round_id c \<and> rc_participants c' = rc_participants c
     \<and> rc_payload_len c' = rc_payload_len c \<and> rc_channel c' = rc_channel c"
  by (auto simp: submit_share_Inr_iff)

lemma driver_ok_new [simp]: "driver_ok (RoundDriver_new now)"
  by (simp add: driver_ok_def RoundDriver_new_def collectors_ok_def retry_weight_def)

text \<open>The outcome of \<^const>\<open>initiate\<close>: an error touches only the counter; success installs an empty
  collector and resets the retry counter.\<close>
lemma initiate_cases:
  obtains (err) e t where "initiate P now ch txt ps ctx d = (d\<lparr> rd_tracker := t \<rparr>, Inl e)"
  | (ok) t r share sig out where
      "initiate P now ch txt ps ctx d = (d\<lparr> rd_tracker := t,
         rd_collectors := hput r (RoundCollector_new now ch r ps CHANNEL_ROUND_DEADLINE_SECS
           CHANNEL_PAYLOAD_LEN) (rd_collectors d),
         rd_pending_message := Some (str_bytes txt), rd_pending_round_id := Some r,
         rd_my_share := Some (share, sig), rd_my_share_broadcast := False, rd_retries := 0 \<rparr>, Inr out)"
proof (cases "initiate P now ch txt ps ctx d")
  case (Pair d' res)
  show ?thesis
  proof (cases res)
    case (Inl e)
    have "\<exists>t. d' = d\<lparr> rd_tracker := t \<rparr>"
      using Pair Inl unfolding initiate_def
      by (cases d) (auto simp: Let_def next_round_def split: if_splits option.splits)
    with Pair Inl err show ?thesis by blast
  next
    case (Inr out)
    with Pair ok show ?thesis unfolding initiate_def
      by (auto simp: Let_def next_round_def split: if_splits option.splits)
  qed
qed

lemma initiate_ok: "driver_ok d \<Longrightarrow> driver_ok (fst (initiate P now ch txt ps ctx d))"
  by (rule initiate_cases [of P now ch "txt" ps ctx d])
    (auto simp: driver_ok_def retry_weight_def)

lemma retry_pending_ok:
  assumes "collectors_ok (rd_collectors d)" and "distinct (rd_emitted d)"
    and "retry_weight d \<le> 1"
  shows "driver_ok (retry_pending P now ch ps ctx d)"
proof -
  let ?d = "d\<lparr> rd_retries := rd_retries d + 1 \<rparr>"
  have "unat (rd_retries d) \<le> 1" using assms(3) by (simp add: retry_weight_def)
  then have "unat (rd_retries d + 1) = unat (rd_retries d) + 1"
    by (simp add: unat_word_ariths)
  then have d: "driver_ok ?d" using assms by (simp add: driver_ok_def retry_weight_def)
  have small: "\<not> rd_retries d \<ge> MAX_CONFLICT_RETRIES"
    using \<open>unat (rd_retries d) \<le> 1\<close> by (simp add: MAX_CONFLICT_RETRIES_def word_le_nat_alt)
  show ?thesis
  proof (cases "rd_pending_message d")
    case None
    with small d show ?thesis by (simp add: retry_pending_def)
  next
    case (Some tx)
    have "driver_ok (fst (initiate P now ch (from_utf8_lossy tx) ps ctx ?d))"
      using d by (rule initiate_ok)
    with small Some show ?thesis
      by (auto simp: retry_pending_def driver_ok_def retry_weight_def split: prod.split sum.split)
  qed
qed

lemma retry_own_ok:
  assumes "driver_ok d" and "rd_pending_round_id d = Some r"
  shows "driver_ok (retry_pending P now ch ps ctx
    (d\<lparr> rd_pending_round_id := None, rd_my_share := None, rd_my_share_broadcast := False \<rparr>))"
  using assms by (intro retry_pending_ok) (auto simp: driver_ok_def retry_weight_def)

lemma retry_after_peer_ok:
  assumes "driver_ok d" and "rd_retry_after_peer d = Some r"
  shows "driver_ok (retry_pending P now ch ps ctx (d\<lparr> rd_retry_after_peer := None \<rparr>))"
  using assms by (intro retry_pending_ok) (auto simp: driver_ok_def retry_weight_def)

lemma driver_ok_clear [simp]:
  "driver_ok d \<Longrightarrow> driver_ok (d\<lparr> rd_pending_round_id := None, rd_my_share := x, rd_my_share_broadcast := b \<rparr>)"
  "driver_ok d \<Longrightarrow> driver_ok (d\<lparr> rd_pending_round_id := None, rd_my_share := x, rd_my_share_broadcast := b,
     rd_pending_message := m \<rparr>)"
  "driver_ok d \<Longrightarrow> driver_ok (d\<lparr> rd_retry_after_peer := None \<rparr>)"
  "driver_ok d \<Longrightarrow> driver_ok (d\<lparr> rd_collectors := hdel i (rd_collectors d) \<rparr>)"
  by (auto simp: driver_ok_def retry_weight_def split: if_splits)

lemma drop_one_ok:
  assumes "driver_ok d"
  shows "driver_ok (drop_one P now ctx i d)"
proof -
  define d1 where "d1 = d\<lparr> rd_collectors := hdel i (rd_collectors d) \<rparr>"
  have "driver_ok d1" "rd_pending_round_id d1 = rd_pending_round_id d"
    using assms by (simp_all add: d1_def)
  then show ?thesis
    unfolding drop_one_def Let_def d1_def [symmetric] by (auto intro: retry_own_ok)
qed

lemma drop_expired_ok: "driver_ok d \<Longrightarrow> driver_ok (drop_expired P now ctx d)"
proof -
  have "driver_ok (fold (drop_one P now ctx) ids d)" if "driver_ok d" for ids d
    using that by (induction ids arbitrary: d) (simp_all add: drop_one_ok)
  then show "driver_ok d \<Longrightarrow> ?thesis" by (simp add: drop_expired_def Let_def)
qed

lemma abort_pending_round_ok:
  assumes "driver_ok d" and "rd_pending_round_id d = Some r"
  shows "driver_ok ((abort_pending_round d)\<lparr> rd_retry_after_peer := Some r' \<rparr>)"
  using assms by (auto simp: driver_ok_def abort_pending_round_def retry_weight_def split: if_splits)

lemma driver_ok_tracker [simp]: "driver_ok (d\<lparr> rd_tracker := t \<rparr>) = driver_ok d"
  by (simp add: driver_ok_def retry_weight_def)

lemma driver_ok_outgoing [simp]: "driver_ok (d\<lparr> rd_pending_outgoing := t \<rparr>) = driver_ok d"
  by (simp add: driver_ok_def retry_weight_def)

lemma driver_ok_collector:
  "driver_ok d \<Longrightarrow> collector_ok c \<Longrightarrow> rc_round_id c = i \<Longrightarrow>
   driver_ok (d\<lparr> rd_collectors := hput i c (rd_collectors d), rd_my_share_broadcast := b \<rparr>)"
  by (simp add: driver_ok_def retry_weight_def)

lemma driver_ok_collector':
  "driver_ok d \<Longrightarrow> collector_ok c \<Longrightarrow> rc_round_id c = i \<Longrightarrow>
   driver_ok (d\<lparr> rd_collectors := hput i c (rd_collectors d) \<rparr>)"
  by (simp add: driver_ok_def retry_weight_def)

lemma on_round_start_ok:
  assumes "driver_ok d"
  shows "driver_ok (fst (on_round_start P now ch r leader ps dl n ctx d))"
proof -
  define d1 where "d1 = d\<lparr> rd_tracker := fst (mark_seen r (rd_tracker d)) \<rparr>"
  define d2 where "d2 = (if \<not> snd (mark_seen r (rd_tracker d)) \<and> rd_pending_round_id d1 = Some r
      \<and> leader \<noteq> ctx_my_uid ctx \<and> leader < ctx_my_uid ctx
    then (abort_pending_round d1)\<lparr> rd_retry_after_peer := Some r \<rparr> else d1)"
  have d1: "driver_ok d1" using assms by (simp add: d1_def)
  then have d2: "driver_ok d2" by (simp add: d2_def abort_pending_round_ok)
  let ?c = "RoundCollector_new now ch r ps dl n"
  have c: "collector_ok (case submit_share u x ?c of Inl _ \<Rightarrow> ?c | Inr c \<Rightarrow> c)
      \<and> rc_round_id (case submit_share u x ?c of Inl _ \<Rightarrow> ?c | Inr c \<Rightarrow> c) = r" for u x
    by (auto dest: submit_share_frame intro: collector_ok_submit [OF collector_ok_new] split: sum.split)
  have "driver_ok (d2\<lparr> rd_collectors := hput r (case submit_share u x ?c of Inl _ \<Rightarrow> ?c | Inr c \<Rightarrow> c)
      (rd_collectors d2) \<rparr>)" for u x
    using d2 c by (simp add: driver_ok_collector')
  then show ?thesis
    unfolding on_round_start_def Let_def split_beta d1_def [symmetric] fst_conv snd_conv
      conj_assoc d2_def [symmetric]
    using d1 d2 by (auto simp: d2_def [symmetric] split: option.split)
qed

lemma emit_collected_ok:
  assumes "emit_collected P ch r c action d = (d', action', ok)" and "driver_ok d"
  shows "driver_ok d' \<and> rd_pending_round_id d' = rd_pending_round_id d"
  using assms
  by (auto simp: emit_collected_def driver_ok_def retry_weight_def split: option.splits if_splits)

lemma settle_own_ok:
  "driver_ok d \<Longrightarrow> is_my_round \<longrightarrow> rd_pending_round_id d = Some r \<Longrightarrow>
   driver_ok (settle_own P now ch ps ctx is_my_round ok d)"
  by (auto simp: settle_own_def Let_def intro: retry_own_ok)

lemma settle_lost_ok: "driver_ok d \<Longrightarrow> driver_ok (settle_lost P now ch r ps ctx d)"
  by (auto simp: settle_lost_def Let_def intro: retry_after_peer_ok)

lemma complete_round_ok:
  assumes "driver_ok d" and "is_my_round \<longrightarrow> rd_pending_round_id d = Some r"
  shows "driver_ok (fst (complete_round P now ch r is_my_round c ctx action d))"
  using assms
  by (auto simp: complete_round_def Let_def split: prod.split dest: emit_collected_ok
      intro!: settle_lost_ok settle_own_ok [where r = r])

lemma broadcast_last_ok:
  assumes "broadcast_last ch r ctx c d = (c', b, action)" and "collector_ok c"
  shows "collector_ok c' \<and> rc_round_id c' = rc_round_id c \<and> rc_participants c' = rc_participants c"
  using assms
  by (auto simp: broadcast_last_def Let_def collector_ok_submit dest: submit_share_frame
      split: if_splits option.splits prod.splits sum.splits)

lemma on_round_share_ok:
  assumes "driver_ok d"
  shows "driver_ok (fst (on_round_share P now ch r u x sig ctx d))"
proof (cases "\<exists>c1 c2. \<not> share_refused P ctx ch r u x sig \<and> hget (rd_collectors d) r = Some c1
    \<and> submit_share u x c1 = Inr c2")
  case True
  then obtain c1 c2 where c: "\<not> share_refused P ctx ch r u x sig" "hget (rd_collectors d) r = Some c1"
    "submit_share u x c1 = Inr c2" by blast
  obtain c3 b a where 3: "broadcast_last ch r ctx c2 d = (c3, b, a)" by (metis prod_cases3)
  have "collector_ok c1 \<and> rc_round_id c1 = r"
    using assms c(2) by (simp add: driver_ok_def collectors_ok_def)
  then have "collector_ok c3 \<and> rc_round_id c3 = r"
    using broadcast_last_ok [OF 3] c(3) collector_ok_submit submit_share_frame by metis
  then have "driver_ok (d\<lparr> rd_collectors := hput r c3 (rd_collectors d), rd_my_share_broadcast := b \<rparr>)"
    using assms by (simp add: driver_ok_collector)
  then show ?thesis using c 3 by (simp add: on_round_share_def complete_round_ok Let_def)
next
  case False
  with assms show ?thesis
    by (auto simp: on_round_share_def split: option.split sum.split)
qed

lemma dispatch_ok: "driver_ok d \<Longrightarrow> driver_ok (fst (dispatch P now msg ctx d))"
  by (cases msg) (simp_all add: on_round_start_ok on_round_share_ok)

datatype driver_op =
    OpInitiate nat string string "uid list" RoundContext
  | OpHandle nat PeerMessage RoundContext
  | OpDrain

fun driver_step :: "prims \<Rightarrow> driver_op \<Rightarrow> RoundDriver \<Rightarrow> RoundDriver" where
  "driver_step P (OpInitiate now ch txt ps ctx) d = fst (initiate P now ch txt ps ctx d)"
| "driver_step P (OpHandle now msg ctx) d = fst (handle P now msg ctx d)"
| "driver_step P OpDrain d = fst (drain_pending_outgoing d)"

lemma handle_ok: "driver_ok d \<Longrightarrow> driver_ok (fst (handle P now msg ctx d))"
  using dispatch_ok [OF drop_expired_ok, of d P now msg ctx]
  by (simp add: handle_def Let_def split_beta)

interpretation driver: op_system "driver_step P" driver_ok for P :: prims
proof unfold_locales
  fix d op
  assume "driver_ok d"
  then show "driver_ok (driver_step P op d)"
    by (cases op) (simp_all add: initiate_ok handle_ok drain_pending_outgoing_def)
qed


text \<open>The retry bound of the driver is never reached. Every successful re-initiation resets the
  counter, so in every reachable state fewer than three retries are counted and the branch that
  drops a message after \<^verbatim>\<open>MAX_CONFLICT_RETRIES\<close> failed rounds is dead: a message whose rounds keep
  failing is retried without end.\<close>
theorem retry_bound_unreachable:
  "rd_retries (fold (driver_step P) ops (RoundDriver_new now)) < MAX_CONFLICT_RETRIES"
proof -
  have "driver_ok (fold (driver_step P) ops (RoundDriver_new now))" by (rule driver.run_inv) simp
  then show ?thesis
    by (simp add: driver_ok_def retry_weight_def MAX_CONFLICT_RETRIES_def word_less_nat_alt split: if_splits)
qed

section \<open>At-most-once delivery\<close>

lemma emitted_initiate [simp]: "rd_emitted (fst (initiate P now ch txt ps ctx d)) = rd_emitted d"
  by (rule initiate_cases [of P now ch "txt" ps ctx d]) simp_all

lemma emitted_retry [simp]: "rd_emitted (retry_pending P now ch ps ctx d) = rd_emitted d"
proof -
  have "rd_emitted (case initiate P now ch t ps ctx d1 of (d2, Inl _) \<Rightarrow> d2
      | (d2, Inr out) \<Rightarrow> d2\<lparr> rd_pending_outgoing := rd_pending_outgoing d2 @ out \<rparr>) = rd_emitted d1" for t d1
    by (auto split: prod.split sum.split) (metis emitted_initiate fst_conv)+
  then show ?thesis by (auto simp: retry_pending_def Let_def split: option.split)
qed

lemma emitted_drop [simp]: "rd_emitted (drop_expired P now ctx d) = rd_emitted d"
proof -
  have "rd_emitted (drop_one P now ctx i d) = rd_emitted d" for i d
    by (simp add: drop_one_def Let_def)
  then have "rd_emitted (fold (drop_one P now ctx) ids d) = rd_emitted d" for ids d
    by (induction ids arbitrary: d) simp_all
  then show ?thesis by (simp add: drop_expired_def Let_def)
qed

lemma emitted_start:
  "rd_emitted (fst (on_round_start P now ch r l ps dl n ctx d)) = rd_emitted d
   \<and> act_extracted (snd (on_round_start P now ch r l ps dl n ctx d)) = []"
  by (auto simp: on_round_start_def Let_def no_action_def abort_pending_round_def split: prod.split option.split)

lemma emitted_complete:
  "act_extracted a = [] \<Longrightarrow> complete_round P now ch r m c ctx a d = (d', a') \<Longrightarrow>
   rd_emitted d' = rd_emitted d @ map em_round_id (act_extracted a')"
  by (auto simp: complete_round_def emit_collected_def settle_own_def settle_lost_def Let_def
      split: option.splits if_splits)

lemma broadcast_last_extracts_nothing: "act_extracted (snd (snd (broadcast_last ch r ctx c d))) = []"
  by (auto simp: broadcast_last_def Let_def no_action_def split: option.split)

lemma emitted_share:
  assumes "on_round_share P now ch r u x sig ctx d = (d', a')"
  shows "rd_emitted d' = rd_emitted d @ map em_round_id (act_extracted a')"
  using assms broadcast_last_extracts_nothing
  by (auto simp: on_round_share_def Let_def no_action_def split_beta dest!: emitted_complete [rotated]
      split: if_splits option.splits sum.splits)

lemma emitted_handle:
  assumes "handle P now msg ctx d = (d', a')"
  shows "rd_emitted d' = rd_emitted d @ map em_round_id (act_extracted a')"
proof -
  obtain d2 a where da: "dispatch P now msg ctx (drop_expired P now ctx d) = (d2, a)" by (metis surj_pair)
  have "rd_emitted d2 = rd_emitted d @ map em_round_id (act_extracted a)"
    using da emitted_start [of P now] emitted_share [of P now]
    by (cases msg) (auto simp: no_action_def, metis emitted_drop fst_conv snd_conv map_is_Nil_conv append_Nil2)
  then show ?thesis using assms da by (auto simp: handle_def Let_def)
qed

text \<open>The texts a driver hands to its application along a run.\<close>
fun driver_texts :: "prims \<Rightarrow> driver_op list \<Rightarrow> RoundDriver \<Rightarrow> ExtractedMessage list" where
  "driver_texts P [] d = []"
| "driver_texts P (op # ops) d =
     (case op of OpHandle now msg ctx \<Rightarrow> act_extracted (snd (handle P now msg ctx d)) | _ \<Rightarrow> [])
     @ driver_texts P ops (driver_step P op d)"

lemma driver_texts_emitted:
  "rd_emitted (fold (driver_step P) ops d) = rd_emitted d @ map em_round_id (driver_texts P ops d)"
proof (induction ops arbitrary: d)
  case Nil
  show ?case by simp
next
  case (Cons op ops)
  have "rd_emitted (driver_step P op d) = rd_emitted d @ map em_round_id
      (case op of OpHandle now msg ctx \<Rightarrow> act_extracted (snd (handle P now msg ctx d)) | _ \<Rightarrow> [])"
    using emitted_handle [OF surjective_pairing, of P _ _ _ d]
    by (cases op) (simp_all add: drain_pending_outgoing_def)
  with Cons show ?case by simp
qed

text \<open>A round delivers at most one text. Whatever a driver is told by its user and its peers, the
  round ids of the texts it hands to the application are pairwise distinct.\<close>
theorem at_most_one_text_per_round:
  "distinct (map em_round_id (driver_texts P ops (RoundDriver_new now)))"
proof -
  have "driver_ok (fold (driver_step P) ops (RoundDriver_new now))" by (rule driver.run_inv) simp
  then show ?thesis
    using driver_texts_emitted [of P ops "RoundDriver_new now"]
    by (simp add: driver_ok_def RoundDriver_new_def)
qed

section \<open>The initiator speaks last\<close>

lemma complete_round_outgoing [simp]:
  "act_outgoing (snd (complete_round P now ch r b c ctx a d)) = act_outgoing a"
  by (auto simp: complete_round_def emit_collected_def Let_def split: option.split)

text \<open>Our message share leaves the node only when it is the last one. If handling a share makes the
  driver send anything of its own, then the round is the one it initiated, its share had not been
  sent before, and after the incoming share every other participant's share is in the collector; what
  it sends is its share to every other participant. A node that loses a tie-break has therefore
  never sent its message share.\<close>
theorem initiator_speaks_last:
  assumes "on_round_share P now ch r u x sig ctx d = (d', a)" and "(v, m) \<in> set (act_outgoing a)"
  shows "\<exists>c c1 share s. rd_pending_round_id d = Some r \<and> \<not> rd_my_share_broadcast d
    \<and> rd_my_share d = Some (share, s) \<and> hget (rd_collectors d) r = Some c
    \<and> submit_share u x c = Inr c1 \<and> missing_participants c1 = [ctx_my_uid ctx]
    \<and> v \<in> set (rc_participants c) \<and> v \<noteq> ctx_my_uid ctx
    \<and> m = DcRoundShare ch r (ctx_my_uid ctx) share s"
proof -
  show ?thesis
  proof (cases "\<exists>c c1. hget (rd_collectors d) r = Some c \<and> submit_share u x c = Inr c1
      \<and> \<not> share_refused P ctx ch r u x sig")
    case True
    then obtain c c1 where c: "hget (rd_collectors d) r = Some c" "submit_share u x c = Inr c1"
      "\<not> share_refused P ctx ch r u x sig" by blast
    have "act_outgoing a = act_outgoing (snd (snd (broadcast_last ch r ctx c1 d)))"
      using assms(1) c by (simp add: on_round_share_def Let_def split_beta split: if_splits)
        (metis complete_round_outgoing snd_conv)
    with assms(2) c submit_share_frame [OF c(2)] show ?thesis
      by (auto simp: broadcast_last_def Let_def no_action_def to_others_def build_round_share_def
          split: if_splits option.splits)
  next
    case False
    with assms show ?thesis
      by (auto simp: on_round_share_def no_action_def split: if_splits option.splits sum.splits)
  qed
qed

definition demo_ctx :: RoundContext where
  "demo_ctx = \<lparr> ctx_my_uid = ''alice'', ctx_signing_key = [], ctx_edge_keys = [], ctx_known_keys = [] \<rparr>"

definition demo_driver :: RoundDriver where
  "demo_driver = (RoundDriver_new 0)\<lparr> rd_pending_round_id := Some 1, rd_my_share := Some ([1, 2, 3, 4], [9]),
     rd_collectors := [(1, RoundCollector_new 0 ''general'' 1 [''alice'', ''bob''] 30 4)] \<rparr>"

theorem initiator_speaks_last_witness:
  "\<exists>share s. rd_my_share demo_driver = Some (share, s) \<and>
     (''bob'', DcRoundShare ''general'' 1 ''alice'' share s) \<in> set (act_outgoing
       (snd (on_round_share toy_prims 5 ''general'' 1 ''bob'' [0, 0, 0, 0] [] demo_ctx demo_driver)))"
proof -
  have mem: "(''bob'', DcRoundShare ''general'' 1 ''alice'' [1, 2, 3, 4] [9]) \<in> set (act_outgoing
       (snd (on_round_share toy_prims 5 ''general'' 1 ''bob'' [0, 0, 0, 0] [] demo_ctx demo_driver)))"
    by (simp add: on_round_share_def demo_driver_def demo_ctx_def share_refused_def RoundDriver_new_def
        RoundCollector_new_def submit_share_def has_key_def broadcast_last_def missing_participants_def
        no_action_def to_others_def build_round_share_def is_complete_def Let_def)
  from initiator_speaks_last [OF surjective_pairing mem] mem show ?thesis by auto
qed

section \<open>A mesh round delivers\<close>

fun deliver :: "prims \<Rightarrow> RoundContext \<Rightarrow> (nat \<times> PeerMessage) list \<Rightarrow> RoundDriver
    \<Rightarrow> RoundDriver \<times> ExtractedMessage list \<times> outgoing" where
  "deliver P ctx [] d = (d, [], [])"
| "deliver P ctx ((t, m) # ms) d =
     (let (d1, a) = handle P t m ctx d; (d2, ex, out) = deliver P ctx ms d1
      in (d2, act_extracted a @ ex, act_outgoing a @ out))"

lemma deliver_append:
  "deliver P ctx (ms @ ms') d =
     (let (d1, ex, out) = deliver P ctx ms d; (d2, ex', out') = deliver P ctx ms' d1
      in (d2, ex @ ex', out @ out'))"
  by (induction ms arbitrary: d) (auto simp: Let_def split: prod.split)

text \<open>A driver whose only open round is \<open>r\<close>, held by collector \<open>c\<close>.\<close>
definition awaiting :: "u64 \<Rightarrow> RoundCollector \<Rightarrow> RoundDriver \<Rightarrow> bool" where
  "awaiting r c d \<longleftrightarrow> rd_collectors d = [(r, c)] \<and> rd_pending_outgoing d = []
     \<and> rd_retry_after_peer d = None \<and> r \<notin> set (rd_emitted d)"

lemma drop_expired_awaiting [simp]:
  "awaiting r c d \<Longrightarrow> t < rc_deadline c \<Longrightarrow> drop_expired P t ctx d = d"
  by (simp add: drop_expired_def awaiting_def is_expired_def)

lemma is_complete_missing: "w \<in> set (missing_participants c) \<Longrightarrow> collector_ok c \<Longrightarrow> \<not> is_complete c"
  using is_complete_iff by fastforce

lemma missing_append:
  "missing_participants (c\<lparr> rc_shares_received := rc_shares_received c @ xs \<rparr>) =
     filter (\<lambda>p. p \<notin> fst ` set xs) (missing_participants c)"
  by (auto simp: missing_participants_def has_key_iff hkeys_def intro!: filter_cong)

lemma handle_share_waits:
  assumes "awaiting r c d" and "t < rc_deadline c" and "\<not> share_refused P ctx ch r q x sig"
    and "submit_share q x c = Inr c'" and "collector_ok c" and "w \<in> set (missing_participants c')"
    and "rd_pending_round_id d = Some r \<longrightarrow> w \<noteq> ctx_my_uid ctx"
  shows "handle P t (DcRoundShare ch r q x sig) ctx d = (d\<lparr> rd_collectors := [(r, c')] \<rparr>, no_action)
    \<and> awaiting r c' (d\<lparr> rd_collectors := [(r, c')] \<rparr>)"
proof -
  have "broadcast_last ch r ctx c' d = (c', rd_my_share_broadcast d, no_action)"
    using assms(6,7) by (auto simp: broadcast_last_def Let_def)
  moreover have "\<not> is_complete c'"
    using assms(4-6) collector_ok_submit is_complete_missing by blast
  ultimately have "on_round_share P t ch r q x sig ctx d = (d\<lparr> rd_collectors := [(r, c')] \<rparr>, no_action)"
    using assms(1,3,4) by (simp add: on_round_share_def awaiting_def)
  then show ?thesis
    using assms(1,2) by (simp add: handle_def awaiting_def [of r c'] no_action_def) (simp add: awaiting_def)
qed

lemma deliver_waits:
  assumes "awaiting r c d" and "collector_ok c" and "\<forall>(t, q) \<in> set ts. t < rc_deadline c"
    and "distinct (map snd ts)" and "snd ` set ts \<subseteq> set (missing_participants c)"
    and "\<forall>(t, q) \<in> set ts. \<not> share_refused P ctx ch r q (sh q) (sg q) \<and> length (sh q) = rc_payload_len c"
    and "w \<in> set (missing_participants c)" and "w \<notin> snd ` set ts"
    and "rd_pending_round_id d = Some r \<longrightarrow> w \<noteq> ctx_my_uid ctx"
  defines "c' \<equiv> c\<lparr> rc_shares_received := rc_shares_received c @ map (\<lambda>(t, q). (q, sh q)) ts \<rparr>"
  shows "deliver P ctx (map (\<lambda>(t, q). (t, DcRoundShare ch r q (sh q) (sg q))) ts) d
      = (d\<lparr> rd_collectors := [(r, c')] \<rparr>, [], [])
    \<and> awaiting r c' (d\<lparr> rd_collectors := [(r, c')] \<rparr>) \<and> collector_ok c'"
  unfolding c'_def using assms(1-9)
proof (induction ts arbitrary: c d)
  case Nil
  then show ?case by (auto simp: awaiting_def)
next
  case (Cons tq ts)
  obtain t q where tq: "tq = (t, q)" by (cases tq)
  let ?c = "c\<lparr> rc_shares_received := rc_shares_received c @ [(q, sh q)] \<rparr>"
  let ?d = "d\<lparr> rd_collectors := [(r, ?c)] \<rparr>"
  have sub: "submit_share q (sh q) c = Inr ?c"
    using Cons.prems(5,6) by (auto simp: tq submit_share_Inr_iff missing_participants_def)
  have miss: "missing_participants ?c = filter (\<lambda>p. p \<noteq> q) (missing_participants c)"
    using missing_append [of c "[(q, sh q)]"] by simp
  have h: "handle P t (DcRoundShare ch r q (sh q) (sg q)) ctx d = (?d, no_action) \<and> awaiting r ?c ?d"
    using Cons.prems sub miss by (intro handle_share_waits [where c = c and w = w]) (auto simp: tq)
  have "snd ` set ts \<subseteq> set (missing_participants ?c)" "w \<in> set (missing_participants ?c)"
    using Cons.prems(4,5,7,8) by (auto simp: miss tq)
  then have "deliver P ctx (map (\<lambda>(t, q). (t, DcRoundShare ch r q (sh q) (sg q))) ts) ?d
      = (?d\<lparr> rd_collectors := [(r, ?c\<lparr> rc_shares_received := rc_shares_received ?c
            @ map (\<lambda>(t, q). (q, sh q)) ts \<rparr>)] \<rparr>, [], [])
    \<and> awaiting r (?c\<lparr> rc_shares_received := rc_shares_received ?c @ map (\<lambda>(t, q). (q, sh q)) ts \<rparr>)
        (?d\<lparr> rd_collectors := [(r, ?c\<lparr> rc_shares_received := rc_shares_received ?c
            @ map (\<lambda>(t, q). (q, sh q)) ts \<rparr>)] \<rparr>)
    \<and> collector_ok (?c\<lparr> rc_shares_received := rc_shares_received ?c @ map (\<lambda>(t, q). (q, sh q)) ts \<rparr>)"
    using Cons.prems h collector_ok_submit [OF Cons.prems(2) sub]
    by (intro Cons.IH) (auto simp: tq)
  then show ?case using h by (simp add: tq Let_def no_action_def)
qed

lemma handle_share_completes:
  assumes "awaiting r c d" and "t < rc_deadline c" and "\<not> share_refused P ctx ch r q x sig"
    and "submit_share q x c = Inr c'" and "rd_pending_round_id d \<noteq> Some r"
    and "is_complete c'" and "collected_text P c' = Some tx"
  shows "act_extracted (snd (handle P t (DcRoundShare ch r q x sig) ctx d)) =
      [\<lparr> em_channel = ch, em_text = tx, em_round_id = r \<rparr>]
    \<and> act_outgoing (snd (handle P t (DcRoundShare ch r q x sig) ctx d)) = []"
proof -
  have "broadcast_last ch r ctx c' d = (c', rd_my_share_broadcast d, no_action)"
    using assms(5) by (simp add: broadcast_last_def)
  then show ?thesis
    using assms
    by (simp add: handle_def on_round_share_def awaiting_def [of r c d] complete_round_def emit_collected_def
        settle_own_def settle_lost_def no_action_def Let_def drop_expired_def is_expired_def split_beta)
qed

lemma handle_share_answers:
  assumes "awaiting r c d" and "t < rc_deadline c" and "\<not> share_refused P ctx ch r q x sig"
    and "submit_share q x c = Inr c'" and "missing_participants c' = [ctx_my_uid ctx]"
    and "rd_pending_round_id d = Some r" and "\<not> rd_my_share_broadcast d" and "rd_my_share d = Some (my, sg)"
    and "submit_share (ctx_my_uid ctx) my c' = Inr c''"
    and "is_complete c''" and "collected_text P c'' = Some tx"
  shows "act_extracted (snd (handle P t (DcRoundShare ch r q x sig) ctx d)) =
      [\<lparr> em_channel = ch, em_text = tx, em_round_id = r \<rparr>]
    \<and> act_outgoing (snd (handle P t (DcRoundShare ch r q x sig) ctx d)) =
      to_others (ctx_my_uid ctx) (rc_participants c) (DcRoundShare ch r (ctx_my_uid ctx) my sg)
    \<and> rd_pending_message (fst (handle P t (DcRoundShare ch r q x sig) ctx d)) = None"
proof -
  have "broadcast_last ch r ctx c' d = (c'', True, no_action\<lparr> act_outgoing :=
      to_others (ctx_my_uid ctx) (rc_participants c) (DcRoundShare ch r (ctx_my_uid ctx) my sg) \<rparr>)"
    using assms submit_share_frame [OF assms(4)]
    by (simp add: broadcast_last_def Let_def build_round_share_def)
  then show ?thesis
    using assms
    by (simp add: handle_def on_round_share_def awaiting_def [of r c d] complete_round_def emit_collected_def
        settle_own_def settle_lost_def no_action_def Let_def drop_expired_def is_expired_def split_beta)
qed

lemma length_round_share:
  assumes "edges_agree key ek ps" and "2 \<le> length ps" and "p \<in> set ps"
    and "pad_message P msg n = Some padded"
  shows "length (the (round_share P r ps s msg n ek p)) = n"
  using round_share_closed [OF assms] pad_message_Some [OF assms(4)] by (simp add: edge_share.node_len)

lemma collected_round_text:
  assumes "edges_agree key ek ps" and "2 \<le> length ps" and "distinct ps" and "s \<in> set ps"
    and "36 + length tx \<le> n" and "n \<le> 65536" and "str_valid tx" and "mset us = mset ps"
    and "rc_shares_received c = map (\<lambda>p. (p, the (round_share P r ps s (str_bytes tx) n ek p))) us"
    and "rc_payload_len c = n"
  shows "collected_text P c = Some tx"
proof -
  obtain padded where pad: "pad_message P (str_bytes tx) n = Some padded"
    using pad_message_fits [of "str_bytes tx" n P] assms(5) by auto
  have un: "unpad_message P padded = Some (str_bytes tx)"
    by (rule unpad_pad [OF pad]) (use assms(5,6) in simp)
  have set: "set us = set ps" and ne: "us \<noteq> []" using assms(4,8) by (metis mset_eq_setD, auto)
  have "hvalues (rc_shares_received c) = map (\<lambda>p. the (round_share P r ps s (str_bytes tx) n ek p)) us"
    by (simp add: assms(9) hvalues_def)
  then have "extract_loop (replicate n 0) (hvalues (rc_shares_received c)) = Some padded"
    using round_shares_xor [OF assms(1-4) pad assms(8), of r] length_round_share [OF assms(1,2) _ pad] set
    by (subst extract_loop_eq) simp_all
  then show ?thesis
    using ne un assms(7,9,10) by (simp add: collected_text_def extract_message_def)
qed

section \<open>The whole protocol between honest members\<close>

text \<open>Member \<open>p\<close> of a channel: its signing key, its edge keys and the directory of public keys.\<close>
definition member_ctx ::
  "(uid \<Rightarrow> bytes) \<Rightarrow> (uid \<Rightarrow> (uid, bytes) hmap) \<Rightarrow> (uid, string) hmap \<Rightarrow> uid \<Rightarrow> RoundContext" where
  "member_ctx sk ek kk p = \<lparr> ctx_my_uid = p, ctx_signing_key = sk p, ctx_edge_keys = ek p,
     ctx_known_keys = kk \<rparr>"

definition directory_ok :: "prims \<Rightarrow> (uid \<Rightarrow> bytes) \<Rightarrow> (uid, string) hmap \<Rightarrow> bool" where
  "directory_ok P sk kk \<longleftrightarrow> (\<forall>(q, h) \<in> set kk. h = hex_encode (ed_public P (sk q)))"

text \<open>A driver with nothing in flight whose next round is \<open>r\<close>.\<close>
definition idle_for :: "u64 \<Rightarrow> RoundDriver \<Rightarrow> bool" where
  "idle_for r d \<longleftrightarrow> rd_collectors d = [] \<and> rd_pending_round_id d = None \<and> rd_pending_outgoing d = []
     \<and> rd_retry_after_peer d = None \<and> r \<notin> set (rd_emitted d) \<and> rt_current_round_id (rd_tracker d) + 1 = r"

definition member_share :: "prims \<Rightarrow> string \<Rightarrow> u64 \<Rightarrow> uid list \<Rightarrow> uid \<Rightarrow> string \<Rightarrow> (uid \<Rightarrow> bytes)
    \<Rightarrow> (uid \<Rightarrow> (uid, bytes) hmap) \<Rightarrow> uid \<Rightarrow> PeerMessage" where
  "member_share P ch r ps s tx sk ek q =
     (let x = the (round_share P r ps s (str_bytes tx) CHANNEL_PAYLOAD_LEN ek q)
      in DcRoundShare ch r q x (sign_share P (sk q) ch r x))"

lemma honest_share_accepted:
  assumes "sig_law P" and "keys_law P" and "directory_ok P sk kk"
  shows "\<not> share_refused P (member_ctx sk ek kk p) ch r q x (sign_share P (sk q) ch r x)"
proof (cases "hget kk q")
  case None
  then show ?thesis by (simp add: share_refused_def member_ctx_def)
next
  case (Some h)
  then have "h = hex_encode (ed_public P (sk q))"
    using assms(3) hget_in_set by (fastforce simp: directory_ok_def)
  with Some assms(1,2) show ?thesis
    by (simp add: share_refused_def member_ctx_def parse_verifying_key_def keys_law_def
        verify_share_signature_def sign_share_def sig_law_def)
qed

lemma initiate_idle:
  assumes "edges_agree key ek ps" and "2 \<le> length ps" and "s \<in> set ps" and "36 + length tx \<le> CHANNEL_PAYLOAD_LEN"
    and "idle_for r d"
  shows "\<exists>d'. initiate P t ch tx ps (member_ctx sk ek kk s) d =
      (d', Inr (to_others s ps (DcRoundStart ch r s ps CHANNEL_ROUND_DEADLINE_SECS CHANNEL_PAYLOAD_LEN)))
    \<and> awaiting r (RoundCollector_new t ch r ps CHANNEL_ROUND_DEADLINE_SECS CHANNEL_PAYLOAD_LEN) d'
    \<and> rd_pending_round_id d' = Some r \<and> \<not> rd_my_share_broadcast d'
    \<and> rd_my_share d' = Some (the (round_share P r ps s (str_bytes tx) CHANNEL_PAYLOAD_LEN ek s),
        sign_share P (sk s) ch r (the (round_share P r ps s (str_bytes tx) CHANNEL_PAYLOAD_LEN ek s)))"
proof -
  obtain padded where pad: "pad_message P (str_bytes tx) CHANNEL_PAYLOAD_LEN = Some padded"
    using pad_message_fits [of "str_bytes tx" CHANNEL_PAYLOAD_LEN P] assms(4) by auto
  obtain share where share: "round_share P r ps s (str_bytes tx) CHANNEL_PAYLOAD_LEN ek s = Some share"
    using round_share_closed [OF assms(1-3) pad] by blast
  then have "compute_xor_share_secure P r s ps (Some (str_bytes tx)) CHANNEL_PAYLOAD_LEN (ek s) = Some share"
    by (simp add: round_share_def)
  with assms share show ?thesis
    by (auto simp: initiate_def member_ctx_def list_ex_iff next_round_def Let_def idle_for_def awaiting_def
        build_round_start_def)
qed

lemma start_idle:
  fixes P :: prims
  assumes "edges_agree key ek ps" and "2 \<le> length ps" and "p \<in> set ps" and "p \<noteq> s" and "idle_for r d"
    and "36 + length tx \<le> CHANNEL_PAYLOAD_LEN"
  defines "x \<equiv> the (round_share P r ps s (str_bytes tx) CHANNEL_PAYLOAD_LEN ek p)"
  shows "\<exists>d'. handle P t (DcRoundStart ch r s ps CHANNEL_ROUND_DEADLINE_SECS CHANNEL_PAYLOAD_LEN)
        (member_ctx sk ek kk p) d
      = (d', no_action\<lparr> act_outgoing := to_others p ps (member_share P ch r ps s tx sk ek p) \<rparr>)
    \<and> awaiting r ((RoundCollector_new t ch r ps CHANNEL_ROUND_DEADLINE_SECS CHANNEL_PAYLOAD_LEN)
        \<lparr> rc_shares_received := [(p, x)] \<rparr>) d'
    \<and> rd_pending_round_id d' = None
    \<and> collector_ok ((RoundCollector_new t ch r ps CHANNEL_ROUND_DEADLINE_SECS CHANNEL_PAYLOAD_LEN)
        \<lparr> rc_shares_received := [(p, x)] \<rparr>)"
proof -
  let ?c = "RoundCollector_new t ch r ps CHANNEL_ROUND_DEADLINE_SECS CHANNEL_PAYLOAD_LEN"
  obtain padded where pad: "pad_message P (str_bytes tx) CHANNEL_PAYLOAD_LEN = Some padded"
    using pad_message_fits [of "str_bytes tx" CHANNEL_PAYLOAD_LEN P] assms(6) by auto
  have share: "round_share P r ps s (str_bytes tx) CHANNEL_PAYLOAD_LEN ek p = Some x"
    using round_share_closed [OF assms(1-3) pad] by (simp add: x_def)
  then have c: "compute_xor_share_secure P r p ps None CHANNEL_PAYLOAD_LEN (ek p) = Some x"
    using assms(4) by (simp add: round_share_def)
  have "length x = CHANNEL_PAYLOAD_LEN" using length_round_share [OF assms(1-3) pad] by (simp add: x_def)
  then have sub: "submit_share p x ?c = Inr (?c\<lparr> rc_shares_received := [(p, x)] \<rparr>)"
    using assms(3) by (simp add: submit_share_Inr_iff has_key_def CHANNEL_PAYLOAD_LEN_def)
  from collector_ok_submit [OF collector_ok_new this] c share sub assms(3,5) show ?thesis
    by (auto simp: handle_def drop_expired_def on_round_start_def mark_seen_def member_ctx_def list_ex_iff
        Let_def idle_for_def awaiting_def build_round_share_def member_share_def no_action_def)
qed

lemma others_nonempty: "2 \<le> length ps \<Longrightarrow> distinct ps \<Longrightarrow> filter (\<lambda>q. q \<noteq> p) ps \<noteq> []"
proof
  assume a: "2 \<le> length ps" "distinct ps" "filter (\<lambda>q. q \<noteq> p) ps = []"
  then have "set ps \<subseteq> {p}" by (auto simp: filter_empty_conv)
  then have "card (set ps) \<le> 1" using card_mono [of "{p}" "set ps"] by simp
  with a show False by (simp add: distinct_card)
qed

text \<open>The state in which all but the last of the expected shares \<open>ts\<close> have arrived.\<close>
lemma deliver_all_but_last:
  fixes P :: prims and s :: uid
  assumes "sig_law P" and "keys_law P" and "directory_ok P sk kk"
    and "edges_agree key ek ps" and "2 \<le> length ps" and "distinct ps"
    and "36 + length tx \<le> CHANNEL_PAYLOAD_LEN"
    and "mset (map snd (ts @ [(t, w)])) = mset (filter (\<lambda>q. q \<noteq> p) ps)"
    and "\<forall>(u, q) \<in> set (ts @ [(t, w)]). u < rc_deadline c"
    and "awaiting r c d" and "collector_ok c" and "rc_participants c = ps"
    and "rc_payload_len c = CHANNEL_PAYLOAD_LEN" and "set (hkeys (rc_shares_received c)) \<subseteq> {p}"
  defines "sh \<equiv> \<lambda>q. the (round_share P r ps s (str_bytes tx) CHANNEL_PAYLOAD_LEN ek q)"
  defines "c' \<equiv> c\<lparr> rc_shares_received := rc_shares_received c @ map (\<lambda>(t, q). (q, sh q)) ts \<rparr>"
  shows "deliver P (member_ctx sk ek kk p) (map (\<lambda>(t, q). (t, member_share P ch r ps s tx sk ek q)) ts) d
      = (d\<lparr> rd_collectors := [(r, c')] \<rparr>, [], [])
    \<and> awaiting r c' (d\<lparr> rd_collectors := [(r, c')] \<rparr>) \<and> collector_ok c'
    \<and> submit_share w (sh w) c' = Inr (c'\<lparr> rc_shares_received := rc_shares_received c' @ [(w, sh w)] \<rparr>)
    \<and> w \<noteq> p"
proof -
  obtain padded where pad: "pad_message P (str_bytes tx) CHANNEL_PAYLOAD_LEN = Some padded"
    using pad_message_fits [of "str_bytes tx" CHANNEL_PAYLOAD_LEN P] assms(7) by auto
  have "distinct (map snd (ts @ [(t, w)]))"
    using assms(6,8) by (metis distinct_filter mset_eq_imp_distinct_iff)
  then have dist: "distinct (map snd ts)" "w \<notin> snd ` set ts" by auto
  have others: "set (map snd (ts @ [(t, w)])) = {q \<in> set ps. q \<noteq> p}"
    using assms(8) by (metis mset_eq_setD set_filter)
  then have w: "w \<in> set ps" "w \<noteq> p" and ts: "snd ` set ts \<subseteq> set ps - {p}" by auto
  have miss: "set ps - {p} \<subseteq> set (missing_participants c)"
    using assms(12,14) by (auto simp: missing_participants_def has_key_iff)
  have len: "length (sh q) = CHANNEL_PAYLOAD_LEN" if "q \<in> set ps" for q
    using length_round_share [OF assms(4,5) that pad] by (simp add: sh_def)
  have "map (\<lambda>(t, q). (t, member_share P ch r ps s tx sk ek q)) ts =
      map (\<lambda>(t, q). (t, DcRoundShare ch r q (sh q) (sign_share P (sk q) ch r (sh q)))) ts"
    by (auto simp: member_share_def sh_def Let_def)
  moreover have "deliver P (member_ctx sk ek kk p)
        (map (\<lambda>(t, q). (t, DcRoundShare ch r q (sh q) (sign_share P (sk q) ch r (sh q)))) ts) d
      = (d\<lparr> rd_collectors := [(r, c')] \<rparr>, [], [])
    \<and> awaiting r c' (d\<lparr> rd_collectors := [(r, c')] \<rparr>) \<and> collector_ok c'"
    unfolding c'_def
    using assms(9-14) dist w ts miss len honest_share_accepted [OF assms(1-3)]
    by (intro deliver_waits [where w = w]) (auto simp: member_ctx_def)
  moreover have "submit_share w (sh w) c' = Inr (c'\<lparr> rc_shares_received := rc_shares_received c' @ [(w, sh w)] \<rparr>)"
    using assms(12-14) w dist len
    by (auto simp: submit_share_Inr_iff c'_def has_key_iff hkeys_def image_iff)
  ultimately show ?thesis using w by (simp only: simp_thms)
qed

lemma collected_by:
  fixes P :: prims
  assumes "edges_agree key ek ps" and "2 \<le> length ps" and "distinct ps" and "s \<in> set ps"
    and "36 + length tx \<le> CHANNEL_PAYLOAD_LEN" and "str_valid tx" and "mset us = mset ps"
    and "rc_participants c = ps" and "rc_payload_len c = CHANNEL_PAYLOAD_LEN"
    and "rc_shares_received c = map (\<lambda>q. (q, the (round_share P r ps s (str_bytes tx) CHANNEL_PAYLOAD_LEN ek q))) us"
  shows "is_complete c \<and> collected_text P c = Some tx"
proof -
  have "length us = length ps" using assms(7) by (metis size_mset)
  then have "is_complete c" using assms(8,10) by (simp add: is_complete_def)
  moreover have "collected_text P c = Some tx"
    by (rule collected_round_text [OF assms(1-5) _ assms(6,7,10,9)]) (simp add: CHANNEL_PAYLOAD_LEN_def)
  ultimately show ?thesis by simp
qed

lemma mset_filter_ne: "distinct ps \<Longrightarrow> p \<in> set ps \<Longrightarrow> add_mset p (mset (filter (\<lambda>q. q \<noteq> p) ps)) = mset ps"
  by (induction ps) (auto simp del: mset_filter simp: filter_id_conv intro!: arg_cong [of _ _ mset])

text \<open>Every listening member recovers the text. In a channel whose members share edge keys and know
  each other's public keys, a member that receives the start of a round and then the shares of all
  other members, in any order and before the deadline, answers the start with its own share to
  everyone, hands exactly the initiator's text to its application, once, and sends nothing more.\<close>
theorem mesh_listener_delivers:
  assumes "sig_law P" and "keys_law P" and "directory_ok P sk kk"
    and "edges_agree key ek ps" and "2 \<le> length ps" and "distinct ps" and "s \<in> set ps"
    and "36 + length tx \<le> CHANNEL_PAYLOAD_LEN" and "str_valid tx"
    and "p \<in> set ps" and "p \<noteq> s" and "idle_for r d"
    and "mset (map snd ts) = mset (filter (\<lambda>q. q \<noteq> p) ps)" and "\<forall>(u, q) \<in> set ts. u < t + 30000"
  shows "\<exists>d1 d2. handle P t (DcRoundStart ch r s ps CHANNEL_ROUND_DEADLINE_SECS CHANNEL_PAYLOAD_LEN)
        (member_ctx sk ek kk p) d
      = (d1, \<lparr> act_extracted = [], act_outgoing = to_others p ps (member_share P ch r ps s tx sk ek p) \<rparr>)
    \<and> deliver P (member_ctx sk ek kk p) (map (\<lambda>(t, q). (t, member_share P ch r ps s tx sk ek q)) ts) d1
      = (d2, [\<lparr> em_channel = ch, em_text = tx, em_round_id = r \<rparr>], [])"
proof -
  let ?sh = "\<lambda>q. the (round_share P r ps s (str_bytes tx) CHANNEL_PAYLOAD_LEN ek q)"
  let ?new = "RoundCollector_new t ch r ps CHANNEL_ROUND_DEADLINE_SECS CHANNEL_PAYLOAD_LEN"
  let ?c = "?new\<lparr> rc_shares_received := [(p, ?sh p)] \<rparr>"
  let ?ctx = "member_ctx sk ek kk p" and ?m = "\<lambda>(t, q). (t, member_share P ch r ps s tx sk ek q)"
  obtain d1 where start: "handle P t (DcRoundStart ch r s ps CHANNEL_ROUND_DEADLINE_SECS CHANNEL_PAYLOAD_LEN) ?ctx d
      = (d1, no_action\<lparr> act_outgoing := to_others p ps (member_share P ch r ps s tx sk ek p) \<rparr>)"
    and aw: "awaiting r ?c d1" and pend: "rd_pending_round_id d1 = None" and ok: "collector_ok ?c"
    using start_idle [OF assms(4,5,10,11,12,8)] by blast
  obtain ts' u w where ts: "ts = ts' @ [(u, w)]"
    using assms(13) others_nonempty [OF assms(5,6)]
    by (metis append_butlast_last_id list.map_disc_iff mset_zero_iff_right surj_pair)
  have dl: "rc_deadline ?c = t + 30000"
    by (simp add: RoundCollector_new_def CHANNEL_ROUND_DEADLINE_SECS_def MAX_ROUND_DEADLINE_SECS_def)
  have fields: "rc_participants ?c = ps" "rc_payload_len ?c = CHANNEL_PAYLOAD_LEN"
    using assms(6) by (simp_all add: distinct_remdups_id CHANNEL_PAYLOAD_LEN_def)
  let ?c' = "?c\<lparr> rc_shares_received := rc_shares_received ?c @ map (\<lambda>(t, q). (q, ?sh q)) ts' \<rparr>"
  let ?c'' = "?c'\<lparr> rc_shares_received := rc_shares_received ?c' @ [(w, ?sh w)] \<rparr>"
  let ?d = "d1\<lparr> rd_collectors := [(r, ?c')] \<rparr>"
  have step: "deliver P ?ctx (map ?m ts') d1 = (?d, [], []) \<and> awaiting r ?c' ?d \<and> collector_ok ?c'
      \<and> submit_share w (?sh w) ?c' = Inr ?c'' \<and> w \<noteq> p"
    by (rule deliver_all_but_last [OF assms(1-6,8)])
      (use assms(13,14) ts dl aw ok fields in \<open>auto simp: hkeys_def\<close>)
  have "is_complete ?c'' \<and> collected_text P ?c'' = Some tx"
    by (rule collected_by [OF assms(4-9), where us = "p # map snd ts"])
      (use assms(13) mset_filter_ne [OF assms(6,10)] fields in \<open>auto simp: ts comp_def split_beta\<close>)
  then have "act_extracted (snd (handle P u (member_share P ch r ps s tx sk ek w) ?ctx ?d)) =
        [\<lparr> em_channel = ch, em_text = tx, em_round_id = r \<rparr>]
      \<and> act_outgoing (snd (handle P u (member_share P ch r ps s tx sk ek w) ?ctx ?d)) = []"
    unfolding member_share_def Let_def
    using step pend dl assms(14) honest_share_accepted [OF assms(1-3)]
    by (intro handle_share_completes [where c = ?c' and c' = ?c'']) (simp_all add: ts)
  then show ?thesis
    using start step by (auto simp: ts deliver_append no_action_def Let_def split_beta)
qed

lemma missing_only_one:
  assumes "distinct ps" and "s \<in> set ps" and "rc_participants c = ps"
    and "set (hkeys (rc_shares_received c)) = {q \<in> set ps. q \<noteq> s}"
  shows "missing_participants c = [s]"
proof -
  have "missing_participants c = filter (\<lambda>q. q = s) ps"
    using assms(3,4) by (auto simp: missing_participants_def has_key_iff intro!: filter_cong)
  also have "\<dots> = [s]" using assms(1,2) by (induction ps) (auto simp: filter_empty_conv)
  finally show ?thesis .
qed

lemma own_share_submits:
  assumes "edges_agree key ek ps" and "2 \<le> length ps" and "s \<in> set ps" and "36 + length tx \<le> CHANNEL_PAYLOAD_LEN"
    and "rc_participants c = ps" and "rc_payload_len c = CHANNEL_PAYLOAD_LEN" and "missing_participants c = [s]"
    and sh: "sh = the (round_share P r ps s (str_bytes tx) CHANNEL_PAYLOAD_LEN ek s)"
  shows "submit_share s sh c = Inr (c\<lparr> rc_shares_received := rc_shares_received c @ [(s, sh)] \<rparr>)"
proof -
  obtain padded where "pad_message P (str_bytes tx) CHANNEL_PAYLOAD_LEN = Some padded"
    using pad_message_fits [of "str_bytes tx" CHANNEL_PAYLOAD_LEN P] assms(4) by auto
  then have "length sh = CHANNEL_PAYLOAD_LEN" unfolding sh by (rule length_round_share [OF assms(1-3)])
  moreover have "s \<in> set (missing_participants c)" unfolding assms(7) by simp
  ultimately show ?thesis using assms(5,6) by (simp add: submit_share_Inr_iff missing_participants_def)
qed

text \<open>With the shares of all others in hand a member is the only one missing; its own share completes the
  round, and the collected text is the initiator's.\<close>
lemma own_share_completes:
  fixes P :: prims
  assumes "edges_agree key ek ps" and "2 \<le> length ps" and "distinct ps" and "s \<in> set ps"
    and "36 + length tx \<le> CHANNEL_PAYLOAD_LEN" and "str_valid tx"
    and "mset us = mset (filter (\<lambda>q. q \<noteq> s) ps)" and "rc_participants c = ps"
    and "rc_payload_len c = CHANNEL_PAYLOAD_LEN"
    and sh: "sh = (\<lambda>q. the (round_share P r ps s (str_bytes tx) CHANNEL_PAYLOAD_LEN ek q))"
    and "rc_shares_received c = map (\<lambda>q. (q, sh q)) us"
    and c': "c' = c\<lparr> rc_shares_received := rc_shares_received c @ [(s, sh s)] \<rparr>"
  shows "missing_participants c = [s] \<and> submit_share s (sh s) c = Inr c' \<and> is_complete c' \<and> collected_text P c' = Some tx"
proof -
  have "set us = {q \<in> set ps. q \<noteq> s}" using assms(7) by (metis mset_eq_setD set_filter)
  then have miss: "missing_participants c = [s]"
    by (intro missing_only_one [OF assms(3,4,8)]) (simp add: assms(11) hkeys_def comp_def)
  moreover have "submit_share s (sh s) c = Inr c'"
    unfolding c' by (rule own_share_submits [OF assms(1,2,4,5,8,9) miss]) (simp add: sh)
  moreover have "mset (us @ [s]) = mset ps"
    using mset_filter_ne [OF assms(3,4)] by (simp only: mset_append assms(7)) simp
  then have "is_complete c' \<and> collected_text P c' = Some tx"
    by (rule collected_by [OF assms(1-6), where r = r]) (simp_all add: c' assms(8,9,11) sh)
  ultimately show ?thesis by simp
qed

text \<open>The initiator completes its round. An idle member that initiates a round sends the start to
  every other member; once the shares of all others have arrived, in any order and before the
  deadline, it sends its own share to every other member, hands its own text to the application
  exactly once, and has no message left to retry.\<close>
theorem mesh_initiator_delivers:
  assumes "sig_law P" and "keys_law P" and "directory_ok P sk kk"
    and "edges_agree key ek ps" and "2 \<le> length ps" and "distinct ps" and "s \<in> set ps"
    and "36 + length tx \<le> CHANNEL_PAYLOAD_LEN" and "str_valid tx" and "idle_for r d"
    and "mset (map snd ts) = mset (filter (\<lambda>q. q \<noteq> s) ps)" and "\<forall>(u, q) \<in> set ts. u < t + 30000"
  shows "\<exists>d1 d2. initiate P t ch tx ps (member_ctx sk ek kk s) d
      = (d1, Inr (to_others s ps (DcRoundStart ch r s ps CHANNEL_ROUND_DEADLINE_SECS CHANNEL_PAYLOAD_LEN)))
    \<and> deliver P (member_ctx sk ek kk s) (map (\<lambda>(t, q). (t, member_share P ch r ps s tx sk ek q)) ts) d1
      = (d2, [\<lparr> em_channel = ch, em_text = tx, em_round_id = r \<rparr>],
         to_others s ps (member_share P ch r ps s tx sk ek s))
    \<and> rd_pending_message d2 = None"
proof -
  let ?sh = "\<lambda>q. the (round_share P r ps s (str_bytes tx) CHANNEL_PAYLOAD_LEN ek q)"
  let ?c = "RoundCollector_new t ch r ps CHANNEL_ROUND_DEADLINE_SECS CHANNEL_PAYLOAD_LEN"
  let ?ctx = "member_ctx sk ek kk s" and ?m = "\<lambda>(t, q). (t, member_share P ch r ps s tx sk ek q)"
  obtain d1 where init: "initiate P t ch tx ps ?ctx d
      = (d1, Inr (to_others s ps (DcRoundStart ch r s ps CHANNEL_ROUND_DEADLINE_SECS CHANNEL_PAYLOAD_LEN)))"
    and aw: "awaiting r ?c d1" and own: "rd_pending_round_id d1 = Some r" "\<not> rd_my_share_broadcast d1"
      "rd_my_share d1 = Some (?sh s, sign_share P (sk s) ch r (?sh s))"
    using initiate_idle [OF assms(4,5,7,8,10)] by blast
  obtain ts' u w where ts: "ts = ts' @ [(u, w)]"
    using assms(11) others_nonempty [OF assms(5,6)]
    by (metis append_butlast_last_id list.map_disc_iff mset_zero_iff_right surj_pair)
  have dl: "rc_deadline ?c = t + 30000"
    by (simp add: RoundCollector_new_def CHANNEL_ROUND_DEADLINE_SECS_def MAX_ROUND_DEADLINE_SECS_def)
  have fields: "rc_participants ?c = ps" "rc_payload_len ?c = CHANNEL_PAYLOAD_LEN"
    using assms(6) by (simp_all add: distinct_remdups_id CHANNEL_PAYLOAD_LEN_def)
  let ?c' = "?c\<lparr> rc_shares_received := rc_shares_received ?c @ map (\<lambda>(t, q). (q, ?sh q)) ts' \<rparr>"
  let ?c'' = "?c'\<lparr> rc_shares_received := rc_shares_received ?c' @ [(w, ?sh w)] \<rparr>"
  let ?c3 = "?c''\<lparr> rc_shares_received := rc_shares_received ?c'' @ [(s, ?sh s)] \<rparr>"
  let ?d = "d1\<lparr> rd_collectors := [(r, ?c')] \<rparr>"
  have step: "deliver P ?ctx (map ?m ts') d1 = (?d, [], []) \<and> awaiting r ?c' ?d \<and> collector_ok ?c'
      \<and> submit_share w (?sh w) ?c' = Inr ?c'' \<and> w \<noteq> s"
    by (rule deliver_all_but_last [OF assms(1-6,8)])
      (use assms(11,12) ts dl aw fields in \<open>auto simp: hkeys_def\<close>)
  have last: "missing_participants ?c'' = [s] \<and> submit_share s (?sh s) ?c'' = Inr ?c3 \<and> is_complete ?c3
      \<and> collected_text P ?c3 = Some tx"
    by (rule own_share_completes [OF assms(4-9,11) _ _ refl _ refl])
      (use fields in \<open>simp_all add: ts comp_def split_beta\<close>)
  have "act_extracted (snd (handle P u (member_share P ch r ps s tx sk ek w) ?ctx ?d)) =
        [\<lparr> em_channel = ch, em_text = tx, em_round_id = r \<rparr>]
      \<and> act_outgoing (snd (handle P u (member_share P ch r ps s tx sk ek w) ?ctx ?d)) =
        to_others (ctx_my_uid ?ctx) (rc_participants ?c')
          (DcRoundShare ch r (ctx_my_uid ?ctx) (?sh s) (sign_share P (sk s) ch r (?sh s)))
      \<and> rd_pending_message (fst (handle P u (member_share P ch r ps s tx sk ek w) ?ctx ?d)) = None"
    unfolding member_share_def Let_def
    using step own dl assms(12) last honest_share_accepted [OF assms(1-3)]
    by (intro handle_share_answers [where c = ?c' and c' = ?c'' and c'' = ?c3])
      (simp_all add: ts member_ctx_def)
  moreover have "to_others (ctx_my_uid ?ctx) (rc_participants ?c')
          (DcRoundShare ch r (ctx_my_uid ?ctx) (?sh s) (sign_share P (sk s) ch r (?sh s)))
      = to_others s ps (member_share P ch r ps s tx sk ek s)"
    using assms(6) by (simp add: member_ctx_def member_share_def Let_def distinct_remdups_id)
  ultimately show ?thesis
    using init step by (auto simp: ts deliver_append no_action_def Let_def split_beta)
qed

section \<open>Witnesses of the mesh round\<close>

definition demo_sk :: "uid \<Rightarrow> bytes" where
  "demo_sk u = str_bytes u"

definition demo_directory :: "(uid, string) hmap" where
  "demo_directory = [(''bob'', hex_encode (ed_public toy_prims (demo_sk ''bob'')))]"

lemma demo_setting:
  "directory_ok toy_prims demo_sk demo_directory" "idle_for 1 (RoundDriver_new 0)" "str_valid ''hi''"
  by (simp_all add: directory_ok_def demo_directory_def idle_for_def RoundDriver_new_def RoundTracker_new_def
      str_valid_def str_bytes_def utf8_valid_ascii)

theorem mesh_listener_delivers_witness:
  "\<exists>d1 d2. deliver toy_prims (member_ctx demo_sk demo_keys demo_directory ''carol'')
     (map (\<lambda>(t, q). (t, member_share toy_prims ''general'' 1 [''alice'', ''bob'', ''carol''] ''alice'' ''hi''
        demo_sk demo_keys q)) [(5, ''alice''), (9, ''bob'')]) d1
   = (d2, [\<lparr> em_channel = ''general'', em_text = ''hi'', em_round_id = 1 \<rparr>], [])"
proof -
  have "36 + length ''hi'' \<le> CHANNEL_PAYLOAD_LEN" by (simp add: CHANNEL_PAYLOAD_LEN_def)
  from mesh_listener_delivers [OF toy_sig toy_keys demo_setting(1) demo_edges _ _ _ this demo_setting(3) _ _
      demo_setting(2), of "''alice''" "''carol''" "[(5, ''alice''), (9, ''bob'')]" 0 "''general''"]
  show ?thesis by auto
qed

theorem mesh_initiator_delivers_witness:
  "\<exists>d1 d2. deliver toy_prims (member_ctx demo_sk demo_keys demo_directory ''alice'')
     (map (\<lambda>(t, q). (t, member_share toy_prims ''general'' 1 [''alice'', ''bob'', ''carol''] ''alice'' ''hi''
        demo_sk demo_keys q)) [(7, ''carol''), (8, ''bob'')]) d1
   = (d2, [\<lparr> em_channel = ''general'', em_text = ''hi'', em_round_id = 1 \<rparr>],
      to_others ''alice'' [''alice'', ''bob'', ''carol'']
        (member_share toy_prims ''general'' 1 [''alice'', ''bob'', ''carol''] ''alice'' ''hi'' demo_sk demo_keys ''alice''))"
proof -
  have "36 + length ''hi'' \<le> CHANNEL_PAYLOAD_LEN" by (simp add: CHANNEL_PAYLOAD_LEN_def)
  from mesh_initiator_delivers [OF toy_sig toy_keys demo_setting(1) demo_edges _ _ _ this demo_setting(3)
      demo_setting(2), of "''alice''" "[(7, ''carol''), (8, ''bob'')]" 0 "''general''"]
  show ?thesis by auto
qed

end
