(* ===== verification/Mesh.thy ===== *)
theory Mesh
  imports RoundDriver
begin

text \<open>
  The drivers of \<^verbatim>\<open>dcnet/round_driver.rs\<close> put together: one driver per member of a channel and the
  messages in flight between them. A run is a sequence of deliveries; several members may have
  started the same round at once. The theory shows what the module comment of the source promises, that
  the lowest initiator wins and the others repeat their messages, for every delivery order in which no share
  overtakes a start, and what is lost when one does.
\<close>

section \<open>The network\<close>

text \<open>The messages in flight carry their destination; the order of the list means nothing.\<close>
record mesh =
  ms_driver :: "uid \<Rightarrow> RoundDriver"
  ms_wire :: outgoing
  ms_texts :: "uid \<Rightarrow> ExtractedMessage list"

text \<open>A channel: its members and, for each of them, the signing key, the edge keys and the text it has to
  send.\<close>
record mesh_channel =
  mc_name :: string
  mc_members :: "uid list"
  mc_sk :: "uid \<Rightarrow> bytes"
  mc_ek :: "uid \<Rightarrow> (uid, bytes) hmap"
  mc_directory :: "(uid, string) hmap"
  mc_text :: "uid \<Rightarrow> string"

abbreviation mc_ctx :: "mesh_channel \<Rightarrow> uid \<Rightarrow> RoundContext" where
  "mc_ctx M \<equiv> member_ctx (mc_sk M) (mc_ek M) (mc_directory M)"

fun round_of :: "PeerMessage \<Rightarrow> u64 option" where
  "round_of (DcRoundStart ch r l ps dl n) = Some r"
| "round_of (DcRoundShare ch r u x sig) = Some r"
| "round_of _ = None"

fun is_start :: "PeerMessage \<Rightarrow> bool" where
  "is_start (DcRoundStart ch r l ps dl n) = True"
| "is_start _ = False"

text \<open>A delivery is in order when no message of an earlier round is in flight, and no start of the same round is
  on its way to the same member, unless it is such a start itself.\<close>
definition in_order :: "outgoing \<Rightarrow> uid \<times> PeerMessage \<Rightarrow> bool" where
  "in_order wire = (\<lambda>(p, m). case round_of m of None \<Rightarrow> False | Some r \<Rightarrow>
     list_all (\<lambda>(q, m'). case round_of m' of None \<Rightarrow> False | Some r' \<Rightarrow>
       r \<le> r' \<and> (q = p \<and> r' = r \<and> is_start m' \<longrightarrow> is_start m)) wire)"

text \<open>No round of the driver has passed its deadline.\<close>
definition timely :: "nat \<Rightarrow> RoundDriver \<Rightarrow> bool" where
  "timely t d \<longleftrightarrow> list_all (\<lambda>(_, c). \<not> is_expired t c) (rd_collectors d)"

definition mesh_deliver :: "prims \<Rightarrow> mesh_channel \<Rightarrow> nat \<Rightarrow> uid \<times> PeerMessage \<Rightarrow> mesh \<Rightarrow> mesh" where
  "mesh_deliver P M t e n = (let (p, m) = e; (d, a) = handle P t m (mc_ctx M p) (ms_driver n p) in
     n\<lparr> ms_driver := (ms_driver n)(p := d), ms_wire := remove1 e (ms_wire n) @ act_outgoing a,
        ms_texts := (ms_texts n)(p := ms_texts n p @ act_extracted a) \<rparr>)"

text \<open>A run: each delivery is of a message in flight, in order and in time.\<close>
definition may_deliver :: "nat \<Rightarrow> uid \<times> PeerMessage \<Rightarrow> mesh \<Rightarrow> bool" where
  "may_deliver t e n \<longleftrightarrow> List.member (ms_wire n) e \<and> in_order (ms_wire n) e \<and> timely t (ms_driver n (fst e))"

fun mesh_run :: "prims \<Rightarrow> mesh_channel \<Rightarrow> (nat \<times> uid \<times> PeerMessage) list \<Rightarrow> mesh \<Rightarrow> mesh option" where
  "mesh_run P M [] n = Some n"
| "mesh_run P M ((t, e) # es) n = (if may_deliver t e n then mesh_run P M es (mesh_deliver P M t e n) else None)"

text \<open>A member's user sends its text.\<close>
definition mesh_initiate :: "prims \<Rightarrow> mesh_channel \<Rightarrow> nat \<times> uid \<Rightarrow> mesh \<Rightarrow> mesh" where
  "mesh_initiate P M = (\<lambda>(t, p) n.
     case initiate P t (mc_name M) (mc_text M p) (mc_members M) (mc_ctx M p) (ms_driver n p) of
       (d, Inl _) \<Rightarrow> n\<lparr> ms_driver := (ms_driver n)(p := d) \<rparr>
     | (d, Inr out) \<Rightarrow> n\<lparr> ms_driver := (ms_driver n)(p := d), ms_wire := ms_wire n @ out \<rparr>)"

definition channel_ok :: "prims \<Rightarrow> (uid set \<Rightarrow> bytes) \<Rightarrow> mesh_channel \<Rightarrow> bool" where
  "channel_ok P key M \<longleftrightarrow> sig_law P \<and> keys_law P \<and> directory_ok P (mc_sk M) (mc_directory M)
     \<and> edges_agree key (mc_ek M) (mc_members M) \<and> 2 \<le> length (mc_members M) \<and> distinct (mc_members M)
     \<and> (\<forall>p \<in> set (mc_members M). 36 + length (mc_text M p) \<le> CHANNEL_PAYLOAD_LEN \<and> str_valid (mc_text M p))"

section \<open>The states of one member\<close>

abbreviation mc_start :: "mesh_channel \<Rightarrow> u64 \<Rightarrow> uid \<Rightarrow> PeerMessage" where
  "mc_start M r i \<equiv> DcRoundStart (mc_name M) r i (mc_members M) CHANNEL_ROUND_DEADLINE_SECS CHANNEL_PAYLOAD_LEN"

abbreviation mc_payload :: "prims \<Rightarrow> mesh_channel \<Rightarrow> u64 \<Rightarrow> uid \<Rightarrow> uid \<Rightarrow> bytes" where
  "mc_payload P M r s q \<equiv>
     the (round_share P r (mc_members M) s (str_bytes (mc_text M s)) CHANNEL_PAYLOAD_LEN (mc_ek M) q)"

text \<open>The share of member \<open>q\<close> in round \<open>r\<close> when \<open>s\<close> is the one who sends.\<close>
abbreviation mc_share :: "prims \<Rightarrow> mesh_channel \<Rightarrow> u64 \<Rightarrow> uid \<Rightarrow> uid \<Rightarrow> PeerMessage" where
  "mc_share P M r s q \<equiv> DcRoundShare (mc_name M) r q (mc_payload P M r s q)
     (sign_share P (mc_sk M q) (mc_name M) r (mc_payload P M r s q))"

definition mc_collector :: "prims \<Rightarrow> mesh_channel \<Rightarrow> u64 \<Rightarrow> uid \<Rightarrow> nat \<Rightarrow> uid list \<Rightarrow> RoundCollector" where
  "mc_collector P M r s t us =
     (RoundCollector_new t (mc_name M) r (mc_members M) CHANNEL_ROUND_DEADLINE_SECS CHANNEL_PAYLOAD_LEN)
       \<lparr> rc_shares_received := map (\<lambda>q. (q, mc_payload P M r s q)) us \<rparr>"

text \<open>Nothing in flight; the next round is \<open>r\<close>.\<close>
definition resting :: "u64 \<Rightarrow> RoundDriver \<Rightarrow> bool" where
  "resting r d \<longleftrightarrow> idle_for r d \<and> (\<forall>e \<in> set (rd_emitted d). e < r)"

text \<open>Collecting round \<open>r\<close> with the shares of \<open>us\<close> in hand.\<close>
definition collecting :: "prims \<Rightarrow> mesh_channel \<Rightarrow> u64 \<Rightarrow> uid \<Rightarrow> uid list \<Rightarrow> RoundDriver \<Rightarrow> bool" where
  "collecting P M r s us d \<longleftrightarrow> (\<exists>t. rd_collectors d = [(r, mc_collector P M r s t us)]) \<and> rd_pending_outgoing d = []
     \<and> rt_current_round_id (rd_tracker d) = r \<and> (\<forall>e \<in> set (rd_emitted d). e < r)"

text \<open>As the initiator, its own share withheld.\<close>
definition offering :: "prims \<Rightarrow> mesh_channel \<Rightarrow> u64 \<Rightarrow> uid \<Rightarrow> uid \<Rightarrow> uid list \<Rightarrow> RoundDriver \<Rightarrow> bool" where
  "offering P M r s p us d \<longleftrightarrow> collecting P M r s us d \<and> rd_pending_round_id d = Some r
     \<and> rd_pending_message d = Some (str_bytes (mc_text M p)) \<and> \<not> rd_my_share_broadcast d
     \<and> rd_my_share d = Some (mc_payload P M r p p, sign_share P (mc_sk M p) (mc_name M) r (mc_payload P M r p p))
     \<and> rd_retry_after_peer d = None \<and> rd_retries d = 0"

text \<open>As a listener; \<open>lost\<close> when it had initiated the round itself and given way.\<close>
definition listening :: "prims \<Rightarrow> mesh_channel \<Rightarrow> u64 \<Rightarrow> uid \<Rightarrow> uid \<Rightarrow> bool \<Rightarrow> uid list \<Rightarrow> RoundDriver \<Rightarrow> bool" where
  "listening P M r s p lost us d \<longleftrightarrow> collecting P M r s us d \<and> rd_pending_round_id d = None
     \<and> (if lost then rd_retry_after_peer d = Some r \<and> rd_retries d = 0
          \<and> rd_pending_message d = Some (str_bytes (mc_text M p))
        else rd_retry_after_peer d = None)"

section \<open>What each delivery does to a member\<close>

lemma mc_collector_fields [simp]:
  "distinct (mc_members M) \<Longrightarrow> rc_participants (mc_collector P M r s t us) = mc_members M"
  "rc_payload_len (mc_collector P M r s t us) = CHANNEL_PAYLOAD_LEN"
  "rc_shares_received (mc_collector P M r s t us) = map (\<lambda>q. (q, mc_payload P M r s q)) us"
  "rc_channel (mc_collector P M r s t us) = mc_name M"
  by (simp_all add: mc_collector_def distinct_remdups_id CHANNEL_PAYLOAD_LEN_def)

lemma mc_collector_new:
  "RoundCollector_new t (mc_name M) r (mc_members M) CHANNEL_ROUND_DEADLINE_SECS CHANNEL_PAYLOAD_LEN
     = mc_collector P M r s t []"
  by (simp add: mc_collector_def RoundCollector_new_def)

lemma mc_collector_Nil: "mc_collector P M r s t [] = mc_collector P M r s' t []"
  by (simp add: mc_collector_def)

lemma offering_Nil: "offering P M r s p [] d = offering P M r s' p [] d"
  using mc_collector_Nil [of P M r s _ s'] by (simp add: offering_def collecting_def)

lemma channel_payload:
  assumes "channel_ok P key M" and "s \<in> set (mc_members M)" and "q \<in> set (mc_members M)"
  shows "length (mc_payload P M r s q) = CHANNEL_PAYLOAD_LEN"
    and "compute_xor_share_secure P r q (mc_members M) (if q = s then Some (str_bytes (mc_text M s)) else None)
      CHANNEL_PAYLOAD_LEN (mc_ek M q) = Some (mc_payload P M r s q)"
proof -
  have ok: "edges_agree key (mc_ek M) (mc_members M)" "2 \<le> length (mc_members M)"
    "36 + length (mc_text M s) \<le> CHANNEL_PAYLOAD_LEN"
    using assms by (auto simp: channel_ok_def)
  obtain padded where pad: "pad_message P (str_bytes (mc_text M s)) CHANNEL_PAYLOAD_LEN = Some padded"
    using pad_message_fits [of "str_bytes (mc_text M s)" CHANNEL_PAYLOAD_LEN P] ok(3) by auto
  show "length (mc_payload P M r s q) = CHANNEL_PAYLOAD_LEN"
    by (rule length_round_share [OF ok(1,2) assms(3) pad])
  show "compute_xor_share_secure P r q (mc_members M) (if q = s then Some (str_bytes (mc_text M s)) else None)
      CHANNEL_PAYLOAD_LEN (mc_ek M q) = Some (mc_payload P M r s q)"
    using round_share_closed [OF ok(1,2) assms(3) pad, of r s] unfolding round_share_def by simp
qed

lemma mc_collector_snoc:
  "(mc_collector P M r s t us)\<lparr> rc_shares_received := map (\<lambda>q. (q, mc_payload P M r s q)) us @ [(q, mc_payload P M r s q)] \<rparr>
     = mc_collector P M r s t (us @ [q])"
  by (simp add: mc_collector_def)

lemma mc_submit:
  assumes "channel_ok P key M" and "s \<in> set (mc_members M)" and "q \<in> set (mc_members M)" and "q \<notin> set us"
  shows "submit_share q (mc_payload P M r s q) (mc_collector P M r s t us) = Inr (mc_collector P M r s t (us @ [q]))"
proof -
  have "distinct (mc_members M)" using assms(1) by (simp add: channel_ok_def)
  with assms show ?thesis
    by (simp add: submit_share_Inr_iff mc_collector_snoc has_key_iff hkeys_def channel_payload(1) comp_def)
qed

lemma mc_missing:
  "distinct (mc_members M) \<Longrightarrow>
   missing_participants (mc_collector P M r s t us) = filter (\<lambda>p. p \<notin> set us) (mc_members M)"
  by (simp add: missing_participants_def has_key_iff hkeys_def comp_def)

lemma mc_complete:
  assumes "distinct (mc_members M)" and "distinct us" and "set us \<subseteq> set (mc_members M)"
  shows "is_complete (mc_collector P M r s t us) \<longleftrightarrow> set us = set (mc_members M)"
proof -
  have "is_complete (mc_collector P M r s t us) \<longleftrightarrow> card (set us) \<ge> card (set (mc_members M))"
    using assms(1,2) by (simp add: is_complete_def distinct_card)
  then show ?thesis using card_seteq [OF _ assms(3)] by auto
qed

lemma mc_collected:
  assumes "channel_ok P key M" and "s \<in> set (mc_members M)" and "distinct us" and "set us = set (mc_members M)"
  shows "is_complete (mc_collector P M r s t us) \<and> collected_text P (mc_collector P M r s t us) = Some (mc_text M s)"
proof -
  have "mset us = mset (mc_members M)"
    using assms by (simp add: channel_ok_def set_eq_iff_mset_eq_distinct)
  with assms(1,2) show ?thesis
    by (intro collected_by [where key = key and ek = "mc_ek M" and ps = "mc_members M" and us = us and r = r])
      (auto simp: channel_ok_def)
qed

lemma drop_expired_timely [simp]: "timely t d \<Longrightarrow> drop_expired P t ctx d = d"
proof -
  assume "timely t d"
  then have "filter (\<lambda>(_, c). is_expired t c) (rd_collectors d) = []"
    by (auto simp: timely_def list_all_iff filter_empty_conv)
  then show ?thesis by (simp add: drop_expired_def)
qed

lemma member_ctx_fields [simp]:
  "ctx_my_uid (member_ctx sk ek kk p) = p" "ctx_signing_key (member_ctx sk ek kk p) = sk p"
  "ctx_edge_keys (member_ctx sk ek kk p) = ek p" "ctx_known_keys (member_ctx sk ek kk p) = kk"
  by (simp_all add: member_ctx_def)

lemma mc_share_accepted [simp]:
  "channel_ok P key M \<Longrightarrow> \<not> share_refused P (mc_ctx M p) (mc_name M) r q x (sign_share P (mc_sk M q) (mc_name M) r x)"
  by (rule honest_share_accepted) (simp_all add: channel_ok_def)

text \<open>A share that leaves another one missing is filed.\<close>
lemma share_waits:
  assumes "channel_ok P key M" and "s \<in> set (mc_members M)" and "q \<in> set (mc_members M)"
    and "distinct (us @ [q])" and "set us \<subseteq> set (mc_members M)"
    and "w \<in> set (mc_members M) - set (us @ [q])" and "rd_pending_round_id d = Some r \<longrightarrow> w \<noteq> p"
    and "collecting P M r s us d" and "timely t d"
  shows "\<exists>cs. handle P t (mc_share P M r s q) (mc_ctx M p) d = (d\<lparr> rd_collectors := cs \<rparr>, no_action)
    \<and> collecting P M r s (us @ [q]) (d\<lparr> rd_collectors := cs \<rparr>)"
proof -
  obtain t0 where c: "rd_collectors d = [(r, mc_collector P M r s t0 us)]" using assms(8) by (auto simp: collecting_def)
  let ?c = "mc_collector P M r s t0 (us @ [q])"
  let ?d = "d\<lparr> rd_collectors := [(r, ?c)] \<rparr>"
  have dist: "distinct (mc_members M)" using assms(1) by (simp add: channel_ok_def)
  have sub: "submit_share q (mc_payload P M r s q) (mc_collector P M r s t0 us) = Inr ?c"
    by (rule mc_submit [OF assms(1-3)]) (use assms(4) in simp)
  have "w \<in> set (missing_participants ?c)" using assms(6) by (simp add: mc_missing [OF dist])
  then have "broadcast_last (mc_name M) r (mc_ctx M p) ?c d = (?c, rd_my_share_broadcast d, no_action)"
    using assms(7) by (auto simp: broadcast_last_def Let_def)
  moreover have "\<not> is_complete ?c" using mc_complete [OF dist, of "us @ [q]"] assms(3-6) by auto
  ultimately have "on_round_share P t (mc_name M) r q (mc_payload P M r s q)
      (sign_share P (mc_sk M q) (mc_name M) r (mc_payload P M r s q)) (mc_ctx M p) d = (?d, no_action)"
    using assms(1) sub c by (simp add: on_round_share_def)
  then have "handle P t (mc_share P M r s q) (mc_ctx M p) d = (?d, no_action)"
    using assms(8,9) by (simp add: handle_def no_action_def collecting_def)
  moreover have "collecting P M r s (us @ [q]) ?d" using assms(8) by (auto simp: collecting_def)
  ultimately show ?thesis by blast
qed

definition mc_extracted :: "mesh_channel \<Rightarrow> u64 \<Rightarrow> uid \<Rightarrow> ExtractedMessage" where
  "mc_extracted M r s = \<lparr> em_channel = mc_name M, em_text = mc_text M s, em_round_id = r \<rparr>"

text \<open>The last share, at the initiator: only its own was missing.\<close>
lemma share_answers:
  assumes "channel_ok P key M" and "s \<in> set (mc_members M)" and "q \<in> set (mc_members M)"
    and "distinct (us @ [q])" and "set (us @ [q]) = set (mc_members M) - {s}"
    and "offering P M r s s us d" and "timely t d" and "r < r + 1"
  shows "\<exists>d'. handle P t (mc_share P M r s q) (mc_ctx M s) d =
      (d', \<lparr> act_extracted = [mc_extracted M r s], act_outgoing = to_others s (mc_members M) (mc_share P M r s s) \<rparr>)
    \<and> resting (r + 1) d'"
proof -
  obtain t0 where c: "rd_collectors d = [(r, mc_collector P M r s t0 us)]"
    using assms(6) by (auto simp: offering_def collecting_def)
  have dist: "distinct (mc_members M)" using assms(1) by (simp add: channel_ok_def)
  let ?c1 = "mc_collector P M r s t0 (us @ [q])" and ?c2 = "mc_collector P M r s t0 (us @ [q] @ [s])"
  have sub: "submit_share q (mc_payload P M r s q) (mc_collector P M r s t0 us) = Inr ?c1"
    by (rule mc_submit [OF assms(1-3)]) (use assms(4) in simp)
  have own: "submit_share s (mc_payload P M r s s) ?c1 = Inr ?c2"
    using mc_submit [OF assms(1,2,2), of "us @ [q]"] assms(5) by auto
  have "missing_participants ?c1 = [s]"
    by (rule missing_only_one [OF dist assms(2)]) (use dist assms(5) in \<open>simp_all add: hkeys_def comp_def, auto\<close>)
  then have last: "broadcast_last (mc_name M) r (mc_ctx M s) ?c1 d =
      (?c2, True, no_action\<lparr> act_outgoing := to_others s (mc_members M) (mc_share P M r s s) \<rparr>)"
    using assms(6) own dist by (simp add: broadcast_last_def Let_def offering_def build_round_share_def)
  have us: "distinct (us @ [q] @ [s])" "set (us @ [q] @ [s]) = set (mc_members M)" using assms(2,4,5) by auto
  from last sub c mc_collected [OF assms(1,2) us] assms(1,6-8) show ?thesis
    by (auto simp: handle_def on_round_share_def complete_round_def emit_collected_def settle_own_def settle_lost_def
        no_action_def Let_def mc_extracted_def offering_def collecting_def resting_def idle_for_def)
qed

text \<open>The last share, at a listener: the text is extracted and the round forgotten before a lost message is
  taken up again.\<close>
lemma share_last:
  assumes "channel_ok P key M" and "s \<in> set (mc_members M)" and "q \<in> set (mc_members M)"
    and "distinct (us @ [q])" and "set (us @ [q]) = set (mc_members M)"
    and "listening P M r s p lost us d"
  defines "d1 \<equiv> d\<lparr> rd_emitted := rd_emitted d @ [r], rd_collectors := [] \<rparr>"
  shows "on_round_share P t (mc_name M) r q (mc_payload P M r s q)
      (sign_share P (mc_sk M q) (mc_name M) r (mc_payload P M r s q)) (mc_ctx M p) d =
    (settle_lost P t (mc_name M) r (mc_members M) (mc_ctx M p) d1, no_action\<lparr> act_extracted := [mc_extracted M r s] \<rparr>)"
proof -
  obtain t0 where c: "rd_collectors d = [(r, mc_collector P M r s t0 us)]"
    using assms(6) by (auto simp: listening_def collecting_def)
  have dist: "distinct (mc_members M)" using assms(1) by (simp add: channel_ok_def)
  let ?c = "mc_collector P M r s t0 (us @ [q])"
  have sub: "submit_share q (mc_payload P M r s q) (mc_collector P M r s t0 us) = Inr ?c"
    by (rule mc_submit [OF assms(1-3)]) (use assms(4) in simp)
  have last: "broadcast_last (mc_name M) r (mc_ctx M p) ?c d = (?c, rd_my_share_broadcast d, no_action)"
    using assms(6) by (simp add: broadcast_last_def listening_def)
  have "r \<notin> set (rd_emitted d)" using assms(6) by (auto simp: listening_def collecting_def)
  with last sub c mc_collected [OF assms(1,2,4,5)] assms(1,6) show ?thesis
    by (simp add: d1_def on_round_share_def complete_round_def emit_collected_def settle_own_def
        no_action_def Let_def mc_extracted_def dist listening_def)
qed

lemma share_ends:
  assumes "channel_ok P key M" and "s \<in> set (mc_members M)" and "q \<in> set (mc_members M)"
    and "distinct (us @ [q])" and "set (us @ [q]) = set (mc_members M)"
    and "listening P M r s p False us d" and "timely t d" and "r < r + 1"
  shows "\<exists>d'. handle P t (mc_share P M r s q) (mc_ctx M p) d =
      (d', \<lparr> act_extracted = [mc_extracted M r s], act_outgoing = [] \<rparr>) \<and> resting (r + 1) d'"
  using share_last [OF assms(1-6)] assms(6-8)
  by (auto simp: handle_def settle_lost_def no_action_def listening_def collecting_def resting_def idle_for_def)

text \<open>A driver without open rounds initiates the next one.\<close>
lemma initiate_offers:
  assumes "channel_ok P key M" and "p \<in> set (mc_members M)" and "rd_collectors d = []" and "rd_retry_after_peer d = None"
    and "rt_current_round_id (rd_tracker d) + 1 = r" and "\<forall>e \<in> set (rd_emitted d). e < r"
  shows "\<exists>d'. initiate P t (mc_name M) (mc_text M p) (mc_members M) (mc_ctx M p) d =
      (d', Inr (to_others p (mc_members M) (mc_start M r p)))
    \<and> offering P M r s p [] (d'\<lparr> rd_pending_outgoing := [] \<rparr>) \<and> rd_pending_outgoing d' = rd_pending_outgoing d"
proof -
  have "36 + length (mc_text M p) \<le> CHANNEL_PAYLOAD_LEN" "2 \<le> length (mc_members M)"
    using assms(1,2) by (auto simp: channel_ok_def)
  then show ?thesis
    using channel_payload(2) [OF assms(1,2,2), of r] assms(2-6)
    by (auto simp: initiate_def list_ex_iff next_round_def Let_def offering_def collecting_def build_round_start_def
        mc_collector_new [of t M r P s])
qed

lemma share_ends_lost:
  assumes "channel_ok P key M" and "s \<in> set (mc_members M)" and "q \<in> set (mc_members M)" and "p \<in> set (mc_members M)"
    and "distinct (us @ [q])" and "set (us @ [q]) = set (mc_members M)"
    and "listening P M r s p True us d" and "timely t d" and "r < r + 1"
  shows "\<exists>d'. handle P t (mc_share P M r s q) (mc_ctx M p) d =
      (d', \<lparr> act_extracted = [mc_extracted M r s], act_outgoing = to_others p (mc_members M) (mc_start M (r + 1) p) \<rparr>)
    \<and> offering P M (r + 1) s' p [] d'"
proof -
  let ?d = "d\<lparr> rd_emitted := rd_emitted d @ [r], rd_collectors := [], rd_retry_after_peer := None, rd_retries := 1 \<rparr>"
  have "str_valid (mc_text M p)" using assms(1,4) by (simp add: channel_ok_def)
  moreover have "\<forall>e \<in> set (rd_emitted ?d). e < r + 1"
    using assms(7,9) by (auto simp: listening_def collecting_def)
  then obtain d' where "initiate P t (mc_name M) (mc_text M p) (mc_members M) (mc_ctx M p) ?d =
      (d', Inr (to_others p (mc_members M) (mc_start M (r + 1) p)))"
    "offering P M (r + 1) s' p [] (d'\<lparr> rd_pending_outgoing := [] \<rparr>)" "rd_pending_outgoing d' = rd_pending_outgoing ?d"
    using initiate_offers [OF assms(1,4), of ?d "r + 1" t s'] assms(7) by (auto simp: listening_def collecting_def)
  ultimately have "settle_lost P t (mc_name M) r (mc_members M) (mc_ctx M p)
      (d\<lparr> rd_emitted := rd_emitted d @ [r], rd_collectors := [] \<rparr>)
      = d'\<lparr> rd_pending_outgoing := to_others p (mc_members M) (mc_start M (r + 1) p) \<rparr>
    \<and> offering P M (r + 1) s' p [] (d'\<lparr> rd_pending_outgoing := [] \<rparr>)"
    using assms(7) by (simp add: settle_lost_def retry_pending_def listening_def collecting_def MAX_CONFLICT_RETRIES_def Let_def)
  then show ?thesis
    using share_last [OF assms(1-3,5-7)] assms(8) by (simp add: handle_def no_action_def)
qed

text \<open>What a member that joins the round adds to it.\<close>
lemma neutral_share:
  assumes "channel_ok P key M" and "s \<in> set (mc_members M)" and "p \<in> set (mc_members M)" and "p \<noteq> s"
  shows "compute_xor_share_secure P r p (mc_members M) None CHANNEL_PAYLOAD_LEN (mc_ek M p) = Some (mc_payload P M r s p)"
    and "submit_share p (mc_payload P M r s p)
      (RoundCollector_new t (mc_name M) r (mc_members M) CHANNEL_ROUND_DEADLINE_SECS CHANNEL_PAYLOAD_LEN)
      = Inr (mc_collector P M r s t [p])"
proof -
  show "compute_xor_share_secure P r p (mc_members M) None CHANNEL_PAYLOAD_LEN (mc_ek M p) = Some (mc_payload P M r s p)"
    using channel_payload(2) [OF assms(1-3), of r] assms(4) by simp
  show "submit_share p (mc_payload P M r s p)
      (RoundCollector_new t (mc_name M) r (mc_members M) CHANNEL_ROUND_DEADLINE_SECS CHANNEL_PAYLOAD_LEN)
      = Inr (mc_collector P M r s t [p])"
    using mc_submit [OF assms(1-3), of "[]"] by (simp add: mc_collector_new [of t M r P s])
qed

text \<open>A start, at a member that has no part in the round yet.\<close>
lemma start_rests:
  assumes "channel_ok P key M" and "s \<in> set (mc_members M)" and "p \<in> set (mc_members M)" and "p \<noteq> s"
    and "resting r d"
  shows "\<exists>d'. handle P t (mc_start M r i) (mc_ctx M p) d =
      (d', \<lparr> act_extracted = [], act_outgoing = to_others p (mc_members M) (mc_share P M r s p) \<rparr>)
    \<and> listening P M r s p False [p] d'"
  using assms(3,5) neutral_share [OF assms(1-4)]
  by (auto simp: handle_def drop_expired_def on_round_start_def mark_seen_def list_ex_iff Let_def resting_def idle_for_def
      build_round_share_def no_action_def listening_def collecting_def)

text \<open>A start of a lower member, at an initiator: it gives way, and the shares it had received are gone.\<close>
lemma start_yields:
  assumes "channel_ok P key M" and "s \<in> set (mc_members M)" and "p \<in> set (mc_members M)" and "p \<noteq> s"
    and "offering P M r s p us d" and "timely t d" and "i < p"
  shows "\<exists>d'. handle P t (mc_start M r i) (mc_ctx M p) d =
      (d', \<lparr> act_extracted = [], act_outgoing = to_others p (mc_members M) (mc_share P M r s p) \<rparr>)
    \<and> listening P M r s p True [p] d'"
proof -
  have "\<not> r = r + 1" by simp
  with assms(3,5-7) neutral_share [OF assms(1-4)] show ?thesis
  by (auto simp: handle_def on_round_start_def mark_seen_def list_ex_iff Let_def offering_def abort_pending_round_def
      build_round_share_def no_action_def listening_def collecting_def)
qed

text \<open>Any other start of the round changes nothing.\<close>
lemma start_ignored:
  assumes "collecting P M r s us d" and "timely t d" and "rd_pending_round_id d \<noteq> None \<longrightarrow> \<not> i < p"
  shows "handle P t (mc_start M r i) (mc_ctx M p) d = (d, no_action)"
  using assms by (auto simp: handle_def on_round_start_def mark_seen_def collecting_def no_action_def Let_def)

section \<open>The state of a round\<close>

text \<open>A round \<open>r\<close> that the members of \<open>I\<close> have initiated and that \<open>s\<close>, the lowest of them, will win is
  described by two things: the starts that have not arrived, as pairs of sender and destination, and the
  members whose shares each member has received, in order of arrival.\<close>

abbreviation others :: "mesh_channel \<Rightarrow> uid \<Rightarrow> uid set" where
  "others M p \<equiv> set (mc_members M) - {p}"

text \<open>A start has arrived that makes the member send its neutral share.\<close>
definition joined :: "uid set \<Rightarrow> (uid \<times> uid) set \<Rightarrow> uid \<Rightarrow> bool" where
  "joined I S p \<longleftrightarrow> (\<exists>i \<in> I. i \<noteq> p \<and> (i, p) \<notin> S \<and> (p \<in> I \<longrightarrow> i < p))"

definition has_sent :: "mesh_channel \<Rightarrow> uid \<Rightarrow> uid set \<Rightarrow> (uid \<times> uid) set \<Rightarrow> (uid \<Rightarrow> uid list) \<Rightarrow> uid \<Rightarrow> bool" where
  "has_sent M s I S G p \<longleftrightarrow> joined I S p \<or> p = s \<and> set (G p) = others M p"

definition member_phase :: "prims \<Rightarrow> mesh_channel \<Rightarrow> u64 \<Rightarrow> uid \<Rightarrow> uid set \<Rightarrow> (uid \<times> uid) set \<Rightarrow> uid list \<Rightarrow> uid \<Rightarrow> RoundDriver \<Rightarrow> bool" where
  "member_phase P M r s I S us p d \<longleftrightarrow>
     (if p = s then if set us = others M p then resting (r + 1) d else offering P M r s p us d
      else if \<not> joined I S p then if p \<in> I then offering P M r s p [] d else resting r d
      else if set us = others M p then if p \<in> I then offering P M (r + 1) s p [] d else resting (r + 1) d
      else listening P M r s p (p \<in> I) (p # us) d)"

definition contest :: "mesh_channel \<Rightarrow> uid \<Rightarrow> uid set \<Rightarrow> bool" where
  "contest M s I \<longleftrightarrow> s \<in> I \<and> I \<subseteq> set (mc_members M) \<and> (\<forall>i \<in> I. s \<le> i)"

lemma others_not_Nil: "channel_ok P key M \<Longrightarrow> others M p \<noteq> {}"
  using others_nonempty [of "mc_members M" p] by (auto simp: channel_ok_def filter_empty_conv)

lemma winner_not_joined: "contest M s I \<Longrightarrow> \<not> joined I S s"
  by (auto simp: contest_def joined_def)

lemma joined_other: "q \<noteq> p \<Longrightarrow> joined I (S - {(i, p)}) q = joined I S q"
  by (auto simp: joined_def)

lemma joined_mono: "joined I S p \<Longrightarrow> joined I (S - {e}) p"
  by (auto simp: joined_def)

lemma joined_by: "i \<in> I \<Longrightarrow> i \<noteq> p \<Longrightarrow> p \<in> I \<longrightarrow> i < p \<Longrightarrow> joined I (S - {(i, p)}) p"
  by (auto simp: joined_def)

lemma not_joined_by: "\<not> joined I S p \<Longrightarrow> p \<in> I \<Longrightarrow> \<not> i < p \<Longrightarrow> \<not> joined I (S - {(i, p)}) p"
  by (auto simp: joined_def)

lemma all_joined: "contest M s I \<Longrightarrow> \<forall>i. (i, p) \<notin> S \<Longrightarrow> p \<noteq> s \<Longrightarrow> joined I S p"
  unfolding joined_def contest_def by (auto intro!: bexI [of _ s] order.not_eq_order_implies_strict)

text \<open>The two kinds of delivery, at one member.\<close>
lemma member_start:
  assumes "channel_ok P key M" and "contest M s I" and "p \<in> set (mc_members M)" and "i \<in> I" and "i \<noteq> p"
    and "member_phase P M r s I S [] p d" and "timely t d"
  shows "\<exists>d'. handle P t (mc_start M r i) (mc_ctx M p) d = (d', \<lparr> act_extracted = [], act_outgoing =
      if joined I S p \<or> \<not> joined I (S - {(i, p)}) p then [] else to_others p (mc_members M) (mc_share P M r s p) \<rparr>)
    \<and> member_phase P M r s I (S - {(i, p)}) [] p d'"
proof -
  have s: "s \<in> set (mc_members M)" "\<not> i < s" using assms(2,4) by (auto simp: contest_def)
  note ph = assms(6) [unfolded member_phase_def] and ne = others_not_Nil [OF assms(1), of p]
  consider (winner) "p = s" | (in_it) "p \<noteq> s" "joined I S p" | (rest) "p \<noteq> s" "\<not> joined I S p" "p \<notin> I"
    | (yield) "p \<noteq> s" "\<not> joined I S p" "p \<in> I" "i < p" | (keep) "p \<noteq> s" "\<not> joined I S p" "p \<in> I" "\<not> i < p" by blast
  then show ?thesis
  proof cases
    case winner
    then have "offering P M r s p [] d" using ph ne by (simp split: if_splits)
    with winner s(2) assms(7) start_ignored [of P M r s "[]" d t i p] ne show ?thesis
      by (simp add: offering_def member_phase_def no_action_def winner_not_joined [OF assms(2)])
  next
    case in_it
    then have "listening P M r s p (p \<in> I) [p] d" using ph ne by (simp split: if_splits)
    with in_it assms(7) start_ignored [of P M r s "[p]" d t i p] joined_mono [OF in_it(2)] ne show ?thesis
      by (auto simp: listening_def member_phase_def no_action_def)
  next
    case rest
    then have "resting r d" using ph by simp
    from start_rests [OF assms(1) s(1) assms(3) rest(1) this] joined_by [OF assms(4,5)] rest ne show ?thesis
      by (auto simp: member_phase_def)
  next
    case yield
    then have "offering P M r s p [] d" using ph by simp
    from start_yields [OF assms(1) s(1) assms(3) yield(1) this assms(7) yield(4)] joined_by [OF assms(4,5)] yield ne
    show ?thesis by (auto simp: member_phase_def)
  next
    case keep
    then have "offering P M r s p [] d" using ph by simp
    with keep assms(7) start_ignored [of P M r s "[]" d t i p] not_joined_by [OF keep(2-4)] show ?thesis
      by (simp add: offering_def member_phase_def no_action_def)
  qed
qed

lemma member_receives_last:
  assumes "channel_ok P key M" and "contest M s I" and "p \<in> set (mc_members M)" and "q \<in> set (mc_members M)" and "q \<noteq> p"
    and "distinct (us @ [q])" and "set (us @ [q]) = others M p" and "\<forall>i. (i, p) \<notin> S"
    and "member_phase P M r s I S us p d" and "timely t d" and "r < r + 1"
  shows "\<exists>d'. handle P t (mc_share P M r s q) (mc_ctx M p) d = (d', \<lparr> act_extracted = [mc_extracted M r s], act_outgoing =
        if p = s then to_others s (mc_members M) (mc_share P M r s s)
        else if p \<in> I then to_others p (mc_members M) (mc_start M (r + 1) p) else [] \<rparr>)
    \<and> member_phase P M r s I S (us @ [q]) p d'"
proof -
  have s: "s \<in> set (mc_members M)" using assms(2) by (auto simp: contest_def)
  have us: "distinct ((p # us) @ [q])" "set ((p # us) @ [q]) = set (mc_members M)" "set us \<noteq> others M p"
    using assms(3-7) by auto
  note ph = assms(9) [unfolded member_phase_def]
  consider (winner) "p = s" | (lost) "p \<noteq> s" "p \<in> I" | (listener) "p \<noteq> s" "p \<notin> I" by blast
  then show ?thesis
  proof cases
    case winner
    then have "offering P M r s s us d" using ph us(3) by simp
    from share_answers [OF assms(1) s assms(4,6) _ this assms(10,11)] assms(7) winner show ?thesis
      by (auto simp: member_phase_def)
  next
    case lost
    have j: "joined I S p" by (rule all_joined [OF assms(2,8) lost(1)])
    with ph lost us(3) have "listening P M r s p True (p # us) d" by simp
    from share_ends_lost [OF assms(1) s assms(4,3) us(1,2) this assms(10,11)] lost j assms(7)
    show ?thesis by (auto simp: member_phase_def)
  next
    case listener
    have j: "joined I S p" by (rule all_joined [OF assms(2,8) listener(1)])
    with ph listener us(3) have "listening P M r s p False (p # us) d" by simp
    from share_ends [OF assms(1) s assms(4) us(1,2) this assms(10,11)] listener j assms(7)
    show ?thesis by (auto simp: member_phase_def)
  qed
qed

lemma member_receives_more:
  assumes "channel_ok P key M" and "contest M s I" and "p \<in> set (mc_members M)" and "q \<in> set (mc_members M)" and "q \<noteq> p"
    and "distinct (us @ [q])" and "set us \<subseteq> others M p" and "set (us @ [q]) \<noteq> others M p" and "\<forall>i. (i, p) \<notin> S"
    and "member_phase P M r s I S us p d" and "timely t d"
  shows "\<exists>d'. handle P t (mc_share P M r s q) (mc_ctx M p) d = (d', no_action) \<and> member_phase P M r s I S (us @ [q]) p d'"
proof -
  have s: "s \<in> set (mc_members M)" using assms(2) by (auto simp: contest_def)
  obtain w where w: "w \<in> others M p" "w \<notin> set (us @ [q])" using assms(4,5,7,8) by auto
  then have not_all: "set us \<noteq> others M p" by auto
  show ?thesis
  proof (cases "p = s")
    case True
    with assms(10) not_all have d: "offering P M r s s us d" by (simp add: member_phase_def)
    then have "collecting P M r s us d" by (simp add: offering_def)
    with w assms(7,11) True obtain cs where "handle P t (mc_share P M r s q) (mc_ctx M s) d = (d\<lparr> rd_collectors := cs \<rparr>, no_action)"
      "collecting P M r s (us @ [q]) (d\<lparr> rd_collectors := cs \<rparr>)"
      using share_waits [OF assms(1) s assms(4,6), of w d r s t] by auto
    with True d assms(8) show ?thesis by (simp add: member_phase_def offering_def)
  next
    case False
    have "joined I S p" by (rule all_joined [OF assms(2,9) False])
    with assms(10) not_all False have d: "listening P M r s p (p \<in> I) (p # us) d" by (simp add: member_phase_def)
    then have "collecting P M r s (p # us) d" by (simp add: listening_def)
    with w assms(3,5-7,11) obtain cs where "handle P t (mc_share P M r s q) (mc_ctx M p) d = (d\<lparr> rd_collectors := cs \<rparr>, no_action)"
      "collecting P M r s (p # us @ [q]) (d\<lparr> rd_collectors := cs \<rparr>)"
      using share_waits [OF assms(1) s assms(4), of "p # us" w d r p t] by auto
    with False d assms(8) \<open>joined I S p\<close> show ?thesis by (simp add: member_phase_def listening_def)
  qed
qed

section \<open>The whole network in a round\<close>

text \<open>Sender and destination of the shares in flight, and of the starts of the next round.\<close>
definition due_shares :: "mesh_channel \<Rightarrow> uid \<Rightarrow> uid set \<Rightarrow> (uid \<times> uid) set \<Rightarrow> (uid \<Rightarrow> uid list) \<Rightarrow> (uid \<times> uid) set" where
  "due_shares M s I S G = {(q, p). q \<in> set (mc_members M) \<and> p \<in> others M q \<and> has_sent M s I S G q \<and> q \<notin> set (G p)}"

definition next_starts :: "mesh_channel \<Rightarrow> uid \<Rightarrow> uid set \<Rightarrow> (uid \<Rightarrow> uid list) \<Rightarrow> (uid \<times> uid) set" where
  "next_starts M s I G = {(i, p). i \<in> I - {s} \<and> p \<in> others M i \<and> set (G i) = others M i}"

definition in_flight :: "prims \<Rightarrow> mesh_channel \<Rightarrow> u64 \<Rightarrow> uid \<Rightarrow> (uid \<times> uid) set \<Rightarrow> (uid \<times> uid) set \<Rightarrow> (uid \<times> uid) set
    \<Rightarrow> (uid \<times> PeerMessage) set" where
  "in_flight P M r s A B C = (\<lambda>(i, p). (p, mc_start M r i)) ` A \<union> (\<lambda>(q, p). (p, mc_share P M r s q)) ` B
     \<union> (\<lambda>(i, p). (p, mc_start M (r + 1) i)) ` C"

definition phase :: "prims \<Rightarrow> mesh_channel \<Rightarrow> u64 \<Rightarrow> uid \<Rightarrow> uid set \<Rightarrow> (uid \<Rightarrow> ExtractedMessage list) \<Rightarrow> (uid \<times> uid) set
    \<Rightarrow> (uid \<Rightarrow> uid list) \<Rightarrow> mesh \<Rightarrow> bool" where
  "phase P M r s I T S G n \<longleftrightarrow> contest M s I \<and> S \<subseteq> {(i, p). i \<in> I \<and> p \<in> others M i}
     \<and> (\<forall>p \<in> set (mc_members M). distinct (G p) \<and> set (G p) \<subseteq> others M p \<and> (\<forall>q \<in> set (G p). has_sent M s I S G q)
          \<and> (G p \<noteq> [] \<longrightarrow> (\<forall>i. (i, p) \<notin> S)) \<and> member_phase P M r s I S (G p) p (ms_driver n p)
          \<and> ms_texts n p = T p @ (if set (G p) = others M p then [mc_extracted M r s] else []))
     \<and> distinct (ms_wire n) \<and> set (ms_wire n) = in_flight P M r s S (due_shares M s I S G) (next_starts M s I G)"

lemma set_to_others: "set (to_others p ps m) = (\<lambda>q. (q, m)) ` (set ps - {p})"
  by (auto simp: to_others_def)

lemma distinct_to_others: "distinct ps \<Longrightarrow> distinct (to_others p ps m)"
  by (auto simp: to_others_def distinct_map inj_on_def)

lemma image_from_one: "(\<lambda>(a, b). f a b) ` ({x} \<times> Y) = f x ` Y"
  by auto

lemma mesh_deliver_fields:
  assumes "handle P t m (mc_ctx M p) (ms_driver n p) = (d, a)" and "distinct (ms_wire n)" and "(p, m) \<in> set (ms_wire n)"
    and "distinct (act_outgoing a)" and "set (act_outgoing a) \<inter> set (ms_wire n) = {}"
  shows "ms_driver (mesh_deliver P M t (p, m) n) = (ms_driver n)(p := d)"
    and "ms_texts (mesh_deliver P M t (p, m) n) = (ms_texts n)(p := ms_texts n p @ act_extracted a)"
    and "distinct (ms_wire (mesh_deliver P M t (p, m) n))"
    and "set (ms_wire (mesh_deliver P M t (p, m) n)) = set (ms_wire n) - {(p, m)} \<union> set (act_outgoing a)"
  using assms by (auto simp: mesh_deliver_def set_remove1_eq)

lemma in_flight_memI:
  "(i, p) \<in> A \<Longrightarrow> (p, mc_start M r i) \<in> in_flight P M r s A B C"
  "(i, p) \<in> B \<Longrightarrow> (p, mc_share P M r s i) \<in> in_flight P M r s A B C"
  by (force simp: in_flight_def)+

lemma in_flight_memE:
  assumes "(p, m) \<in> in_flight P M r s A B C"
  obtains (start) i where "m = mc_start M r i" "(i, p) \<in> A"
  | (share) q where "m = mc_share P M r s q" "(q, p) \<in> B"
  | (later) i where "m = mc_start M (r + 1) i" "(i, p) \<in> C"
  using assms by (auto simp: in_flight_def)

lemma in_orderD:
  assumes "in_order wire (p, m)" and "round_of m = Some r" and "(q, m') \<in> set wire"
  shows "\<exists>r'. round_of m' = Some r' \<and> r \<le> r' \<and> (q = p \<and> r' = r \<and> is_start m' \<longrightarrow> is_start m)"
  using assms by (cases "round_of m'") (force simp: in_order_def list_all_iff)+

lemma in_flight_start:
  "in_flight P M r s (A - {(i, p)}) (B \<union> B') C = in_flight P M r s A B C - {(p, mc_start M r i)} \<union> (\<lambda>(q, p). (p, mc_share P M r s q)) ` B'"
  by (auto simp: in_flight_def)

lemma in_flight_share:
  "(q, p) \<notin> B' \<Longrightarrow> in_flight P M r s A (B - {(q, p)} \<union> B') (C \<union> C') = in_flight P M r s A B C - {(p, mc_share P M r s q)}
     \<union> (\<lambda>(q, p). (p, mc_share P M r s q)) ` B' \<union> (\<lambda>(i, p). (p, mc_start M (r + 1) i)) ` C'"
  by (auto simp: in_flight_def)

text \<open>A start arrives.\<close>
lemma phase_start:
  assumes ok: "channel_ok P key M" and ph: "phase P M r s I T S G n" and e: "(i, p) \<in> S" and "timely t (ms_driver n p)"
  shows "phase P M r s I T (S - {(i, p)}) G (mesh_deliver P M t (p, mc_start M r i) n)"
proof -
  let ?S = "S - {(i, p)}" and ?n = "mesh_deliver P M t (p, mc_start M r i) n"
  define new where "new \<longleftrightarrow> \<not> joined I S p \<and> joined I ?S p"
  have dist: "distinct (mc_members M)" using ok by (simp add: channel_ok_def)
  have c: "contest M s I" and ip: "i \<in> I" "i \<noteq> p" "p \<in> set (mc_members M)"
    using ph e by (auto simp: phase_def)
  have "G p = []" and mem: "member_phase P M r s I S (G p) p (ms_driver n p)"
    and wire: "distinct (ms_wire n)" "set (ms_wire n) = in_flight P M r s S (due_shares M s I S G) (next_starts M s I G)"
    using ph e ip by (auto simp: phase_def)
  obtain d where h: "handle P t (mc_start M r i) (mc_ctx M p) (ms_driver n p) = (d, \<lparr> act_extracted = [], act_outgoing =
      if new then to_others p (mc_members M) (mc_share P M r s p) else [] \<rparr>)" and d: "member_phase P M r s I ?S (G p) p d"
    using member_start [OF ok c ip(3,1,2) _ assms(4), of r S] mem \<open>G p = []\<close> by (auto simp: new_def split: if_splits)
  have unsent: "\<not> has_sent M s I S G p \<and> p \<noteq> s" if new
    using that winner_not_joined [OF c] by (auto simp: new_def has_sent_def)
  have sent: "has_sent M s I ?S G q \<longleftrightarrow> has_sent M s I S G q \<or> new \<and> q = p" for q
    using joined_other [of q p I S i] joined_mono [of I S p "(i, p)"] by (auto simp: has_sent_def new_def)
  have B: "due_shares M s I ?S G = due_shares M s I S G \<union> (if new then {p} \<times> others M p else {})"
    using unsent ip(3) ph unfolding due_shares_def phase_def by (auto simp: sent)
  have fresh: "set (act_outgoing \<lparr> act_extracted = [], act_outgoing = if new then to_others p (mc_members M) (mc_share P M r s p) else [] \<rparr>)
      \<inter> set (ms_wire n) = {}"
    using unsent by (auto simp: wire(2) set_to_others in_flight_def due_shares_def)
  have "(p, mc_start M r i) \<in> set (ms_wire n)" using e by (auto simp: wire(2) in_flight_def)
  note n = mesh_deliver_fields [OF h wire(1) this _ fresh]
  have "set (ms_wire ?n) = in_flight P M r s ?S (due_shares M s I ?S G) (next_starts M s I G)"
    using n(4) by (simp add: dist distinct_to_others B in_flight_start wire(2) set_to_others image_from_one)
  moreover have "distinct (ms_wire ?n)" by (rule n(3)) (simp add: dist distinct_to_others)
  moreover have "member_phase P M r s I ?S us q = member_phase P M r s I S us q" if "q \<noteq> p" for q us
    using that by (simp add: member_phase_def joined_other fun_eq_iff)
  ultimately show ?thesis
    using ph n(1,2) d unfolding phase_def sent by (auto simp: dist distinct_to_others)
qed

text \<open>A share arrives.\<close>
lemma phase_share:
  assumes ok: "channel_ok P key M" and ph: "phase P M r s I T S G n" and e: "(q, p) \<in> due_shares M s I S G"
    and late: "\<forall>i. (i, p) \<notin> S" and "timely t (ms_driver n p)" and r: "r < r + 1"
  shows "phase P M r s I T S (G(p := G p @ [q])) (mesh_deliver P M t (p, mc_share P M r s q) n)"
proof -
  let ?G = "G(p := G p @ [q])" and ?n = "mesh_deliver P M t (p, mc_share P M r s q) n"
  define last where "last \<longleftrightarrow> set (G p @ [q]) = others M p"
  define out where "out = (if \<not> last then [] else if p = s then to_others s (mc_members M) (mc_share P M r s s)
      else if p \<in> I then to_others p (mc_members M) (mc_start M (r + 1) p) else [])"
  have dist: "distinct (mc_members M)" using ok by (simp add: channel_ok_def)
  have c: "contest M s I" using ph by (simp add: phase_def)
  have qp: "p \<in> set (mc_members M)" "q \<in> set (mc_members M)" "q \<noteq> p" "q \<notin> set (G p)" "has_sent M s I S G q"
    using e by (auto simp: due_shares_def)
  have us: "distinct (G p @ [q])" "set (G p) \<subseteq> others M p" and mem: "member_phase P M r s I S (G p) p (ms_driver n p)"
    and wire: "distinct (ms_wire n)" "set (ms_wire n) = in_flight P M r s S (due_shares M s I S G) (next_starts M s I G)"
    using ph qp by (auto simp: phase_def)
  obtain d where h: "handle P t (mc_share P M r s q) (mc_ctx M p) (ms_driver n p) = (d, \<lparr> act_extracted =
      if last then [mc_extracted M r s] else [], act_outgoing = out \<rparr>)" and d: "member_phase P M r s I S (G p @ [q]) p d"
    using member_receives_last [OF ok c qp(1,2,3) us(1) _ late mem assms(5) r]
      member_receives_more [OF ok c qp(1,2,3) us _ late mem assms(5)]
    by (cases last) (auto simp: last_def out_def no_action_def)
  have not_all: "set (G p) \<noteq> others M p" using qp by auto
  have all: "set (?G v) = others M v \<longleftrightarrow> set (G v) = others M v \<or> last \<and> v = p" for v
    using not_all by (cases "v = p") (simp_all add: last_def)
  have sent: "has_sent M s I S ?G v \<longleftrightarrow> has_sent M s I S G v \<or> last \<and> v = p \<and> p = s" for v
    unfolding has_sent_def all by blast
  have unsent: "\<not> has_sent M s I S G p" if "p = s"
    using that not_all winner_not_joined [OF c] by (auto simp: has_sent_def)
  have B: "due_shares M s I S ?G = due_shares M s I S G - {(q, p)} \<union> (if last \<and> p = s then {s} \<times> others M s else {})"
    using unsent qp ph unfolding due_shares_def phase_def by (auto simp: sent)
  have C: "next_starts M s I ?G = next_starts M s I G \<union> (if last \<and> p \<noteq> s \<and> p \<in> I then {p} \<times> others M p else {})"
    unfolding next_starts_def all by auto
  have fresh: "set (act_outgoing \<lparr> act_extracted = if last then [mc_extracted M r s] else [], act_outgoing = out \<rparr>)
      \<inter> set (ms_wire n) = {}"
    using unsent not_all by (auto simp: wire(2) out_def set_to_others in_flight_def due_shares_def next_starts_def)
  have "(p, mc_share P M r s q) \<in> set (ms_wire n)" using e by (force simp: wire(2) in_flight_def)
  note n = mesh_deliver_fields [OF h wire(1) this _ fresh]
  have "distinct out" by (simp add: out_def dist distinct_to_others)
  have "set (ms_wire ?n) = in_flight P M r s S (due_shares M s I S ?G) (next_starts M s I ?G)"
    using n(4) \<open>distinct out\<close> qp(3) unfolding B C by (subst in_flight_share) (auto simp: wire(2) out_def set_to_others)
  then show ?thesis
    using ph n(1-3) \<open>distinct out\<close> d c qp late not_all unfolding phase_def sent all by (auto simp: fun_upd_def)
qed

section \<open>From round to round\<close>

definition all_starts :: "mesh_channel \<Rightarrow> uid set \<Rightarrow> (uid \<times> uid) set" where
  "all_starts M I = {(i, p). i \<in> I \<and> p \<in> others M i}"

text \<open>The members of \<open>I\<close> have just initiated round \<open>r\<close>; the others are at rest.\<close>
definition contending :: "prims \<Rightarrow> mesh_channel \<Rightarrow> u64 \<Rightarrow> uid set \<Rightarrow> (uid \<Rightarrow> ExtractedMessage list) \<Rightarrow> mesh \<Rightarrow> bool" where
  "contending P M r I T n \<longleftrightarrow> I \<subseteq> set (mc_members M) \<and> distinct (ms_wire n)
     \<and> set (ms_wire n) = (\<lambda>(i, p). (p, mc_start M r i)) ` all_starts M I
     \<and> (\<forall>p \<in> set (mc_members M). ms_texts n p = T p
          \<and> (if p \<in> I then offering P M r p p [] (ms_driver n p) else resting r (ms_driver n p)))"

lemma contending_phase:
  assumes ok: "channel_ok P key M" and con: "contending P M r I T n" and s: "s \<in> I" "\<forall>i \<in> I. s \<le> i"
  shows "phase P M r s I T (all_starts M I) (\<lambda>_. []) n"
proof -
  have c: "contest M s I" using con s by (simp add: contest_def contending_def)
  have unjoined: "\<not> joined I (all_starts M I) p" if "p \<in> set (mc_members M)" for p
    using that by (auto simp: joined_def all_starts_def)
  have ne: "{} \<noteq> others M p" for p using others_not_Nil [OF ok, of p] by simp
  have "due_shares M s I (all_starts M I) (\<lambda>_. []) = {}" "next_starts M s I (\<lambda>_. []) = {}"
    using unjoined ne by (auto simp: due_shares_def next_starts_def has_sent_def)
  moreover have "member_phase P M r s I (all_starts M I) [] p (ms_driver n p)" if "p \<in> set (mc_members M)" for p
    using con that unjoined [OF that] ne [of p] s(1) offering_Nil [of P M r p p _ s]
    by (auto simp: member_phase_def contending_def split: if_splits)
  ultimately show ?thesis
    using con c ne by (auto simp: phase_def contending_def all_starts_def in_flight_def)
qed

lemma phase_ends:
  assumes ok: "channel_ok P key M" and ph: "phase P M r s I T S G n" and over: "\<forall>e \<in> set (ms_wire n). round_of (snd e) \<noteq> Some r"
  shows "contending P M (r + 1) (I - {s}) (\<lambda>p. T p @ [mc_extracted M r s]) n"
proof -
  have wire: "set (ms_wire n) = in_flight P M r s S (due_shares M s I S G) (next_starts M s I G)"
    and c: "contest M s I" and dist: "distinct (ms_wire n)" using ph by (simp_all add: phase_def)
  have "S = {}" and B: "due_shares M s I S G = {}"
    using over in_flight_memI [of _ _ _ M r P s] unfolding wire by fastforce+
  then have j: "joined I S p" if "p \<noteq> s" for p using that all_joined [OF c] by simp
  have s: "s \<in> set (mc_members M)" using c by (auto simp: contest_def)
  have got: "q \<in> set (G p)" if "q \<in> others M p" "p \<in> set (mc_members M)" "has_sent M s I S G q" for p q
    using B that by (auto simp: due_shares_def)
  have sub: "set (G p) \<subseteq> others M p" if "p \<in> set (mc_members M)" for p using ph that by (simp add: phase_def)
  have "set (G s) = others M s" using got [of _ s] sub [OF s] s j by (auto simp: has_sent_def)
  then have "has_sent M s I S G q" for q using j by (cases "q = s") (auto simp: has_sent_def)
  then have all: "set (G p) = others M p" if "p \<in> set (mc_members M)" for p using got [OF _ that] sub [OF that] by blast
  have "next_starts M s I G = all_starts M (I - {s})"
    using all c by (auto simp: next_starts_def all_starts_def contest_def)
  then have "set (ms_wire n) = (\<lambda>(i, p). (p, mc_start M (r + 1) i)) ` all_starts M (I - {s})"
    unfolding wire B by (simp add: in_flight_def \<open>S = {}\<close>)
  moreover have "if p \<in> I - {s} then offering P M (r + 1) p p [] (ms_driver n p) else resting (r + 1) (ms_driver n p)"
    if "p \<in> set (mc_members M)" for p
  proof -
    have "member_phase P M r s I S (G p) p (ms_driver n p)" using ph that by (simp add: phase_def)
    then show ?thesis using all [OF that] j [of p] offering_Nil [of P M "r + 1" s p _ p]
      by (auto simp: member_phase_def split: if_splits)
  qed
  moreover have "ms_texts n p = T p @ [mc_extracted M r s]" if "p \<in> set (mc_members M)" for p
    using ph that all [OF that] by (simp add: phase_def)
  ultimately show ?thesis using c dist by (auto simp: contending_def contest_def)
qed

text \<open>The deliveries a round has left.\<close>
definition left_over :: "mesh_channel \<Rightarrow> (uid \<times> uid) set \<Rightarrow> (uid \<Rightarrow> uid list) \<Rightarrow> nat" where
  "left_over M S G = card S + (\<Sum>p \<in> set (mc_members M). length (mc_members M) - 1 - length (G p))"

lemma phase_step:
  assumes ok: "channel_ok P key M" and ph: "phase P M r s I T S G n" and e: "may_deliver t e n"
    and now: "round_of (snd e) = Some r" and r: "r < r + 1"
  shows "\<exists>S' G'. phase P M r s I T S' G' (mesh_deliver P M t e n) \<and> Suc (left_over M S' G') = left_over M S G"
proof -
  obtain p m where pm: "e = (p, m)" by (cases e)
  have wire: "set (ms_wire n) = in_flight P M r s S (due_shares M s I S G) (next_starts M s I G)"
    and S: "S \<subseteq> set (mc_members M) \<times> set (mc_members M)" using ph by (auto simp: phase_def contest_def)
  have m: "(p, m) \<in> set (ms_wire n)" "timely t (ms_driver n p)" "in_order (ms_wire n) (p, m)"
    using e by (auto simp: may_deliver_def pm)
  consider (start) i where "m = mc_start M r i" "(i, p) \<in> S"
    | (share) q where "m = mc_share P M r s q" "(q, p) \<in> due_shares M s I S G"
    using m(1) now unfolding wire by (cases rule: in_flight_memE) (auto simp: pm)
  then show ?thesis
  proof cases
    case start
    have "finite S" using S by (rule finite_subset) simp
    then have "Suc (card (S - {(i, p)})) = card S" using start(2) by (rule card_Suc_Diff1)
    then have "Suc (left_over M (S - {(i, p)}) G) = left_over M S G" by (simp add: left_over_def)
    then show ?thesis using phase_start [OF ok ph start(2) m(2)] start(1) pm by blast
  next
    case share
    have late: "\<forall>i. (i, p) \<notin> S"
    proof (intro allI notI)
      fix i assume "(i, p) \<in> S"
      then have "(p, mc_start M r i) \<in> set (ms_wire n)" unfolding wire by (rule in_flight_memI)
      from in_orderD [OF m(3) _ this, of r] show False by (simp add: share(1))
    qed
    have mem: "p \<in> set (mc_members M)" "q \<in> others M p" "q \<notin> set (G p)" "distinct (G p)" "set (G p) \<subseteq> others M p"
      using share(2) ph by (auto simp: due_shares_def phase_def)
    then have "card (set (G p)) < card (others M p)" by (intro psubset_card_mono) auto
    then have "length (G p) < length (mc_members M) - 1"
      using mem ok by (simp add: distinct_card channel_ok_def)
    then have "Suc (left_over M S (G(p := G p @ [q]))) = left_over M S G"
      using mem(1) by (simp add: left_over_def sum.remove [of _ p] cong: sum.cong_simp)
    then show ?thesis using phase_share [OF ok ph share(2) late m(2) r] share(1) pm by blast
  qed
qed

lemma phase_left_over:
  assumes "channel_ok P key M" and "I \<subseteq> set (mc_members M)"
  shows "left_over M (all_starts M I) (\<lambda>_. []) = (card I + length (mc_members M)) * (length (mc_members M) - 1)"
proof -
  have dist: "distinct (mc_members M)" using assms(1) by (simp add: channel_ok_def)
  have "all_starts M I = Sigma I (others M)" by (auto simp: all_starts_def)
  then have "card (all_starts M I) = (\<Sum>i \<in> I. card (others M i))"
    using finite_subset [OF assms(2)] by (simp add: card_SigmaI)
  also have "\<dots> = (\<Sum>i \<in> I. length (mc_members M) - 1)"
    using assms(2) dist by (intro sum.cong) (auto simp: distinct_card)
  finally show ?thesis using dist by (simp add: left_over_def distinct_card algebra_simps)
qed

text \<open>A delivery goes on with the round, or, when the round is over, begins the next.\<close>
lemma phase_advance:
  assumes ok: "channel_ok P key M" and ph: "phase P M r s (set (s # ss)) T S G n" and srt: "sorted (s # ss)" "distinct (s # ss)"
    and e: "may_deliver t e n" and r: "r < r + 1" "r + 1 < r + 1 + 1"
  shows "(\<exists>S' G'. phase P M r s (set (s # ss)) T S' G' (mesh_deliver P M t e n) \<and> Suc (left_over M S' G') = left_over M S G)
    \<or> (\<exists>s' ss' S' G'. ss = s' # ss' \<and> phase P M (r + 1) s' (set ss) (\<lambda>p. T p @ [mc_extracted M r s]) S' G' (mesh_deliver P M t e n)
        \<and> Suc (left_over M S' G') = (length ss + length (mc_members M)) * (length (mc_members M) - 1))"
proof (cases "round_of (snd e) = Some r")
  case True
  from phase_step [OF ok ph e True r(1)] show ?thesis by blast
next
  case False
  obtain p m where pm: "e = (p, m)" by (cases e)
  have m: "(p, m) \<in> set (ms_wire n)" "in_order (ms_wire n) (p, m)" using e by (auto simp: may_deliver_def pm)
  then have "(p, m) \<in> in_flight P M r s S (due_shares M s (set (s # ss)) S G) (next_starts M s (set (s # ss)) G)"
    using ph by (simp add: phase_def)
  then have later: "round_of m = Some (r + 1)" using False by (cases rule: in_flight_memE) (auto simp: pm)
  have "round_of m' \<noteq> Some r" if "(q, m') \<in> set (ms_wire n)" for q m'
    using in_orderD [OF m(2) later that] r(1) by auto
  then have "contending P M (r + 1) (set (s # ss) - {s}) (\<lambda>p. T p @ [mc_extracted M r s]) n"
    by (intro phase_ends [OF ok ph]) auto
  then have con: "contending P M (r + 1) (set ss) (\<lambda>p. T p @ [mc_extracted M r s]) n" using srt(2) by simp
  then obtain s' ss' where ss: "ss = s' # ss'" using m(1) by (cases ss) (auto simp: contending_def all_starts_def)
  then have "phase P M (r + 1) s' (set ss) (\<lambda>p. T p @ [mc_extracted M r s]) (all_starts M (set ss)) (\<lambda>_. []) n"
    using srt(1) by (intro contending_phase [OF ok con]) auto
  from phase_step [OF ok this e _ r(2)] later
  obtain S' G' where "phase P M (r + 1) s' (set ss) (\<lambda>p. T p @ [mc_extracted M r s]) S' G' (mesh_deliver P M t e n)"
    "Suc (left_over M S' G') = left_over M (all_starts M (set ss)) (\<lambda>_. [])" by (auto simp: pm)
  moreover have "left_over M (all_starts M (set ss)) (\<lambda>_. []) = (length ss + length (mc_members M)) * (length (mc_members M) - 1)"
    using phase_left_over [OF ok, of "set ss"] con distinct_card [of ss] srt(2) by (simp add: contending_def)
  ultimately show ?thesis using ss by metis
qed

text \<open>Only round messages are in flight, to members whose rounds have time left.\<close>
definition lively :: "mesh_channel \<Rightarrow> mesh \<Rightarrow> bool" where
  "lively M n \<longleftrightarrow> (\<forall>(p, m) \<in> set (ms_wire n). p \<in> set (mc_members M) \<and> round_of m \<noteq> None)
     \<and> (\<forall>p \<in> set (mc_members M). timely 0 (ms_driver n p))"

lemma timely_collecting: "collecting P M r s us d \<Longrightarrow> timely 0 d"
  and timely_resting: "resting r d \<Longrightarrow> timely 0 d"
  by (auto simp: collecting_def resting_def idle_for_def timely_def is_expired_def mc_collector_def RoundCollector_new_def
      CHANNEL_ROUND_DEADLINE_SECS_def MAX_ROUND_DEADLINE_SECS_def)

lemma phase_lively:
  assumes "phase P M r s I T S G n"
  shows "lively M n"
proof -
  have "timely 0 (ms_driver n p)" if "p \<in> set (mc_members M)" for p
  proof -
    have "member_phase P M r s I S (G p) p (ms_driver n p)" using assms that by (simp add: phase_def)
    then have "(\<exists>r us. collecting P M r s us (ms_driver n p)) \<or> (\<exists>r. resting r (ms_driver n p))"
      by (simp add: member_phase_def offering_def listening_def split: if_splits) blast+
    then show ?thesis using timely_collecting timely_resting by blast
  qed
  moreover have "p \<in> set (mc_members M) \<and> round_of m \<noteq> None" if "(p, m) \<in> set (ms_wire n)" for p m
  proof -
    have "(p, m) \<in> in_flight P M r s S (due_shares M s I S G) (next_starts M s I G)" using assms that by (simp add: phase_def)
    moreover have "p \<in> set (mc_members M)" if "(i, p) \<in> S" for i using assms that by (auto simp: phase_def)
    ultimately show ?thesis by (cases rule: in_flight_memE) (auto simp: due_shares_def next_starts_def)
  qed
  ultimately show ?thesis by (auto simp: lively_def)
qed

lemma in_order_exists:
  assumes "wire \<noteq> []" and "\<forall>(p, m) \<in> set wire. round_of m \<noteq> None"
  shows "\<exists>e \<in> set wire. in_order wire e"
proof -
  let ?f = "\<lambda>e. 2 * unat (the (round_of (snd e))) + (if is_start (snd e) then 0 else 1)"
  obtain e where e: "e \<in> set wire" "\<forall>e' \<in> set wire. ?f e \<le> ?f e'"
    using ex_has_least_nat [of "\<lambda>e. e \<in> set wire" "hd wire" ?f] hd_in_set [OF assms(1)] by blast
  obtain p m where pm: "e = (p, m)" by (cases e)
  then obtain r where r: "round_of m = Some r" using e(1) assms(2) by auto
  have "\<exists>r'. round_of m' = Some r' \<and> r \<le> r' \<and> (q = p \<and> r' = r \<and> is_start m' \<longrightarrow> is_start m)"
    if mem: "(q, m') \<in> set wire" for q m'
  proof -
    obtain r' where "round_of m' = Some r'" using bspec [OF assms(2) mem] by auto
    then show ?thesis using bspec [OF e(2) mem] r by (auto simp: pm word_le_nat_alt split: if_splits)
  qed
  then have "in_order wire e" unfolding pm in_order_def using r by (force simp: list_all_iff)
  then show ?thesis using e(1) by blast
qed

lemma lively_progress:
  assumes "lively M n" and "ms_wire n \<noteq> []"
  shows "\<exists>e. fst e \<in> set (mc_members M) \<and> (\<forall>t. timely t (ms_driver n (fst e)) \<longrightarrow> may_deliver t e n)"
  using in_order_exists [OF assms(2)] assms(1) by (fastforce simp: lively_def may_deliver_def)

text \<open>What everybody reads: one text per round, in the order of the names.\<close>
fun outcome :: "mesh_channel \<Rightarrow> u64 \<Rightarrow> uid list \<Rightarrow> ExtractedMessage list" where
  "outcome M r [] = []"
| "outcome M r (s # ss) = \<lparr> em_channel = mc_name M, em_text = mc_text M s, em_round_id = r \<rparr> # outcome M (r + 1) ss"

text \<open>The deliveries of \<open>k\<close> rounds among \<open>N\<close> members, all contested.\<close>
fun deliveries :: "nat \<Rightarrow> nat \<Rightarrow> nat" where
  "deliveries N 0 = 0"
| "deliveries N (Suc k) = (Suc k + N) * (N - 1) + deliveries N k"

lemma unat_suc: "unat r + Suc k < 2 ^ 64 \<Longrightarrow> unat (r + 1 :: u64) = unat r + 1 \<and> r < r + 1"
  by (simp add: unat_word_ariths word_less_nat_alt)

lemma run_from_phase:
  assumes "channel_ok P key M"
  shows "phase P M r s (set (s # ss)) T S G n \<Longrightarrow> sorted (s # ss) \<Longrightarrow> distinct (s # ss) \<Longrightarrow> unat r + Suc (Suc (length ss)) < 2 ^ 64
    \<Longrightarrow> mesh_run P M es n = Some n' \<Longrightarrow> length es \<le> left_over M S G + deliveries (length (mc_members M)) (length ss) \<and> lively M n'
      \<and> (ms_wire n' = [] \<longrightarrow> contending P M (r + of_nat (Suc (length ss))) {} (\<lambda>p. T p @ outcome M r (s # ss)) n')"
proof (induction es arbitrary: r s ss T S G n)
  case Nil
  have "contending P M (r + of_nat (Suc (length ss))) {} (\<lambda>p. T p @ outcome M r (s # ss)) n" if w: "ms_wire n = []"
  proof -
    have con: "contending P M (r + 1) (set (s # ss) - {s}) (\<lambda>p. T p @ [mc_extracted M r s]) n"
      by (rule phase_ends [OF assms Nil.prems(1)]) (simp add: w)
    then have "ss = []"
      using Nil.prems(3) w others_not_Nil [OF assms, of "hd ss"] by (cases ss) (auto simp: contending_def all_starts_def)
    then show ?thesis using con by (simp add: mc_extracted_def)
  qed
  then show ?case using Nil.prems(1,5) phase_lively by auto
next
  case (Cons te es)
  obtain t e where te: "te = (t, e)" by (cases te)
  have e: "may_deliver t e n" and run: "mesh_run P M es (mesh_deliver P M t e n) = Some n'"
    using Cons.prems(5) by (auto simp: te split: if_splits)
  have r: "unat (r + 1) = unat r + 1" "r < r + 1" "r + 1 < r + 1 + 1"
    using unat_suc [of r "Suc (length ss)"] unat_suc [of "r + 1" "length ss"] Cons.prems(4) by auto
  from phase_advance [OF assms Cons.prems(1-3) e r(2,3)] show ?case
  proof (elim disjE exE conjE)
    fix S' G' assume ph: "phase P M r s (set (s # ss)) T S' G' (mesh_deliver P M t e n)"
      and "Suc (left_over M S' G') = left_over M S G"
    with Cons.IH [OF ph Cons.prems(2-4) run] show ?case by (simp add: te)
  next
    fix s' ss' S' G'
    assume ss: "ss = s' # ss'" and ph: "phase P M (r + 1) s' (set ss) (\<lambda>p. T p @ [mc_extracted M r s]) S' G' (mesh_deliver P M t e n)"
      and "Suc (left_over M S' G') = (length ss + length (mc_members M)) * (length (mc_members M) - 1)"
    with Cons.IH [of "r + 1" s' ss', OF ph [unfolded ss] _ _ _ run] Cons.prems(2-4) r(1) show ?case
      by (auto simp: te mc_extracted_def add.assoc)
  qed
qed

section \<open>The beginning\<close>

lemma mesh_initiate_contends:
  assumes ok: "channel_ok P key M" and con: "contending P M r I T n" and p: "p \<in> set (mc_members M)" "p \<notin> I"
  shows "contending P M r (insert p I) T (mesh_initiate P M (t, p) n)"
proof -
  have dist: "distinct (mc_members M)" using ok by (simp add: channel_ok_def)
  have "resting r (ms_driver n p)" using con p by (auto simp: contending_def)
  then obtain d where init: "initiate P t (mc_name M) (mc_text M p) (mc_members M) (mc_ctx M p) (ms_driver n p) =
      (d, Inr (to_others p (mc_members M) (mc_start M r p)))"
    and "offering P M r p p [] (d\<lparr> rd_pending_outgoing := [] \<rparr>)" "rd_pending_outgoing d = []"
    using initiate_offers [OF ok p(1), of "ms_driver n p" r t p] by (auto simp: resting_def idle_for_def)
  moreover from this have "offering P M r p p [] d" by (simp add: offering_def collecting_def)
  moreover have "all_starts M (insert p I) = all_starts M I \<union> {p} \<times> others M p" by (auto simp: all_starts_def)
  moreover have "set (to_others p (mc_members M) (mc_start M r p)) \<inter> set (ms_wire n) = {}"
    using con p(2) by (auto simp: contending_def set_to_others all_starts_def)
  ultimately show ?thesis
    using con p dist unfolding contending_def
    by (auto simp: mesh_initiate_def set_to_others distinct_to_others image_Un image_from_one)
qed

lemma mesh_begins:
  assumes "channel_ok P key M" and "contending P M r {} T n" and "distinct (map snd is)" and "set (map snd is) \<subseteq> set (mc_members M)"
  shows "contending P M r (set (map snd is)) T (fold (mesh_initiate P M) is n)"
  using assms(3,4)
proof (induction "is" rule: rev_induct)
  case Nil
  then show ?case using assms(2) by simp
next
  case (snoc tp "is")
  then have "contending P M r (set (map snd is)) T (fold (mesh_initiate P M) is n)" by simp
  from mesh_initiate_contends [OF assms(1) this, of "snd tp" "fst tp"] snoc.prems show ?case by simp
qed

text \<open>The members' drivers are at rest, about to begin round \<open>r\<close>, and nothing is in flight.\<close>
definition quiet :: "mesh_channel \<Rightarrow> u64 \<Rightarrow> mesh \<Rightarrow> bool" where
  "quiet M r n \<longleftrightarrow> ms_wire n = [] \<and> (\<forall>p \<in> set (mc_members M). resting r (ms_driver n p))"

lemma quiet_contending: "contending P M r {} T n \<longleftrightarrow> quiet M r n \<and> (\<forall>p \<in> set (mc_members M). ms_texts n p = T p)"
  by (auto simp: quiet_def contending_def all_starts_def)

lemma mesh_runs:
  assumes ok: "channel_ok P key M" and q: "quiet M r n" and i: "distinct (map snd is)" "set (map snd is) \<subseteq> set (mc_members M)"
    and r: "unat r + Suc (length is) < 2 ^ 64" and run: "mesh_run P M es (fold (mesh_initiate P M) is n) = Some n'"
  shows "length es \<le> deliveries (length (mc_members M)) (length is) \<and> lively M n'
    \<and> (ms_wire n' = [] \<longrightarrow> contending P M (r + of_nat (length is)) {} (\<lambda>p. ms_texts n p @ outcome M r (sort (map snd is))) n')"
proof (cases "sort (map snd is)")
  case Nil
  then have "is = []" by (metis list.map_disc_iff set_empty set_sort)
  then show ?thesis
    using run q by (cases es) (auto simp: quiet_contending quiet_def may_deliver_def lively_def intro: timely_resting)
next
  case (Cons s ss)
  have con: "contending P M r (set (s # ss)) (ms_texts n) (fold (mesh_initiate P M) is n)"
    using mesh_begins [OF ok _ i] q quiet_contending Cons by (metis set_sort)
  have srt: "sorted (s # ss)" "distinct (s # ss)" using Cons i(1) by (metis sorted_sort, metis distinct_sort)
  have len: "length is = Suc (length ss)" using Cons by (metis length_Cons length_map length_sort)
  have ph: "phase P M r s (set (s # ss)) (ms_texts n) (all_starts M (set (s # ss))) (\<lambda>_. []) (fold (mesh_initiate P M) is n)"
    using srt(1) by (intro contending_phase [OF ok con]) auto
  have "left_over M (all_starts M (set (s # ss))) (\<lambda>_. []) = (Suc (length ss) + length (mc_members M)) * (length (mc_members M) - 1)"
    using phase_left_over [OF ok, of "set (s # ss)"] con distinct_card [OF srt(2)] by (simp add: contending_def)
  with run_from_phase [OF ok ph srt _ run] r show ?thesis unfolding Cons len by simp
qed

section \<open>Simultaneous initiators\<close>


text \<open>Such deliveries can be made to the end.\<close>
lemma mesh_run_append: "mesh_run P M (es @ fs) n = Option.bind (mesh_run P M es n) (mesh_run P M fs)"
  by (induction es arbitrary: n) auto

lemma mesh_completes:
  assumes "channel_ok P key M" and "quiet M r n" and "distinct (map snd is)" and "set (map snd is) \<subseteq> set (mc_members M)"
    and "unat r + Suc (length is) < 2 ^ 64"
  shows "\<exists>es n'. mesh_run P M es (fold (mesh_initiate P M) is n) = Some n' \<and> ms_wire n' = []"
proof (rule ccontr)
  assume stuck: "\<not> ?thesis"
  have "\<exists>es n'. length es = k \<and> mesh_run P M es (fold (mesh_initiate P M) is n) = Some n'" for k
  proof (induction k)
    case 0
    show ?case by simp
  next
    case (Suc k)
    then obtain es n' where es: "length es = k" "mesh_run P M es (fold (mesh_initiate P M) is n) = Some n'" by blast
    have l: "lively M n'" using mesh_runs [OF assms es(2)] by simp
    then obtain e where "may_deliver 0 e n'"
      using lively_progress [OF l] stuck es(2) by (auto simp: lively_def)
    then have "mesh_run P M (es @ [(0, e)]) (fold (mesh_initiate P M) is n) = Some (mesh_deliver P M 0 e n')"
      using es(2) by (simp add: mesh_run_append)
    then show ?case using es(1) by (metis length_append_singleton)
  qed
  from this [of "Suc (deliveries (length (mc_members M)) (length is))"] mesh_runs [OF assms] show False by fastforce
qed

definition demo_channel :: mesh_channel where
  "demo_channel = \<lparr> mc_name = ''general'', mc_members = [''alice'', ''bob'', ''carol''], mc_sk = demo_sk, mc_ek = demo_keys,
     mc_directory = demo_directory, mc_text = (\<lambda>u. if u = ''alice'' then ''hi'' else ''yo'') \<rparr>"

definition demo_mesh :: mesh where
  "demo_mesh = \<lparr> ms_driver = (\<lambda>_. RoundDriver_new 0), ms_wire = [], ms_texts = (\<lambda>_. []) \<rparr>"

lemma demo_channel_ok: "\<exists>key. channel_ok toy_prims key demo_channel" and demo_quiet: "quiet demo_channel 1 demo_mesh"
  using demo_setting toy_sig toy_keys demo_edges
  by (auto simp: channel_ok_def demo_channel_def CHANNEL_PAYLOAD_LEN_def str_valid_def str_bytes_def utf8_valid_ascii
      quiet_def demo_mesh_def resting_def RoundDriver_new_def)


end
