(* ===== verification/MeshFaults.thy ===== *)
theory MeshFaults
  imports Mesh
begin

text \<open>
  Where the mesh protocol of \<^verbatim>\<open>dcnet/round_driver.rs\<close> loses messages: a share that overtakes the start of its round is
  lost to its receiver, and a member that gave way in a round that then expires never sends its own text.
\<close>

section \<open>A text that is never sent\<close>

text \<open>The round that was to be waited for is gone, and nothing else will take the message up.\<close>
definition stranded :: "u64 \<Rightarrow> bytes \<Rightarrow> RoundDriver \<Rightarrow> bool" where
  "stranded r msg d \<longleftrightarrow> rd_retry_after_peer d = Some r \<and> rd_pending_message d = Some msg \<and> rd_pending_round_id d = None
     \<and> hget (rd_collectors d) r = None \<and> rd_pending_outgoing d = []"

text \<open>How far the round counter is past \<open>r\<close>.\<close>
definition ahead :: "u64 \<Rightarrow> nat \<Rightarrow> RoundDriver \<Rightarrow> bool" where
  "ahead r k d \<longleftrightarrow> unat r \<le> unat (rt_current_round_id (rd_tracker d)) \<and> unat (rt_current_round_id (rd_tracker d)) + k < 2 ^ 64"

lemma drop_foreign:
  assumes "rd_pending_round_id d = None"
  shows "\<exists>cs. drop_expired P t ctx d = d\<lparr> rd_collectors := cs \<rparr> \<and> (hget (rd_collectors d) i = None \<longrightarrow> hget cs i = None)"
proof -
  have "\<exists>cs. fold (drop_one P t ctx) is d = d\<lparr> rd_collectors := cs \<rparr> \<and> (hget (rd_collectors d) i = None \<longrightarrow> hget cs i = None)"
    for "is"
    using assms
  proof (induction "is" arbitrary: d)
    case Nil
    show ?case by (intro exI [of _ "rd_collectors d"]) simp
  next
    case (Cons j "is")
    let ?d = "d\<lparr> rd_collectors := hdel j (rd_collectors d) \<rparr>"
    have "drop_one P t ctx j d = ?d" using Cons.prems by (simp add: drop_one_def)
    moreover obtain cs where "fold (drop_one P t ctx) is ?d = ?d\<lparr> rd_collectors := cs \<rparr>"
      "hget (rd_collectors ?d) i = None \<longrightarrow> hget cs i = None"
      using Cons.IH [of ?d] Cons.prems by auto
    ultimately show ?case by (intro exI [of _ cs]) simp
  qed
  then show ?thesis by (simp add: drop_expired_def Let_def)
qed

lemma stranded_start:
  assumes "stranded r msg d" and "ahead r (Suc k) d" and "on_round_start P t ch r' l ps dl n ctx d = (d', a)"
  shows "stranded r msg d' \<and> ahead r k d' \<and> (\<forall>(q, m) \<in> set (act_outgoing a). \<not> is_start m)"
proof (cases "r' = rt_current_round_id (rd_tracker d) + 1")
  case True
  then have "unat r' = unat (rt_current_round_id (rd_tracker d)) + 1"
    using assms(2) by (simp add: ahead_def unat_word_ariths)
  moreover from this have "r' \<noteq> r" using assms(2) by (auto simp: ahead_def)
  ultimately show ?thesis
    using assms True
    by (auto simp: on_round_start_def mark_seen_def stranded_def ahead_def no_action_def to_others_def build_round_share_def
        Let_def split: if_splits option.splits)
next
  case False
  then show ?thesis
    using assms by (auto simp: on_round_start_def mark_seen_def stranded_def ahead_def no_action_def Let_def)
qed

lemma stranded_share:
  assumes "stranded r msg d" and "on_round_share P t ch r' u x sig ctx d = (d', a)"
  shows "stranded r msg d' \<and> rd_tracker d' = rd_tracker d \<and> act_outgoing a = []"
proof (cases "share_refused P ctx ch r' u x sig \<or> hget (rd_collectors d) r' = None")
  case True
  then show ?thesis using assms by (auto simp: on_round_share_def no_action_def split: if_splits)
next
  case False
  then obtain c where c: "hget (rd_collectors d) r' = Some c" by auto
  then have r: "r' \<noteq> r" using assms(1) by (auto simp: stranded_def)
  have "broadcast_last ch r' ctx c' d = (c', rd_my_share_broadcast d, no_action)" for c'
    using assms(1) by (simp add: broadcast_last_def stranded_def)
  then show ?thesis
    using assms False c r
    by (auto simp: on_round_share_def complete_round_def emit_collected_def settle_own_def settle_lost_def stranded_def
        no_action_def Let_def split: sum.splits if_splits option.splits)
qed

lemma stranded_handle:
  assumes "stranded r msg d" and "ahead r (Suc k) d" and "handle P t m ctx d = (d', a)"
  shows "stranded r msg d' \<and> ahead r k d' \<and> (\<forall>(q, m') \<in> set (act_outgoing a). \<not> is_start m')"
proof -
  obtain cs where d1: "drop_expired P t ctx d = d\<lparr> rd_collectors := cs \<rparr>" "hget cs r = None"
    using drop_foreign [of d P t ctx r] assms(1) by (auto simp: stranded_def)
  then have s: "stranded r msg (d\<lparr> rd_collectors := cs \<rparr>)" "ahead r (Suc k) (d\<lparr> rd_collectors := cs \<rparr>)"
    using assms(1,2) by (auto simp: stranded_def ahead_def)
  obtain d2 a2 where d2: "dispatch P t m ctx (d\<lparr> rd_collectors := cs \<rparr>) = (d2, a2)" by fastforce
  have "stranded r msg d2 \<and> ahead r k d2 \<and> (\<forall>(q, m') \<in> set (act_outgoing a2). \<not> is_start m')"
  proof (cases m)
    case (DcRoundStart ch r' l ps dl n)
    then show ?thesis using stranded_start [OF s] d2 by simp
  next
    case (DcRoundShare ch r' u x sig)
    then show ?thesis using stranded_share [OF s(1)] d2 s(2) by (fastforce simp: ahead_def)
  qed (use d2 s in \<open>auto simp: no_action_def ahead_def\<close>)
  then show ?thesis using assms(3) d1(1) d2 by (auto simp: handle_def stranded_def ahead_def)
qed

lemma stranded_deliver:
  assumes "stranded r msg d" and "ahead r (length ms) d"
  shows "stranded r msg (fst (deliver P ctx ms d)) \<and> (\<forall>(q, m) \<in> set (snd (snd (deliver P ctx ms d))). \<not> is_start m)"
  using assms
proof (induction ms arbitrary: d)
  case Nil
  then show ?case by simp
next
  case (Cons tm ms)
  obtain t m where tm: "tm = (t, m)" by (cases tm)
  obtain d1 a where h: "handle P t m ctx d = (d1, a)" by fastforce
  have "stranded r msg d1 \<and> ahead r (length ms) d1 \<and> (\<forall>(q, m') \<in> set (act_outgoing a). \<not> is_start m')"
    by (rule stranded_handle [OF Cons.prems(1) _ h]) (use Cons.prems(2) in simp)
  with Cons.IH [of d1] show ?case by (auto simp: tm h Let_def split_beta)
qed

text \<open>A round that a member lost to another expires.\<close>
lemma expiry_strands:
  assumes "listening P M r s p True us d" and "\<not> timely t d"
  shows "drop_expired P t ctx d = d\<lparr> rd_collectors := [] \<rparr> \<and> stranded r (str_bytes (mc_text M p)) (d\<lparr> rd_collectors := [] \<rparr>)"
  using assms
  by (auto simp: listening_def collecting_def timely_def drop_expired_def drop_one_def stranded_def Let_def)

text \<open>C4: A member that gives way to an initiator whose round then fails never sends its own text. It had initiated the
  round and withdrawn for one with a lower name; if that round has not completed by its deadline,
  the member drops it without taking its own message up again. Whatever messages arrive from
  then on, the text stays queued, and no start for it, or for anything else, leaves the
  node.\<close>
theorem lost_contest_strands_message:
  assumes "listening P M r s p True us d" and "\<not> timely t d" and "unat r + length ms < 2 ^ 64 - 1"
  shows "rd_pending_message (fst (deliver P (mc_ctx M p) ((t, m) # ms) d)) = Some (str_bytes (mc_text M p))
    \<and> rd_pending_round_id (fst (deliver P (mc_ctx M p) ((t, m) # ms) d)) = None
    \<and> list_all (\<lambda>(q, m'). \<not> is_start m') (snd (snd (deliver P (mc_ctx M p) ((t, m) # ms) d)))"
proof -
  let ?d = "d\<lparr> rd_collectors := [] \<rparr>"
  have drop: "drop_expired P t (mc_ctx M p) d = ?d" and s: "stranded r (str_bytes (mc_text M p)) ?d"
    using expiry_strands [OF assms(1,2)] by simp_all
  have "drop_expired P t (mc_ctx M p) ?d = ?d" by (simp add: drop_expired_def)
  then have "deliver P (mc_ctx M p) ((t, m) # ms) d = deliver P (mc_ctx M p) ((t, m) # ms) ?d"
    by (simp add: handle_def drop)
  moreover have "ahead r (length ((t, m) # ms)) ?d" using assms(1,3) by (simp add: ahead_def listening_def collecting_def)
  ultimately show ?thesis
    using stranded_deliver [OF s, of "(t, m) # ms" P "mc_ctx M p"] by (simp add: stranded_def list_all_iff split_beta)
qed

text \<open>The state of Bob after he gave way to Alice.\<close>
definition yielded_bob :: RoundDriver where
  "yielded_bob = (RoundDriver_new 0)\<lparr> rd_tracker := (RoundTracker_new 0)\<lparr> rt_current_round_id := 1 \<rparr>,
     rd_pending_message := Some (str_bytes ''yo''), rd_retry_after_peer := Some 1,
     rd_collectors := [(1, mc_collector toy_prims demo_channel 1 ''alice'' 0 [''bob''])] \<rparr>"

theorem lost_contest_strands_message_witness:
  "rd_pending_message (fst (deliver toy_prims (mc_ctx demo_channel ''bob'')
     [(30000, Ping 0), (40000, mc_start demo_channel 2 ''alice'')] yielded_bob)) = Some (str_bytes ''yo'')"
proof -
  have "listening toy_prims demo_channel 1 ''alice'' ''bob'' True [''bob''] yielded_bob"
    by (auto simp: listening_def collecting_def yielded_bob_def RoundDriver_new_def demo_channel_def)
  moreover have "\<not> timely 30000 yielded_bob"
    by (simp add: timely_def yielded_bob_def is_expired_def mc_collector_def RoundCollector_new_def
        CHANNEL_ROUND_DEADLINE_SECS_def MAX_ROUND_DEADLINE_SECS_def)
  ultimately show ?thesis
    using lost_contest_strands_message [of toy_prims demo_channel 1 "''alice''" "''bob''" "[''bob'']" yielded_bob 30000
        "[(40000, mc_start demo_channel 2 ''alice'')]" "Ping 0"]
    by (simp add: demo_channel_def)
qed

section \<open>Shares that overtake a start\<close>

text \<open>A share that reaches a member before any start of its round is dropped, and nothing records it.\<close>
theorem early_share_dropped:
  assumes "resting r d"
  shows "handle P t (DcRoundShare ch r q x sig) ctx d = (d, no_action)"
  using assms
  by (simp add: resting_def idle_for_def handle_def drop_expired_def on_round_share_def no_action_def)

text \<open>Giving way throws away the shares an initiator has received for the round, although they are valid in the
  winner's round too and are not sent again: only its own share is left.\<close>
theorem yielding_discards_shares:
  assumes "channel_ok P key M" and "s \<in> set (mc_members M)" and "p \<in> set (mc_members M)" and "s < p"
    and "offering P M r s p us d" and "timely t d"
  shows "\<exists>d' c. fst (handle P t (mc_start M r s) (mc_ctx M p) d) = d' \<and> listening P M r s p True [p] d'
    \<and> rd_collectors d' = [(r, c)] \<and> hkeys (rc_shares_received c) = [p]"
proof -
  have "p \<noteq> s" using assms(4) by auto
  from start_yields [OF assms(1-3) this assms(5,6,4)]
  obtain d' where "fst (handle P t (mc_start M r s) (mc_ctx M p) d) = d'" "listening P M r s p True [p] d'" by auto
  then show ?thesis by (auto simp: listening_def collecting_def hkeys_def)
qed

text \<open>Without the share of \<open>u\<close>, which will not come again, the shares of all the others do not complete the
  round.\<close>
theorem round_open_without_share:
  assumes "channel_ok P key M" and "s \<in> set (mc_members M)" and "q \<in> set (mc_members M)" and "u \<in> set (mc_members M)" and "q \<noteq> u"
    and "listening P M r s p lost vs d" and "distinct (vs @ [q])" and "set vs \<subseteq> set (mc_members M) - {u}" and "timely t d"
  shows "\<exists>d'. handle P t (mc_share P M r s q) (mc_ctx M p) d = (d', no_action) \<and> listening P M r s p lost (vs @ [q]) d'"
proof -
  have "collecting P M r s vs d" "rd_pending_round_id d = None" using assms(6) by (simp_all add: listening_def)
  then obtain cs where "handle P t (mc_share P M r s q) (mc_ctx M p) d = (d\<lparr> rd_collectors := cs \<rparr>, no_action)"
    "collecting P M r s (vs @ [q]) (d\<lparr> rd_collectors := cs \<rparr>)"
    using share_waits [OF assms(1-3,7), of u d r p t] assms(4,5,8,9) by auto
  then show ?thesis using assms(6) by (simp add: listening_def)
qed

end
