(* ===== verification/Relay.thy ===== *)
theory Relay
  imports Messages RoundDriver
begin

text \<open>
  \<^verbatim>\<open>net/relay.rs\<close>: originator signatures, the routing table, and the admission control of relayed
  messages (replay, freshness, rate, first-use key pins). Unix seconds come in as \<open>now\<close>.
\<close>

section \<open>Constants and signatures\<close>

definition RELAY_SIG_DOMAIN :: bytes where "RELAY_SIG_DOMAIN = str_bytes ''chrono-relay-v1''"
definition RELAY_MAX_HOPS :: u8 where "RELAY_MAX_HOPS = 8"
definition RELAY_MAX_AGE_SECS :: u64 where "RELAY_MAX_AGE_SECS = 60"
definition RELAY_RATE_WINDOW_SECS :: u64 where "RELAY_RATE_WINDOW_SECS = 60"
definition RELAY_MAX_PER_WINDOW :: u32 where "RELAY_MAX_PER_WINDOW = 60"
definition MAX_RELAY_TRACKED :: nat where "MAX_RELAY_TRACKED = 4096"
definition MAX_RELAY_PINS :: nat where "MAX_RELAY_PINS = 4096"

definition relay_signature_message :: "uid \<Rightarrow> uid \<Rightarrow> u64 \<Rightarrow> u64 \<Rightarrow> bytes \<Rightarrow> bytes" where
  "relay_signature_message from_uid to_uid nonce timestamp payload =
     RELAY_SIG_DOMAIN @ be_bytes 4 (length from_uid) @ str_bytes from_uid
       @ be_bytes 4 (length to_uid) @ str_bytes to_uid @ be_bytes 8 (unat nonce)
       @ be_bytes 8 (unat timestamp) @ be_bytes 4 (length payload) @ payload"

definition sign_relay :: "prims \<Rightarrow> bytes \<Rightarrow> uid \<Rightarrow> uid \<Rightarrow> u64 \<Rightarrow> u64 \<Rightarrow> bytes \<Rightarrow> bytes" where
  "sign_relay P sk from_uid to_uid nonce timestamp payload =
     ed_sign P sk (relay_signature_message from_uid to_uid nonce timestamp payload)"

definition verify_relay :: "prims \<Rightarrow> bytes \<Rightarrow> uid \<Rightarrow> uid \<Rightarrow> u64 \<Rightarrow> u64 \<Rightarrow> bytes \<Rightarrow> bytes \<Rightarrow> bool" where
  "verify_relay P vk from_uid to_uid nonce timestamp payload signature \<longleftrightarrow>
     ed_sig_ok P signature \<and>
     ed_verify P vk (relay_signature_message from_uid to_uid nonce timestamp payload) signature"

definition valid_inbound_hops :: "u8 \<Rightarrow> bool" where
  "valid_inbound_hops hops_left \<longleftrightarrow> hops_left \<le> RELAY_MAX_HOPS"

section \<open>Routing\<close>

record RelayPath =
  rp_relay_uid :: uid
  rp_target_uid :: uid
  rp_active :: bool
  rp_bytes_relayed :: u64

type_synonym RelayRouter = "(uid, RelayPath list) hmap"

definition RelayRouter_new :: RelayRouter where
  "RelayRouter_new = []"

definition add_path :: "uid \<Rightarrow> uid \<Rightarrow> RelayRouter \<Rightarrow> RelayRouter" where
  "add_path target relay r =
     (let path = \<lparr> rp_relay_uid = relay, rp_target_uid = target, rp_active = True, rp_bytes_relayed = 0 \<rparr>;
          old = (case hget r target of None \<Rightarrow> [] | Some ps \<Rightarrow> ps)
      in hput target (old @ [path]) r)"

definition remove_target :: "uid \<Rightarrow> RelayRouter \<Rightarrow> RelayRouter" where
  "remove_target target r = hdel target r"

definition get_paths :: "RelayRouter \<Rightarrow> uid \<Rightarrow> RelayPath list" where
  "get_paths r target = (case hget r target of None \<Rightarrow> [] | Some ps \<Rightarrow> filter rp_active ps)"

definition has_path :: "RelayRouter \<Rightarrow> uid \<Rightarrow> bool" where
  "has_path r target = (case hget r target of None \<Rightarrow> False | Some ps \<Rightarrow> list_ex rp_active ps)"

definition next_hop :: "RelayRouter \<Rightarrow> uid \<Rightarrow> uid option" where
  "next_hop r target = (case get_paths r target of [] \<Rightarrow> None | p # _ \<Rightarrow> Some (rp_relay_uid p))"

definition list_all_paths :: "RelayRouter \<Rightarrow> RelayPath list" where
  "list_all_paths r = concat (hvalues r)"

section \<open>Admission\<close>

record RelayVerifier =
  rv_last_nonce :: "(string, u64) hmap"
  rv_rate :: "(string, u64 \<times> u32) hmap"
  rv_key_pins :: "(uid, string) hmap"

datatype relay_error = ReplayedNonce | OutsideWindow | RateLimited | KeyChanged

definition RelayVerifier_new :: RelayVerifier where
  "RelayVerifier_new = \<lparr> rv_last_nonce = [], rv_rate = [], rv_key_pins = [] \<rparr>"

definition pin_key :: "uid \<Rightarrow> string \<Rightarrow> RelayVerifier \<Rightarrow> RelayVerifier \<times> (relay_error + unit)" where
  "pin_key sender key_hex v = (case hget (rv_key_pins v) sender of
     None \<Rightarrow>
       (let pins = (if length (rv_key_pins v) \<ge> MAX_RELAY_PINS then [] else rv_key_pins v)
        in (v\<lparr> rv_key_pins := hput sender key_hex pins \<rparr>, Inr ()))
   | Some prev \<Rightarrow> if prev = key_hex then (v, Inr ()) else (v, Inl KeyChanged))"

text \<open>\<^verbatim>\<open>u64::abs_diff\<close>\<close>
definition abs_diff :: "u64 \<Rightarrow> u64 \<Rightarrow> u64" where
  "abs_diff a b = (if a < b then b - a else a - b)"

definition check :: "string \<Rightarrow> u64 \<Rightarrow> u64 \<Rightarrow> u64 \<Rightarrow> RelayVerifier \<Rightarrow> RelayVerifier \<times> (relay_error + unit)" where
  "check key_hex nonce timestamp now v =
     (if (case hget (rv_last_nonce v) key_hex of None \<Rightarrow> False | Some last_n \<Rightarrow> nonce \<le> last_n)
      then (v, Inl ReplayedNonce)
      else if abs_diff now timestamp > RELAY_MAX_AGE_SECS then (v, Inl OutsideWindow)
      else
        let rate = (if length (rv_rate v) \<ge> MAX_RELAY_TRACKED then [] else rv_rate v);
            (start, count) = (case hget rate key_hex of None \<Rightarrow> (now, 0) | Some e \<Rightarrow> e);
            (start', count') = (if abs_diff now start \<ge> RELAY_RATE_WINDOW_SECS then (now, 0) else (start, count)) in
        if count' \<ge> RELAY_MAX_PER_WINDOW
        then (v\<lparr> rv_rate := hput key_hex (start', count') rate \<rparr>, Inl RateLimited)
        else let nonces = (if length (rv_last_nonce v) \<ge> MAX_RELAY_TRACKED then [] else rv_last_nonce v) in
          (v\<lparr> rv_rate := hput key_hex (start', count' + 1) rate,
              rv_last_nonce := hput key_hex nonce nonces \<rparr>, Inr ()))"

section \<open>Originating a message\<close>

record RelayOrigin =
  ro_signing_key :: bytes
  ro_origin_key_hex :: string
  ro_from_uid :: uid
  ro_to_uid :: uid
  ro_nonce :: u64
  ro_timestamp :: u64
  ro_hops_left :: u8

definition relay_sig_of :: "prims \<Rightarrow> RelayOrigin \<Rightarrow> bytes \<Rightarrow> bytes" where
  "relay_sig_of P o_msg encrypted = sign_relay P (ro_signing_key o_msg) (ro_from_uid o_msg) (ro_to_uid o_msg)
     (ro_nonce o_msg) (ro_timestamp o_msg) encrypted"

definition build_relay_request :: "prims \<Rightarrow> RelayOrigin \<Rightarrow> bytes \<Rightarrow> PeerMessage" where
  "build_relay_request P o_msg encrypted =
     RelayRequest (ro_from_uid o_msg) (ro_to_uid o_msg) (ro_origin_key_hex o_msg) (ro_nonce o_msg)
       (ro_timestamp o_msg) (min (ro_hops_left o_msg) RELAY_MAX_HOPS) (relay_sig_of P o_msg encrypted) encrypted"

definition build_relay_response :: "prims \<Rightarrow> RelayOrigin \<Rightarrow> bytes \<Rightarrow> PeerMessage" where
  "build_relay_response P o_msg encrypted =
     RelayResponse (ro_from_uid o_msg) (ro_to_uid o_msg) (ro_origin_key_hex o_msg) (ro_nonce o_msg)
       (ro_timestamp o_msg) (min (ro_hops_left o_msg) RELAY_MAX_HOPS) (relay_sig_of P o_msg encrypted) encrypted"

section \<open>Properties\<close>

lemma be4_inject: "m < 2 ^ 32 \<Longrightarrow> n < 2 ^ 32 \<Longrightarrow> be_bytes 4 m = be_bytes 4 n \<longleftrightarrow> m = n"
  by (intro be_bytes_inject) simp_all

text \<open>C25: A relay signature binds sender, recipient, nonce, timestamp and payload: for fields shorter than
  4 GiB the signed bytes determine all five, so no admissible message can be re-read as another; what an
  originator builds verifies under its public key, whatever relays do to the hop count.\<close>
theorem relay_signature_binds:
  assumes "length f < 2 ^ 32" and "length f' < 2 ^ 32" and "length t < 2 ^ 32" and "length t' < 2 ^ 32"
  shows "(relay_signature_message f t n ts p = relay_signature_message f' t' n' ts' p' \<longleftrightarrow>
      f = f' \<and> t = t' \<and> n = n' \<and> ts = ts' \<and> p = p')
    \<and> (sig_law P \<longrightarrow> verify_relay P (ed_public P sk) f t n ts p (sign_relay P sk f t n ts p))"
  using be4_inject [OF assms(1,2)] be4_inject [OF assms(3,4)]
  by (auto simp: relay_signature_message_def verify_relay_def sign_relay_def sig_law_def)

theorem relay_signature_binds_witness:
  "relay_signature_message ''ab'' ''c'' 1 2 [3] \<noteq> relay_signature_message ''a'' ''bc'' 1 2 [3]"
  using relay_signature_binds [of "''ab''" "''a''" "''c''" "''bc''" 1 2 "[3]" 1 2 "[3]"] by simp

text \<open>A stream of admission requests: key, nonce, timestamp, current time. The result lists the
  admitted requests in order.\<close>
type_synonym relay_req = "string \<times> u64 \<times> u64 \<times> u64"

fun admitted :: "relay_req list \<Rightarrow> RelayVerifier \<Rightarrow> relay_req list" where
  "admitted [] v = []"
| "admitted ((k, n, ts, now) # rs) v = (case check k n ts now v of
     (v', Inl _) \<Rightarrow> admitted rs v'
   | (v', Inr _) \<Rightarrow> (k, n, ts, now) # admitted rs v')"

lemma check_nonces:
  assumes "check k n ts now v = (v', res)" and "length (rv_last_nonce v) < MAX_RELAY_TRACKED"
  shows "rv_last_nonce v' = (case res of Inl _ \<Rightarrow> rv_last_nonce v | Inr _ \<Rightarrow> hput k n (rv_last_nonce v))"
    and "res = Inr () \<Longrightarrow> (case hget (rv_last_nonce v) k of None \<Rightarrow> True | Some l \<Rightarrow> l < n)"
  using assms by (auto simp: check_def Let_def split: if_splits option.splits prod.splits)

lemma tracked_bound:
  assumes "hwf m" and "set (hkeys m) \<subseteq> S" and "finite S" and "card S < MAX_RELAY_TRACKED"
  shows "length m < MAX_RELAY_TRACKED"
proof -
  have "length m = card (set (hkeys m))"
    using assms(1) by (simp add: hwf_def distinct_card) (simp add: hkeys_def)
  also have "\<dots> \<le> card S" using assms(2,3) by (simp add: card_mono)
  finally show ?thesis using assms(4) by simp
qed

definition above_last :: "RelayVerifier \<Rightarrow> string \<Rightarrow> u64 \<Rightarrow> bool" where
  "above_last v k n = (case hget (rv_last_nonce v) k of None \<Rightarrow> True | Some l \<Rightarrow> l < n)"

lemma admitted_increasing:
  fixes k :: string
  assumes "hwf (rv_last_nonce v)" and "set (hkeys (rv_last_nonce v)) \<subseteq> S" and "fst ` set rs \<subseteq> S"
    and "finite S" and "card S < MAX_RELAY_TRACKED"
  defines "ns \<equiv> map (\<lambda>(k, n, _). n) (filter (\<lambda>(k', _). k' = k) (admitted rs v))"
  shows "sorted_wrt (<) ns \<and> (\<forall>n \<in> set ns. above_last v k n)"
  unfolding ns_def using assms(1-5)
proof (induction rs arbitrary: v)
  case Nil
  then show ?case by simp
next
  case (Cons r rs)
  obtain k' n ts now where r: "r = (k', n, ts, now)" by (cases r)
  obtain v' res where c: "check k' n ts now v = (v', res)" by (metis surj_pair)
  have len: "length (rv_last_nonce v) < MAX_RELAY_TRACKED" using Cons.prems by (intro tracked_bound) auto
  note ch = check_nonces [OF c len]
  have wf: "hwf (rv_last_nonce v')" "set (hkeys (rv_last_nonce v')) \<subseteq> S"
    using ch(1) Cons.prems by (auto simp: r hkeys_hput split: sum.splits if_splits)
  have IH: "sorted_wrt (<) (map (\<lambda>(k, n, _). n) (filter (\<lambda>(k', _). k' = k) (admitted rs v')))
      \<and> (\<forall>n \<in> set (map (\<lambda>(k, n, _). n) (filter (\<lambda>(k', _). k' = k) (admitted rs v'))). above_last v' k n)"
    using Cons.prems wf by (intro Cons.IH) auto
  show ?case
  proof (cases res)
    case (Inl e)
    with ch(1) have "above_last v' = above_last v" by (simp add: above_last_def fun_eq_iff)
    with IH c Inl show ?thesis by (simp add: r)
  next
    case (Inr u)
    then have new: "above_last v k' n" and upd: "rv_last_nonce v' = hput k' n (rv_last_nonce v)"
      using ch by (auto simp: above_last_def)
    have "above_last v k m" if "above_last v' k m" for m
      using that new by (auto simp: above_last_def upd split: if_splits option.splits intro: less_trans)
    moreover have "n < m" if "above_last v' k m" "k' = k" for m
      using that by (simp add: above_last_def upd)
    ultimately show ?thesis using IH c Inr new by (auto simp: r)
  qed
qed

lemma admitted_fresh: "(k, n, ts, now) \<in> set (admitted rs v) \<Longrightarrow> abs_diff now ts \<le> RELAY_MAX_AGE_SECS"
proof (induction rs v rule: admitted.induct)
  case (2 k' n' ts' now' rs v)
  then show ?case
    by (cases "check k' n' ts' now' v") (auto simp: check_def Let_def split: sum.splits if_splits prod.splits option.splits)
qed simp

text \<open>C26: Relayed messages are not replayed. As long as fewer than 4096 identity keys are in play, the
  nonces admitted for one key are strictly increasing over the whole life of the verifier, so no
  message is admitted twice; and every admitted message was within 60 seconds of the clock.\<close>
theorem relay_no_replay:
  assumes "card (fst ` set rs) < MAX_RELAY_TRACKED"
  shows "sorted_wrt (<) (map (\<lambda>(k, n, _). n) (filter (\<lambda>(k', _). k' = k) (admitted rs RelayVerifier_new)))
    \<and> (\<forall>(k, n, ts, now) \<in> set (admitted rs RelayVerifier_new). abs_diff now ts \<le> 60)"
  using admitted_increasing [of RelayVerifier_new "fst ` set rs" rs k] assms admitted_fresh [of _ _ _ _ rs RelayVerifier_new]
  by (auto simp: RelayVerifier_new_def hkeys_def RELAY_MAX_AGE_SECS_def)

theorem relay_no_replay_witness:
  "sorted_wrt (<) (map (\<lambda>(k, n, _). n) (filter (\<lambda>(k', _). k' = ''aa'')
     (admitted [(''aa'', 5, 100, 100), (''aa'', 5, 100, 101), (''bb'', 1, 100, 101)] RelayVerifier_new)))"
  by (rule relay_no_replay [THEN conjunct1]) (simp add: MAX_RELAY_TRACKED_def)

section \<open>The rate limit\<close>

lemma unat_abs_diff: "unat (abs_diff a b) = (if unat a < unat b then unat b - unat a else unat a - unat b)"
  by (simp add: abs_diff_def word_less_nat_alt unat_sub_if_size)

definition in_window :: "u64 \<Rightarrow> u64 \<Rightarrow> bool" where
  "in_window T t \<longleftrightarrow> unat T \<le> unat t \<and> unat t < unat T + 60"

text \<open>How many more messages of key \<open>k\<close> can be admitted at times in the window starting at \<open>T\<close>.\<close>
definition budget :: "u64 \<Rightarrow> string \<Rightarrow> RelayVerifier \<Rightarrow> nat" where
  "budget T k v = (case hget (rv_rate v) k of
     None \<Rightarrow> 60
   | Some (st, c) \<Rightarrow> (60 - unat c) + (if in_window T st then 0 else 60))"

lemma window_close: "in_window T a \<Longrightarrow> in_window T b \<Longrightarrow> \<not> abs_diff a b \<ge> RELAY_RATE_WINDOW_SECS"
  by (auto simp: in_window_def RELAY_RATE_WINDOW_SECS_def word_le_nat_alt unat_abs_diff)

lemma unat_succ_small: "\<not> RELAY_MAX_PER_WINDOW \<le> c \<Longrightarrow> unat (c + 1) = unat c + 1 \<and> unat c < 60"
  by (simp add: RELAY_MAX_PER_WINDOW_def word_le_nat_alt unat_word_ariths)

lemma check_rate:
  assumes "check k n ts now v = (v', res)" and "length (rv_rate v) < MAX_RELAY_TRACKED"
  shows "rv_rate v' = rv_rate v \<and> res \<noteq> Inr () \<or>
    (\<exists>st c. (st, c) = (case hget (rv_rate v) k of
          None \<Rightarrow> (now, 0)
        | Some (st, c) \<Rightarrow> if abs_diff now st \<ge> RELAY_RATE_WINDOW_SECS then (now, 0) else (st, c))
      \<and> rv_rate v' = hput k (st, if res = Inr () then c + 1 else c) (rv_rate v)
      \<and> (res = Inr () \<longleftrightarrow> \<not> RELAY_MAX_PER_WINDOW \<le> c))"
proof -
  have "\<not> abs_diff now now \<ge> RELAY_RATE_WINDOW_SECS" by (simp add: abs_diff_def RELAY_RATE_WINDOW_SECS_def)
  then show ?thesis
    using assms by (auto simp: check_def Let_def split: if_splits option.splits prod.splits)
qed

lemma check_budget:
  assumes "check k' n ts now v = (v', res)" and "length (rv_rate v) < MAX_RELAY_TRACKED" and "in_window T now"
  shows "budget T k v' + (if k' = k \<and> res = Inr () then 1 else 0) \<le> budget T k v"
proof (cases "rv_rate v' = rv_rate v \<and> res \<noteq> Inr ()")
  case True
  then show ?thesis by (simp add: budget_def)
next
  case False
  then obtain st c where e: "(st, c) = (case hget (rv_rate v) k' of
          None \<Rightarrow> (now, 0)
        | Some (st, c) \<Rightarrow> if abs_diff now st \<ge> RELAY_RATE_WINDOW_SECS then (now, 0) else (st, c))"
    and r: "rv_rate v' = hput k' (st, if res = Inr () then c + 1 else c) (rv_rate v)"
    and acc: "res = Inr () \<longleftrightarrow> \<not> RELAY_MAX_PER_WINDOW \<le> c"
    using check_rate [OF assms(1,2)] by blast
  show ?thesis
  proof (cases "k' = k")
    case other: False
    then show ?thesis by (simp add: budget_def r)
  next
    case same: True
    have full: "(60 - unat c) + (if in_window T st then 0 else 60) \<le> budget T k v"
      using e assms(3) same window_close [OF assms(3)]
      by (auto simp: budget_def split: option.splits prod.splits if_splits)
    show ?thesis
      using full same acc unat_succ_small [of c] by (auto simp: budget_def [of T k v'] r)
  qed
qed

lemma check_rate_keys:
  assumes "check k n ts now v = (v', res)" and "length (rv_rate v) < MAX_RELAY_TRACKED" and "hwf (rv_rate v)"
    and "set (hkeys (rv_rate v)) \<subseteq> S" and "k \<in> S"
  shows "hwf (rv_rate v') \<and> set (hkeys (rv_rate v')) \<subseteq> S"
  using check_rate [OF assms(1,2)] assms(3-5) by (auto simp: hkeys_hput split: if_splits)

lemma admitted_budget:
  assumes "hwf (rv_rate v)" and "set (hkeys (rv_rate v)) \<subseteq> S" and "fst ` set rs \<subseteq> S"
    and "finite S" and "card S < MAX_RELAY_TRACKED" and "\<forall>(k, n, ts, now) \<in> set rs. in_window T now"
  shows "length (filter (\<lambda>(k', _). k' = k) (admitted rs v)) \<le> budget T k v"
  using assms
proof (induction rs arbitrary: v)
  case Nil
  then show ?case by simp
next
  case (Cons r rs)
  obtain k' n ts now where r: "r = (k', n, ts, now)" by (cases r)
  obtain v' res where c: "check k' n ts now v = (v', res)" by (metis surj_pair)
  have len: "length (rv_rate v) < MAX_RELAY_TRACKED" using Cons.prems by (intro tracked_bound) auto
  have "hwf (rv_rate v') \<and> set (hkeys (rv_rate v')) \<subseteq> S"
    using check_rate_keys [OF c len] Cons.prems by (simp add: r)
  then have IH: "length (filter (\<lambda>(k', _). k' = k) (admitted rs v')) \<le> budget T k v'"
    using Cons.prems by (intro Cons.IH) (auto simp: r)
  have "budget T k v' + (if k' = k \<and> res = Inr () then 1 else 0) \<le> budget T k v"
    using check_budget [OF c len] Cons.prems(6) by (simp add: r)
  with IH show ?case by (cases res) (auto simp: r c)
qed



text \<open>A full nonce table forgets every replay. When 4096 keys are tracked, one fresh message from any
  other key empties the table, and a message of an honest key admitted before can be admitted again
  while its timestamp is still fresh.\<close>
theorem full_table_reopens_replay:
  assumes "length (rv_last_nonce v) \<ge> MAX_RELAY_TRACKED" and "length (rv_rate v) \<ge> MAX_RELAY_TRACKED"
    and "hget (rv_last_nonce v) k = Some n" and "k' \<noteq> k" and "\<not> has_key (rv_last_nonce v) k'"
    and "abs_diff now ts \<le> RELAY_MAX_AGE_SECS"
  shows "check k n ts now v = (v, Inl ReplayedNonce)
    \<and> (\<exists>v1 v2. check k' 1 now now v = (v1, Inr ()) \<and> check k n ts now v1 = (v2, Inr ()))"
proof -
  have "\<not> abs_diff now now > RELAY_MAX_AGE_SECS" "\<not> abs_diff now now \<ge> RELAY_RATE_WINDOW_SECS"
    "\<not> RELAY_MAX_PER_WINDOW \<le> 0" "\<not> MAX_RELAY_TRACKED \<le> 1"
    by (simp_all add: abs_diff_def RELAY_RATE_WINDOW_SECS_def RELAY_MAX_PER_WINDOW_def MAX_RELAY_TRACKED_def)
  with assms show ?thesis by (simp add: check_def has_key_def not_less)
qed

definition full_verifier :: RelayVerifier where
  "full_verifier = \<lparr> rv_last_nonce = map (\<lambda>i. (replicate i CHR ''a'', 7)) [0..<4096],
     rv_rate = map (\<lambda>i. (replicate i CHR ''a'', (0, 1))) [0..<4096], rv_key_pins = [] \<rparr>"

theorem full_table_reopens_replay_witness:
  "\<exists>v1 v2. check ''b'' 1 50 50 full_verifier = (v1, Inr ()) \<and> check [] 7 40 50 v1 = (v2, Inr ())"
proof -
  have 1: "hget (rv_last_nonce full_verifier) [] = Some 7"
    unfolding full_verifier_def by (subst upt_conv_Cons) simp_all
  have 2: "\<not> has_key (rv_last_nonce full_verifier) ''b''"
    by (auto simp: full_verifier_def has_key_iff hkeys_def Cons_replicate_eq simp del: upt_rec_numeral)
  have 3: "length (rv_last_nonce full_verifier) \<ge> MAX_RELAY_TRACKED" "length (rv_rate full_verifier) \<ge> MAX_RELAY_TRACKED"
    by (simp_all add: full_verifier_def MAX_RELAY_TRACKED_def del: upt_rec_numeral)
  have 4: "abs_diff 50 40 \<le> RELAY_MAX_AGE_SECS" by (simp add: abs_diff_def RELAY_MAX_AGE_SECS_def)
  show ?thesis
    by (rule full_table_reopens_replay [OF 3 1 _ 2 4, THEN conjunct2]) simp
qed

end
