(* ===== verification/Session.thy ===== *)
theory Session
  imports Messages
begin

text \<open>
  \<^verbatim>\<open>net/session.rs\<close>: the authenticated X25519 handshake and the secure frames that follow it. A peer is
  the bytes it has sent so far (input still to be read) and the bytes we write; ephemeral secrets and
  nonces drawn from \<^verbatim>\<open>OsRng\<close> are arguments. JSON conversion is the parameter \<open>J\<close>. A poisoned key
  directory (\<^verbatim>\<open>known_keys.lock()\<close> failing) is \<^const>\<open>None\<close>.
\<close>

section \<open>Data\<close>

definition MAX_FRAME :: nat where "MAX_FRAME = 65536"

record json =
  to_json :: "PeerMessage \<Rightarrow> string"
  from_json :: "string \<Rightarrow> PeerMessage option"

text \<open>What the code relies on of serde: the text of this message is UTF-8 and parses back.\<close>
definition json_ok :: "json \<Rightarrow> PeerMessage \<Rightarrow> bool" where
  "json_ok J m \<longleftrightarrow> from_json J (to_json J m) = Some m \<and> str_valid (to_json J m)
     \<and> length (to_json J m) \<le> MAX_FRAME"

record SessionAuth =
  sa_uid :: uid
  sa_public_hex :: string
  sa_signing_key :: bytes

record SessionKeys =
  sk_send_key :: bytes
  sk_recv_key :: bytes
  sk_peer_uid :: uid
  sk_peer_public_hex :: string
  sk_peer_authenticated :: bool

datatype PeerSigCheck = Verified | Unverified | Rejected

section \<open>Handshake\<close>

definition check_peer_sig ::
  "prims \<Rightarrow> (uid, string) hmap option \<Rightarrow> uid \<Rightarrow> string \<Rightarrow> bytes \<Rightarrow> bytes \<Rightarrow> PeerSigCheck" where
  "check_peer_sig P known_keys u claimed_key_hex msg sig = (case known_keys of
     None \<Rightarrow> Unverified
   | Some m \<Rightarrow> (case hget m u of
       None \<Rightarrow> Unverified
     | Some expected \<Rightarrow>
         if expected \<noteq> claimed_key_hex then Rejected
         else (case hex_decode32 expected of
           None \<Rightarrow> Unverified
         | Some vk \<Rightarrow>
             if \<not> ed_key_ok P vk then Unverified
             else if ed_sig_ok P sig \<and> ed_verify P vk msg sig then Verified else Rejected)))"

definition hex_to_32 :: "string \<Rightarrow> io_error + bytes" where
  "hex_to_32 hex = (case hex_decode hex of
     None \<Rightarrow> Inl (InvalidData ''bad hex'')
   | Some bs \<Rightarrow> if length bs = 32 then Inr bs else Inl (InvalidData ''bad key length''))"

definition derive_shared :: "prims \<Rightarrow> bytes \<Rightarrow> bytes \<Rightarrow> io_error + bytes" where
  "derive_shared P secret peer_eph =
     (let shared = x_dh P secret peer_eph in
      if \<not> x_contributory P shared then Inl (InvalidData ''peer ephemeral key is not contributory (low-order point)'')
      else Inr shared)"

definition send_json :: "json \<Rightarrow> bytes \<Rightarrow> PeerMessage \<Rightarrow> bytes" where
  "send_json J stream msg =
     (let payload = str_bytes (to_json J msg) in stream @ be_bytes 4 (length payload) @ payload)"

definition recv_json :: "json \<Rightarrow> bytes \<Rightarrow> io_error + (PeerMessage \<times> bytes)" where
  "recv_json J stream = (case read_exact 4 stream of
     Inl e \<Rightarrow> Inl e
   | Inr (len_buf, s1) \<Rightarrow>
       (let len = from_be len_buf in
        if len > MAX_FRAME then Inl (InvalidData ''frame too large'')
        else (case read_exact len s1 of
          Inl e \<Rightarrow> Inl e
        | Inr (buf, rest) \<Rightarrow> (case from_utf8 buf of
            None \<Rightarrow> Inl (InvalidData ''non-utf8 frame'')
          | Some txt \<Rightarrow> (case from_json J txt of
              None \<Rightarrow> Inl (InvalidData ''bad JSON frame'')
            | Some m \<Rightarrow> Inr (m, rest))))))"

definition auth_challenge :: "prims \<Rightarrow> bytes \<Rightarrow> bytes \<Rightarrow> SessionAuth \<Rightarrow> PeerMessage" where
  "auth_challenge P eph_secret nonce auth =
     (let eph_pub = x_public P eph_secret in
      AuthChallenge (sa_uid auth) (sa_public_hex auth) (hex_encode eph_pub) nonce
        (ed_sign P (sa_signing_key auth) (eph_pub @ nonce)))"

definition session_keys :: "prims \<Rightarrow> bytes \<Rightarrow> bytes \<Rightarrow> bytes \<Rightarrow> bytes \<times> bytes" where
  "session_keys P shared eph_a eph_b =
     (let master = derive_session_key P shared eph_a eph_b
      in (hkdf_expand32 P master (str_bytes ''chrono-dir-a''), hkdf_expand32 P master (str_bytes ''chrono-dir-b'')))"

text \<open>The initiator: what it writes, then the outcome of reading \<open>input\<close> (keys and unread input).\<close>
definition outbound_handshake :: "prims \<Rightarrow> json \<Rightarrow> bytes \<Rightarrow> bytes \<Rightarrow> SessionAuth \<Rightarrow> (uid, string) hmap option
    \<Rightarrow> bytes \<Rightarrow> bytes \<times> (io_error + (SessionKeys \<times> bytes))" where
  "outbound_handshake P J eph_secret nonce auth known_keys input =
     (let eph_pub = x_public P eph_secret in
      (send_json J [] (auth_challenge P eph_secret nonce auth),
       case recv_json J input of
         Inl e \<Rightarrow> Inl e
       | Inr (AuthResponse resp_uid resp_key_hex resp_eph_hex resp_sig, rest) \<Rightarrow>
           (if \<not> validate_uid resp_uid then Inl (InvalidData ''invalid responder uid'')
            else case hex_to_32 resp_eph_hex of
              Inl e \<Rightarrow> Inl e
            | Inr resp_eph \<Rightarrow>
                (case check_peer_sig P known_keys resp_uid resp_key_hex (eph_pub @ resp_eph @ nonce) resp_sig of
                   Rejected \<Rightarrow> Inl (PermissionDenied resp_uid)
                 | verdict \<Rightarrow> (case derive_shared P eph_secret resp_eph of
                     Inl e \<Rightarrow> Inl e
                   | Inr shared \<Rightarrow>
                       (let (dir_a, dir_b) = session_keys P shared eph_pub resp_eph
                        in Inr (\<lparr> sk_send_key = dir_a, sk_recv_key = dir_b, sk_peer_uid = resp_uid,
                                  sk_peer_public_hex = resp_key_hex,
                                  sk_peer_authenticated = (verdict = Verified) \<rparr>, rest)))))
       | Inr _ \<Rightarrow> Inl (InvalidData ''expected auth_response'')))"

text \<open>The responder: reads the challenge from \<open>input\<close>; what it has written by the time it returns.\<close>
definition inbound_handshake :: "prims \<Rightarrow> json \<Rightarrow> bytes \<Rightarrow> SessionAuth \<Rightarrow> (uid, string) hmap option
    \<Rightarrow> bytes \<Rightarrow> bytes \<times> (io_error + (SessionKeys \<times> bytes))" where
  "inbound_handshake P J eph_secret auth known_keys input =
     (case recv_json J input of
        Inl e \<Rightarrow> ([], Inl e)
      | Inr (AuthChallenge chal_uid chal_key_hex chal_eph_hex chal_nonce chal_sig, rest) \<Rightarrow>
          (if \<not> validate_uid chal_uid then ([], Inl (InvalidData ''invalid challenger uid''))
           else case hex_to_32 chal_eph_hex of
             Inl e \<Rightarrow> ([], Inl e)
           | Inr chal_eph \<Rightarrow>
               (case check_peer_sig P known_keys chal_uid chal_key_hex (chal_eph @ chal_nonce) chal_sig of
                  Rejected \<Rightarrow> ([], Inl (PermissionDenied chal_uid))
                | verdict \<Rightarrow>
                    (let eph_pub = x_public P eph_secret;
                         resp_sig = ed_sign P (sa_signing_key auth) (chal_eph @ eph_pub @ chal_nonce);
                         out = send_json J [] (AuthResponse (sa_uid auth) (sa_public_hex auth)
                           (hex_encode eph_pub) resp_sig)
                     in (out, case derive_shared P eph_secret chal_eph of
                          Inl e \<Rightarrow> Inl e
                        | Inr shared \<Rightarrow>
                            (let (dir_a, dir_b) = session_keys P shared chal_eph eph_pub
                             in Inr (\<lparr> sk_send_key = dir_b, sk_recv_key = dir_a, sk_peer_uid = chal_uid,
                                       sk_peer_public_hex = chal_key_hex,
                                       sk_peer_authenticated = (verdict = Verified) \<rparr>, rest))))))
      | Inr _ \<Rightarrow> ([], Inl (InvalidData ''expected auth_challenge'')))"

section \<open>Secure frames\<close>

text \<open>The new counter and, unless encryption fails, the extended stream.\<close>
definition send_secure_frame ::
  "prims \<Rightarrow> bytes \<Rightarrow> bytes \<Rightarrow> bytes \<Rightarrow> bytes \<Rightarrow> u64 \<Rightarrow> u64 \<times> (io_error + bytes)" where
  "send_secure_frame P nonce stream payload key seq =
     (let seq' = seq + 1;
          plain = be_bytes 8 (unat seq') @ payload in
      (seq', case encrypt_e2e P nonce plain key of
         None \<Rightarrow> Inl (OtherError ''encrypt failed'')
       | Some enc \<Rightarrow> Inr (stream @ be_bytes 4 (length enc) @ enc)))"

definition recv_secure_frame ::
  "prims \<Rightarrow> bytes \<Rightarrow> bytes \<Rightarrow> u64 \<Rightarrow> io_error + (bytes \<times> bytes \<times> u64)" where
  "recv_secure_frame P stream key last_seq = (case read_exact 4 stream of
     Inl e \<Rightarrow> Inl e
   | Inr (len_buf, s1) \<Rightarrow>
       (let len = from_be len_buf in
        if len > MAX_FRAME then Inl (InvalidData ''frame too large'')
        else (case read_exact len s1 of
          Inl e \<Rightarrow> Inl e
        | Inr (enc, rest) \<Rightarrow> (case decrypt_e2e P enc key of
            None \<Rightarrow> Inl (InvalidData ''decrypt/authenticate failed'')
          | Some plain \<Rightarrow>
              if length plain < 8 then Inl (InvalidData ''short frame'')
              else let seq = of_nat (from_be (take 8 plain)) in
                if seq \<le> last_seq then Inl (InvalidData ''replayed frame'')
                else Inr (drop 8 plain, rest, seq)))))"

section \<open>Honest handshakes agree\<close>

lemma recv_send_json: "json_ok J m \<Longrightarrow> recv_json J (send_json J [] m @ rest) = Inr (m, rest)"
  by (simp add: recv_json_def send_json_def json_ok_def MAX_FRAME_def from_be_be_bytes Let_def)

lemma hex_to_32_encode [simp]: "length bs = 32 \<Longrightarrow> hex_to_32 (hex_encode bs) = Inr bs"
  by (simp add: hex_to_32_def)

lemma hex_to_32_length: "hex_to_32 hex = Inr bs \<Longrightarrow> length bs = 32"
  by (auto simp: hex_to_32_def split: option.splits if_splits)

text \<open>A party whose announced key is the one it signs with.\<close>
definition party_ok :: "prims \<Rightarrow> SessionAuth \<Rightarrow> bool" where
  "party_ok P a \<longleftrightarrow> validate_uid (sa_uid a) \<and> sa_public_hex a = hex_encode (ed_public P (sa_signing_key a))"

definition knows :: "(uid, string) hmap \<Rightarrow> SessionAuth \<Rightarrow> bool" where
  "knows kk a \<longleftrightarrow> hget kk (sa_uid a) = Some (sa_public_hex a)"

definition not_contradicted :: "(uid, string) hmap \<Rightarrow> SessionAuth \<Rightarrow> bool" where
  "not_contradicted kk a \<longleftrightarrow> hget kk (sa_uid a) = None \<or> knows kk a"

lemma check_honest:
  assumes "sig_law P" and "keys_law P" and "party_ok P a" and "not_contradicted kk a"
  shows "check_peer_sig P (Some kk) (sa_uid a) (sa_public_hex a) m (ed_sign P (sa_signing_key a) m)
    = (if knows kk a then Verified else Unverified)"
  using assms
  by (auto simp: check_peer_sig_def not_contradicted_def knows_def party_ok_def sig_law_def keys_law_def)

text \<open>The response an honest responder writes.\<close>
definition auth_response :: "prims \<Rightarrow> bytes \<Rightarrow> bytes \<Rightarrow> bytes \<Rightarrow> SessionAuth \<Rightarrow> PeerMessage" where
  "auth_response P ea eb nonce b = AuthResponse (sa_uid b) (sa_public_hex b) (hex_encode (x_public P eb))
     (ed_sign P (sa_signing_key b) (x_public P ea @ x_public P eb @ nonce))"

definition keys_of :: "prims \<Rightarrow> bytes \<Rightarrow> bytes \<Rightarrow> bytes \<times> bytes" where
  "keys_of P ea eb = session_keys P (x_dh P ea (x_public P eb)) (x_public P ea) (x_public P eb)"

definition view_of :: "bytes \<Rightarrow> bytes \<Rightarrow> (uid, string) hmap \<Rightarrow> SessionAuth \<Rightarrow> SessionKeys" where
  "view_of send_k recv_k kk peer = \<lparr> sk_send_key = send_k, sk_recv_key = recv_k, sk_peer_uid = sa_uid peer,
     sk_peer_public_hex = sa_public_hex peer, sk_peer_authenticated = knows kk peer \<rparr>"

lemma handshake_outcome:
  fixes P :: prims and J :: json
  assumes laws: "sig_law P" "keys_law P" "dh_law P"
    and parties: "party_ok P a" "party_ok P b" "not_contradicted ka b" "not_contradicted kb a"
    and contrib: "x_contributory P (x_dh P ea (x_public P eb))"
    and json: "json_ok J (auth_challenge P ea nonce a)" "json_ok J (auth_response P ea eb nonce b)"
  shows "outbound_handshake P J ea nonce a (Some ka) (send_json J [] (auth_response P ea eb nonce b) @ rest) =
      (send_json J [] (auth_challenge P ea nonce a),
       Inr (view_of (fst (keys_of P ea eb)) (snd (keys_of P ea eb)) ka b, rest))"
    and "inbound_handshake P J eb b (Some kb) (send_json J [] (auth_challenge P ea nonce a) @ rest) =
      (send_json J [] (auth_response P ea eb nonce b),
       Inr (view_of (snd (keys_of P ea eb)) (fst (keys_of P ea eb)) kb a, rest))"
proof -
  have len: "length (x_public P e) = 32" for e using laws(2) by (simp add: keys_law_def)
  have dh: "x_dh P ea (x_public P eb) = x_dh P eb (x_public P ea)" using laws(3) by (simp add: dh_law_def)
  have valid: "validate_uid (sa_uid a)" "validate_uid (sa_uid b)" using parties by (simp_all add: party_ok_def)
  note facts = recv_send_json [OF json(1)] recv_send_json [OF json(2)]
    check_honest [OF laws(1,2) parties(1) parties(4)] check_honest [OF laws(1,2) parties(2) parties(3)]
  show "outbound_handshake P J ea nonce a (Some ka) (send_json J [] (auth_response P ea eb nonce b) @ rest) =
      (send_json J [] (auth_challenge P ea nonce a),
       Inr (view_of (fst (keys_of P ea eb)) (snd (keys_of P ea eb)) ka b, rest))"
    using contrib len valid facts
    by (simp add: outbound_handshake_def auth_response_def derive_shared_def keys_of_def view_of_def Let_def split_beta)
  show "inbound_handshake P J eb b (Some kb) (send_json J [] (auth_challenge P ea nonce a) @ rest) =
      (send_json J [] (auth_response P ea eb nonce b),
       Inr (view_of (snd (keys_of P ea eb)) (fst (keys_of P ea eb)) kb a, rest))"
    using contrib dh len valid facts
    by (simp add: inbound_handshake_def auth_challenge_def auth_response_def derive_shared_def keys_of_def
        view_of_def Let_def split_beta)
qed

text \<open>C7: An honest handshake gives both sides the same keys. When the initiator's challenge reaches the
  responder and the response comes back, both sides finish; what one sends with the other receives
  with, in both directions; each learns the other's name and key, and counts the other as
  authenticated exactly when it already had that key on record.\<close>
theorem handshake_agrees:
  fixes P :: prims and J :: json
  assumes laws: "sig_law P" "keys_law P" "dh_law P"
    and parties: "party_ok P a" "party_ok P b" "not_contradicted ka b" "not_contradicted kb a"
    and contrib: "x_contributory P (x_dh P ea (x_public P eb))"
    and json: "json_ok J (auth_challenge P ea nonce a)" "json_ok J (auth_response P ea eb nonce b)"
  shows "\<exists>A B chal resp. outbound_handshake P J ea nonce a (Some ka) resp = (chal, Inr (A, []))
    \<and> inbound_handshake P J eb b (Some kb) chal = (resp, Inr (B, []))
    \<and> sk_send_key A = sk_recv_key B \<and> sk_recv_key A = sk_send_key B
    \<and> sk_peer_uid A = sa_uid b \<and> sk_peer_uid B = sa_uid a
    \<and> sk_peer_public_hex A = sa_public_hex b \<and> sk_peer_public_hex B = sa_public_hex a
    \<and> sk_peer_authenticated A = knows ka b \<and> sk_peer_authenticated B = knows kb a"
  using handshake_outcome [OF assms, of "[]"]
  by (intro exI [of _ "view_of (fst (keys_of P ea eb)) (snd (keys_of P ea eb)) ka b"]
      exI [of _ "view_of (snd (keys_of P ea eb)) (fst (keys_of P ea eb)) kb a"]
      exI [of _ "send_json J [] (auth_challenge P ea nonce a)"]
      exI [of _ "send_json J [] (auth_response P ea eb nonce b)"]) (simp add: view_of_def)

definition demo_party :: "string \<Rightarrow> SessionAuth" where
  "demo_party u = \<lparr> sa_uid = u, sa_public_hex = hex_encode (ed_public toy_prims (str_bytes u)),
     sa_signing_key = str_bytes u \<rparr>"

text \<open>A JSON stand-in that distinguishes exactly the two messages of a run.\<close>
definition two_json :: "PeerMessage \<Rightarrow> PeerMessage \<Rightarrow> json" where
  "two_json chal resp = \<lparr> to_json = (\<lambda>m. if m = chal then ''c'' else ''r''),
     from_json = (\<lambda>s. if s = ''c'' then Some chal else Some resp) \<rparr>"

abbreviation demo_chal :: PeerMessage where
  "demo_chal \<equiv> auth_challenge toy_prims [1] [9] (demo_party ''ann'')"

abbreviation demo_resp :: PeerMessage where
  "demo_resp \<equiv> auth_response toy_prims [1] [2] [9] (demo_party ''bob'')"

lemma demo_json_ok: "json_ok (two_json demo_chal demo_resp) demo_chal" "json_ok (two_json demo_chal demo_resp) demo_resp"
  by (simp_all add: json_ok_def two_json_def auth_challenge_def auth_response_def Let_def MAX_FRAME_def
      str_valid_def str_bytes_def utf8_valid_ascii)

lemma validate_demo: "validate_uid ''ann''" "validate_uid ''bob''"
  by (simp_all add: validate_uid_def uid_byte_ok_def str_bytes_def)

lemma demo_parties: "party_ok toy_prims (demo_party ''ann'')" "party_ok toy_prims (demo_party ''bob'')"
  by (simp_all add: party_ok_def demo_party_def validate_demo)

lemma demo_contributory: "x_contributory toy_prims (x_dh toy_prims [1] (x_public toy_prims [2]))"
  by (simp add: toy_prims_def arr_def sum_list_replicate)

definition bob_directory :: "(uid, string) hmap" where
  "bob_directory = [(''bob'', sa_public_hex (demo_party ''bob''))]"

lemma bob_known: "not_contradicted bob_directory (demo_party ''bob'')" "knows bob_directory (demo_party ''bob'')"
  by (simp_all add: not_contradicted_def knows_def bob_directory_def demo_party_def)

lemma nobody_known: "not_contradicted [] a"
  by (simp add: not_contradicted_def)

theorem handshake_agrees_witness:
  "\<exists>A B chal resp. outbound_handshake toy_prims (two_json demo_chal demo_resp) [1] [9] (demo_party ''ann'')
      (Some bob_directory) resp = (chal, Inr (A, []))
    \<and> inbound_handshake toy_prims (two_json demo_chal demo_resp) [2] (demo_party ''bob'') (Some []) chal = (resp, Inr (B, []))
    \<and> sk_send_key A = sk_recv_key B \<and> sk_peer_authenticated A"
  using handshake_agrees [OF toy_sig toy_keys toy_dh demo_parties bob_known(1) nobody_known demo_contributory demo_json_ok]
    bob_known(2) by blast

section \<open>Authentication\<close>

lemma check_verified_iff:
  "check_peer_sig P kk u h m s = Verified \<longleftrightarrow> (\<exists>dir vk. kk = Some dir \<and> hget dir u = Some h \<and>
     hex_decode32 h = Some vk \<and> ed_key_ok P vk \<and> ed_sig_ok P s \<and> ed_verify P vk m s)"
  by (auto simp: check_peer_sig_def split: option.split)

lemma check_not_rejected:
  "check_peer_sig P (Some dir) u h m s \<noteq> Rejected \<Longrightarrow> hget dir u = Some h' \<Longrightarrow> h' = h \<and>
     (\<forall>vk. hex_decode32 h = Some vk \<longrightarrow> ed_key_ok P vk \<longrightarrow> check_peer_sig P (Some dir) u h m s = Verified)"
  by (auto simp: check_peer_sig_def split: option.splits if_splits)



section \<open>Secure frames in sequence\<close>

text \<open>A connection's writer sending a list of (nonce, payload) pairs; \<^const>\<open>None\<close> if one cannot be encrypted.\<close>
fun send_frames :: "prims \<Rightarrow> bytes \<Rightarrow> (bytes \<times> bytes) list \<Rightarrow> u64 \<Rightarrow> bytes \<Rightarrow> bytes option" where
  "send_frames P key [] seq stream = Some stream"
| "send_frames P key ((nonce, p) # ps) seq stream = (case send_secure_frame P nonce stream p key seq of
     (_, Inl _) \<Rightarrow> None
   | (seq', Inr stream') \<Rightarrow> send_frames P key ps seq' stream')"

text \<open>A connection's reader taking at most \<open>n\<close> frames: what it accepted, with sequence numbers, up to
  the first error, which ends the connection.\<close>
fun recv_frames :: "prims \<Rightarrow> bytes \<Rightarrow> nat \<Rightarrow> bytes \<Rightarrow> u64 \<Rightarrow> (bytes \<times> u64) list" where
  "recv_frames P key 0 stream last_seq = []"
| "recv_frames P key (Suc n) stream last_seq = (case recv_secure_frame P stream key last_seq of
     Inl _ \<Rightarrow> []
   | Inr (p, rest, seq) \<Rightarrow> (p, seq) # recv_frames P key n rest seq)"

lemma send_frames_appends:
  "send_frames P key ps seq stream = map_option ((@) stream) (send_frames P key ps seq [])"
proof (induction ps arbitrary: seq stream)
  case (Cons np ps)
  obtain nonce p where np: "np = (nonce, p)" by (cases np)
  show ?case
  proof (cases "encrypt_e2e P nonce (be_bytes 8 (unat (seq + 1)) @ p) key")
    case (Some enc)
    let ?f = "be_bytes 4 (length enc) @ enc"
    show ?thesis using Some Cons.IH [of "seq + 1" "stream @ ?f"] Cons.IH [of "seq + 1" ?f]
      by (simp add: np send_secure_frame_def Let_def option.map_comp comp_def)
  qed (simp add: np send_secure_frame_def Let_def)
qed simp

text \<open>One encrypted frame on the wire.\<close>
definition frame_of :: "bytes \<Rightarrow> bytes" where
  "frame_of enc = be_bytes 4 (length enc) @ enc"

lemma recv_one:
  assumes "aead_law P" and "length nonce = 12" and "encrypt_e2e P nonce (be_bytes 8 (unat seq) @ p) key = Some enc"
    and "length p \<le> MAX_FRAME - 36" and "last_seq < seq"
  shows "recv_secure_frame P (frame_of enc @ rest) key last_seq = Inr (p, rest, seq)"
proof -
  have len: "length enc = length p + 36" using length_encrypt_e2e [OF assms(1-3)] by simp
  have "unat seq < 256 ^ 8" using unsigned_less [of seq] by simp
  then have "(of_nat (from_be (be_bytes 8 (unat seq))) :: u64) = seq" by (simp add: from_be_be_bytes)
  then show ?thesis using assms len decrypt_encrypt_e2e [OF assms(1-3)]
    by (simp add: recv_secure_frame_def frame_of_def MAX_FRAME_def from_be_be_bytes)
qed

fun seqs_from :: "u64 \<Rightarrow> nat \<Rightarrow> u64 list" where
  "seqs_from s 0 = []"
| "seqs_from s (Suc n) = (s + 1) # seqs_from (s + 1) n"

text \<open>Secure frames arrive complete and in order. Whatever list of payloads a writer sends, each within
  the frame limit and with the counter not yet exhausted, a reader holding the same key and the same
  counter takes exactly those payloads off the stream, one after the other, numbered consecutively.\<close>
theorem secure_frames_in_order:
  assumes "aead_law P" and "send_frames P key ps seq [] = Some stream"
    and "\<forall>(nonce, p) \<in> set ps. length nonce = 12 \<and> length p \<le> MAX_FRAME - 36"
    and "unat seq + length ps < 2 ^ 64"
  shows "recv_frames P key (length ps) stream seq = zip (map snd ps) (seqs_from seq (length ps))"
  using assms
proof (induction ps arbitrary: seq stream)
  case (Cons np ps)
  obtain nonce p where np: "np = (nonce, p)" by (cases np)
  have next_seq: "unat (seq + 1) = Suc (unat seq)"
    using Cons.prems(4) by (simp add: unat_word_ariths)
  obtain enc where enc: "encrypt_e2e P nonce (be_bytes 8 (unat (seq + 1)) @ p) key = Some enc"
    and more: "send_frames P key ps (seq + 1) (frame_of enc) = Some stream"
    using Cons.prems(2) by (auto simp: np send_secure_frame_def frame_of_def Let_def split: option.splits)
  obtain tail where tail: "stream = frame_of enc @ tail" "send_frames P key ps (seq + 1) [] = Some tail"
    using more send_frames_appends [of P key ps "seq + 1" "frame_of enc"] by auto
  have "seq < seq + 1" using next_seq by (simp add: word_less_nat_alt)
  then have "recv_secure_frame P stream key seq = Inr (p, tail, seq + 1)"
    using recv_one [OF Cons.prems(1) _ enc] Cons.prems(3) tail by (simp add: np)
  moreover have "recv_frames P key (length ps) tail (seq + 1) = zip (map snd ps) (seqs_from (seq + 1) (length ps))"
    using Cons.IH [OF Cons.prems(1) tail(2)] Cons.prems next_seq by simp
  ultimately show ?case by (simp add: np)
qed simp

theorem secure_frames_in_order_witness:
  "\<exists>stream. send_frames toy_prims [7] [(replicate 12 1, [10, 20]), (replicate 12 2, [30])] 5 [] = Some stream
    \<and> recv_frames toy_prims [7] (Suc (Suc 0)) stream 5 = [([10, 20], 6), ([30], 7)]"
proof -
  let ?ps = "[(replicate 12 1, [10, 20]), (replicate 12 2, [30])] :: (bytes \<times> bytes) list"
  obtain stream where "send_frames toy_prims [7] ?ps 5 [] = Some stream"
    by (simp add: send_secure_frame_def encrypt_e2e_def toy_prims_def Let_def)
  with secure_frames_in_order [OF toy_aead this] show ?thesis by (simp add: MAX_FRAME_def)
qed

text \<open>C10: No frame is ever accepted twice. On any input at all, replayed, reordered or made up by an
  attacker, the sequence numbers a reader accepts rise strictly from the last one it had.\<close>
theorem secure_frames_no_replay:
  "sorted_wrt (<) (last_seq # map snd (recv_frames P key n stream last_seq))"
proof (induction n arbitrary: stream last_seq)
  case (Suc n)
  show ?case
  proof (cases "recv_secure_frame P stream key last_seq")
    case (Inr r)
    obtain p rest seq where r: "r = (p, rest, seq)" by (cases r)
    have "last_seq < seq" using Inr r
      by (auto simp: recv_secure_frame_def Let_def split: sum.splits option.splits if_splits prod.splits)
    moreover have "sorted_wrt (<) (seq # map snd (recv_frames P key n rest seq))" by (rule Suc.IH)
    ultimately show ?thesis using Inr r by (auto intro: less_trans)
  qed simp
qed simp

text \<open>The sender does not enforce the receiver's limit. A payload of 65501 bytes or more is encrypted
  and sent without error, and the receiver refuses the frame.\<close>
theorem oversized_frame_refused:
  assumes "aead_law P" and "length nonce = 12" and "send_secure_frame P nonce [] p key seq = (seq', Inr stream)"
    and "MAX_FRAME - 36 < length p" and "length p < 2 ^ 31"
  shows "recv_secure_frame P stream key last_seq = Inl (InvalidData ''frame too large'')"
proof -
  obtain enc where enc: "encrypt_e2e P nonce (be_bytes 8 (unat (seq + 1)) @ p) key = Some enc"
    and stream: "stream = be_bytes 4 (length enc) @ enc"
    using assms(3) by (auto simp: send_secure_frame_def Let_def split: option.splits)
  have "length enc = length p + 36" using length_encrypt_e2e [OF assms(1,2) enc] by simp
  then show ?thesis using assms(4,5) stream
    by (simp add: recv_secure_frame_def MAX_FRAME_def from_be_be_bytes)
qed

theorem oversized_frame_refused_witness:
  "\<exists>p stream. p = replicate 65501 0 \<and> send_secure_frame toy_prims (replicate 12 1) [] p [7] 0 = (1, Inr stream)
    \<and> recv_secure_frame toy_prims stream [7] 0 = Inl (InvalidData ''frame too large'')"
proof -
  obtain p :: bytes where p: "p = replicate 65501 0" by blast
  then have len: "length p = 65501" by (simp only: length_replicate)
  obtain stream where "send_secure_frame toy_prims (replicate 12 1) [] p [7] 0 = (1, Inr stream)"
    by (simp add: send_secure_frame_def encrypt_e2e_def toy_prims_def Let_def)
  moreover from oversized_frame_refused [OF toy_aead _ this] len
  have "recv_secure_frame toy_prims stream [7] 0 = Inl (InvalidData ''frame too large'')" by (simp add: MAX_FRAME_def)
  ultimately show ?thesis using p by blast
qed

end
