(* ===== verification/Text.thy ===== *)
theory Text
  imports Prelude
begin

text \<open>
  The parts of the standard library's \<^verbatim>\<open>str\<close> that the program uses, on byte strings: decimal numbers
  and their parsing, prefixes, ASCII case, white space (the characters with the Unicode property
  \<^verbatim>\<open>White_Space\<close>, by their UTF-8 encodings), trimming and splitting.
\<close>

section \<open>Numbers\<close>

text \<open>\<^verbatim>\<open>format!("{}", n)\<close>\<close>
fun show_nat :: "nat \<Rightarrow> string" where
  "show_nat n = (if n < 10 then [char_of (48 + n)] else show_nat (n div 10) @ [char_of (48 + n mod 10)])"

declare show_nat.simps [simp del]

lemma show_nat_digits: "c \<in> set (show_nat n) \<Longrightarrow> (48 :: nat) \<le> of_char c \<and> of_char c \<le> (57 :: nat)"
proof (induction n rule: show_nat.induct)
  case (1 n)
  have d: "of_char (char_of (48 + k)) = (48 + k :: nat)" if "k < 10" for k
    using that by (simp add: of_char_of take_bit_nat_eq_self)
  show ?case
  proof (cases "n < 10")
    case True
    then show ?thesis using 1 d [of n] by (simp add: show_nat.simps [of n])
  next
    case False
    then show ?thesis using 1 d [of "n mod 10"] by (auto simp: show_nat.simps [of n])
  qed
qed

definition digit_of :: "char \<Rightarrow> nat option" where
  "digit_of c = (let n = of_char c :: nat in if 48 \<le> n \<and> n \<le> 57 then Some (n - 48) else None)"

fun parse_digits :: "nat \<Rightarrow> string \<Rightarrow> nat option" where
  "parse_digits acc [] = Some acc"
| "parse_digits acc (c # cs) = (case digit_of c of None \<Rightarrow> None | Some d \<Rightarrow> parse_digits (10 * acc + d) cs)"

text \<open>\<^verbatim>\<open>str::parse\<close> at an unsigned type with \<open>bound\<close> values: one plus sign is allowed, an empty number is not.\<close>
definition parse_uint :: "nat \<Rightarrow> string \<Rightarrow> nat option" where
  "parse_uint bound s =
     (let ds = (case s of c # cs \<Rightarrow> if c = CHR ''+'' then cs else s | [] \<Rightarrow> []) in
      if ds = [] then None
      else case parse_digits 0 ds of None \<Rightarrow> None | Some n \<Rightarrow> if n < bound then Some n else None)"

lemma parse_digits_append: "parse_digits acc (xs @ ys) = (case parse_digits acc xs of None \<Rightarrow> None | Some n \<Rightarrow> parse_digits n ys)"
  by (induction xs arbitrary: acc) (simp_all split: option.split)

lemma digit_of_char [simp]: "n < 10 \<Longrightarrow> digit_of (char_of (48 + n)) = Some n"
  by (simp add: digit_of_def of_char_of Let_def)

lemma parse_digits_show_nat: "parse_digits 0 (show_nat n) = Some n"
proof (induction n rule: show_nat.induct)
  case (1 n)
  then show ?case by (cases "n < 10") (simp_all add: show_nat.simps [of n] parse_digits_append)
qed

lemma show_nat_not_Nil [simp]: "show_nat n \<noteq> []"
  by (simp add: show_nat.simps [of n])

lemma hd_show_nat: "hd (show_nat n) \<noteq> CHR ''+''"
  using show_nat_digits [of "hd (show_nat n)" n] by auto

lemma parse_uint_show_nat: "n < bound \<Longrightarrow> parse_uint bound (show_nat n) = Some n"
  using hd_show_nat [of n] parse_digits_show_nat [of n] by (cases "show_nat n") (auto simp: parse_uint_def)

section \<open>Prefixes and ASCII case\<close>

definition starts_with :: "string \<Rightarrow> string \<Rightarrow> bool" where
  "starts_with s pre \<longleftrightarrow> take (length pre) s = pre"

definition strip_prefix :: "string \<Rightarrow> string \<Rightarrow> string option" where
  "strip_prefix pre s = (if starts_with s pre then Some (drop (length pre) s) else None)"

lemma starts_with_append [simp]: "starts_with (pre @ s) pre"
  by (simp add: starts_with_def)

lemma strip_prefix_append [simp]: "strip_prefix pre (pre @ s) = Some s"
  by (simp add: strip_prefix_def)

definition lower_char :: "char \<Rightarrow> char" where
  "lower_char c = (let n = of_char c :: nat in if 65 \<le> n \<and> n \<le> 90 then char_of (n + 32) else c)"

definition to_ascii_lowercase :: "string \<Rightarrow> string" where
  "to_ascii_lowercase s = map lower_char s"

definition eq_ignore_ascii_case :: "string \<Rightarrow> string \<Rightarrow> bool" where
  "eq_ignore_ascii_case a b \<longleftrightarrow> to_ascii_lowercase a = to_ascii_lowercase b"

lemma lower_char_idem [simp]: "lower_char (lower_char c) = lower_char c"
  by (simp add: lower_char_def Let_def of_char_of)

lemma to_ascii_lowercase_append: "to_ascii_lowercase (a @ b) = to_ascii_lowercase a @ to_ascii_lowercase b"
  by (simp add: to_ascii_lowercase_def)

section \<open>White space\<close>

text \<open>The encodings of the white-space characters.\<close>
definition white_spaces :: "bytes list" where
  "white_spaces = map (\<lambda>b. [b]) [9, 10, 11, 12, 13, 32] @ [[0xC2, 0x85], [0xC2, 0xA0], [0xE1, 0x9A, 0x80]]
     @ map (\<lambda>b. [0xE2, 0x80, b]) [0x80, 0x81, 0x82, 0x83, 0x84, 0x85, 0x86, 0x87, 0x88, 0x89, 0x8A, 0xA8, 0xA9, 0xAF]
     @ [[0xE2, 0x81, 0x9F], [0xE3, 0x80, 0x80]]"

text \<open>The length of the white-space character a text starts with, 0 if it starts with none.\<close>
definition space_at :: "string \<Rightarrow> nat" where
  "space_at s = (case find (\<lambda>w. take (length w) (str_bytes s) = w) white_spaces of None \<Rightarrow> 0 | Some w \<Rightarrow> length w)"

definition space_end :: "string \<Rightarrow> nat" where
  "space_end s = (case find (\<lambda>w. length w \<le> length s \<and> drop (length s - length w) (str_bytes s) = w) white_spaces of
     None \<Rightarrow> 0 | Some w \<Rightarrow> length w)"

function trim_start :: "string \<Rightarrow> string" where
  "trim_start s = (if space_at s = 0 \<or> s = [] then s else trim_start (drop (space_at s) s))"
  by pat_completeness auto
termination by (relation "measure length") auto

function trim_end :: "string \<Rightarrow> string" where
  "trim_end s = (if space_end s = 0 \<or> s = [] then s else trim_end (take (length s - space_end s) s))"
  by pat_completeness auto
termination by (relation "measure length") auto

declare trim_start.simps [simp del] trim_end.simps [simp del]

definition trim :: "string \<Rightarrow> string" where
  "trim s = trim_end (trim_start s)"

text \<open>\<^verbatim>\<open>split\<close> at a character: always at least one part.\<close>
fun split_at_char :: "char \<Rightarrow> string \<Rightarrow> string list" where
  "split_at_char c [] = [[]]"
| "split_at_char c (x # xs) = (if x = c then [] # split_at_char c xs
     else case split_at_char c xs of [] \<Rightarrow> [[x]] | w # ws \<Rightarrow> (x # w) # ws)"

text \<open>\<^verbatim>\<open>split_whitespace\<close>: the maximal pieces without white space.\<close>
function split_whitespace :: "string \<Rightarrow> string \<Rightarrow> string list" where
  "split_whitespace acc s =
     (if s = [] then (if acc = [] then [] else [acc])
      else if space_at s = 0 then split_whitespace (acc @ [hd s]) (tl s)
      else (if acc = [] then [] else [acc]) @ split_whitespace [] (drop (space_at s) s))"
  by pat_completeness auto
termination by (relation "measure (length \<circ> snd)") auto

declare split_whitespace.simps [simp del]

section \<open>Visible text\<close>

text \<open>ASCII text without white space.\<close>
definition visible :: "string \<Rightarrow> bool" where
  "visible s \<longleftrightarrow> (\<forall>c \<in> set s. 33 \<le> (of_char c :: nat) \<and> (of_char c :: nat) \<le> 126)"

lemma visible_simps [simp]: "visible []" "visible (c # s) \<longleftrightarrow> 33 \<le> (of_char c :: nat) \<and> (of_char c :: nat) \<le> 126 \<and> visible s"
  "visible (a @ b) \<longleftrightarrow> visible a \<and> visible b"
  by (auto simp: visible_def)

lemma visible_byte: "33 \<le> (of_char c :: nat) \<Longrightarrow> (of_char c :: nat) \<le> 126 \<Longrightarrow>
    33 \<le> (of_nat (of_char c) :: u8) \<and> (of_nat (of_char c) :: u8) \<le> 126"
  by (simp add: word_le_nat_alt unat_of_nat)

lemma white_space_ends: "w \<in> set white_spaces \<Longrightarrow> w \<noteq> [] \<and> \<not> (33 \<le> hd w \<and> hd w \<le> 126) \<and> \<not> (33 \<le> last w \<and> last w \<le> 126)"
  by (auto simp: white_spaces_def)

lemma find_None: "(\<And>x. x \<in> set xs \<Longrightarrow> \<not> Q x) \<Longrightarrow> find Q xs = None"
  by (simp add: find_None_iff)

lemma hd_byte: "w \<noteq> [] \<Longrightarrow> take (length w) (str_bytes s) = w \<Longrightarrow> s \<noteq> [] \<and> hd w = of_nat (of_char (hd s))"
  by (cases s; cases w) (auto simp: str_bytes_def)

lemma last_byte: "w \<noteq> [] \<Longrightarrow> drop n (str_bytes s) = w \<Longrightarrow> s \<noteq> [] \<and> last w = of_nat (of_char (last s))"
  by (cases "s = []") (auto simp: str_bytes_def last_map last_drop)

lemma space_at_visible [simp]: "visible (take 1 s) \<Longrightarrow> space_at s = 0"
proof -
  assume vis: "visible (take 1 s)"
  have "take (length w) (str_bytes s) \<noteq> w" if w: "w \<in> set white_spaces" for w
  proof
    assume eq: "take (length w) (str_bytes s) = w"
    have ne: "w \<noteq> []" using white_space_ends [OF w] by simp
    have "33 \<le> (of_char (hd s) :: nat) \<and> (of_char (hd s) :: nat) \<le> 126" using vis hd_byte [OF ne eq] by (cases s) auto
    then show False using visible_byte [of "hd s"] hd_byte [OF ne eq] white_space_ends [OF w] by simp
  qed
  then show ?thesis by (simp add: space_at_def find_None)
qed

lemma space_at_space [simp]: "space_at (CHR '' '' # s) = 1"
  by (simp add: space_at_def white_spaces_def str_bytes_def)

lemma space_end_visible [simp]: "visible [last s] \<Longrightarrow> space_end s = 0"
proof -
  assume vis: "visible [last s]"
  have "drop n (str_bytes s) \<noteq> w" if w: "w \<in> set white_spaces" for n w
  proof
    assume eq: "drop n (str_bytes s) = w"
    have ne: "w \<noteq> []" using white_space_ends [OF w] by simp
    show False using vis visible_byte [of "last s"] last_byte [OF ne eq] white_space_ends [OF w] by simp
  qed
  then show ?thesis by (simp add: space_end_def find_None)
qed

lemma trim_start_visible: "visible (take 1 s) \<Longrightarrow> trim_start s = s"
  by (subst trim_start.simps) simp

lemma trim_end_visible: "s = [] \<or> visible [last s] \<Longrightarrow> trim_end s = s"
  by (subst trim_end.simps) auto

lemma visible_last: "visible s \<Longrightarrow> s \<noteq> [] \<Longrightarrow> visible [last s]"
  by (simp add: visible_def)

lemma visible_take: "visible s \<Longrightarrow> visible (take n s)"
  by (auto simp: visible_def dest: in_set_takeD)

lemma trim_visible: "visible s \<Longrightarrow> trim s = s"
  by (metis trim_def trim_start_visible trim_end_visible visible_take visible_last)

lemma trim_start_space: "trim_start (CHR '' '' # s) = trim_start s"
  by (subst trim_start.simps) simp

lemma trim_end_crlf:
  assumes "s = [] \<or> visible [last s]"
  shows "trim_end (s @ [CHR 0x0D, CHR 0x0A]) = s"
proof -
  have "space_end (s @ [CHR 0x0D, CHR 0x0A]) = 1" "space_end (s @ [CHR 0x0D]) = 1"
    by (simp_all add: space_end_def white_spaces_def str_bytes_def)
  then have "trim_end (s @ [CHR 0x0D, CHR 0x0A]) = trim_end s" by (subst trim_end.simps) (simp, subst trim_end.simps, simp)
  then show ?thesis using trim_end_visible [OF assms] by simp
qed

lemma split_at_char_append: "c \<notin> set a \<Longrightarrow> split_at_char c (a @ c # b) = a # split_at_char c b"
  by (induction a) auto

lemma split_at_char_single: "c \<notin> set a \<Longrightarrow> split_at_char c a = [a]"
  by (induction a) auto

lemma show_nat_visible: "visible (show_nat n)"
  using show_nat_digits [of _ n] by (fastforce simp: visible_def)

end
