(* ===== verification/Trust.thy ===== *)
theory Trust
  imports Crypto Text
begin

text \<open>
  \<^verbatim>\<open>pgp/mod.rs\<close> (trust levels and public identities) and \<^verbatim>\<open>dcnet/network.rs\<close> (membership, administration
  and leadership of a named network). The JSON form of an identity (serde_json) is a parameter.
\<close>

section \<open>pgp/mod.rs\<close>

datatype TrustLevel = Never | Unknown | Marginal | Full | Ultimate

text \<open>\<^verbatim>\<open>as i32\<close> on the explicit discriminants; the derived \<^verbatim>\<open>Ord\<close> follows them.\<close>
fun to_i32 :: "TrustLevel \<Rightarrow> int" where
  "to_i32 Never = -1"
| "to_i32 Unknown = 0"
| "to_i32 Marginal = 1"
| "to_i32 Full = 2"
| "to_i32 Ultimate = 3"

definition from_i32 :: "int \<Rightarrow> TrustLevel" where
  "from_i32 v = (if v = -1 then Never else if v = 0 then Unknown else if v = 1 then Marginal
     else if v = 2 then Full else if v = 3 then Ultimate else Unknown)"

instantiation TrustLevel :: linorder
begin

definition less_eq_TrustLevel :: "TrustLevel \<Rightarrow> TrustLevel \<Rightarrow> bool" where
  "less_eq_TrustLevel a b \<longleftrightarrow> to_i32 a \<le> to_i32 b"

definition less_TrustLevel :: "TrustLevel \<Rightarrow> TrustLevel \<Rightarrow> bool" where
  "less_TrustLevel a b \<longleftrightarrow> to_i32 a < to_i32 b"

lemma to_i32_inject: "to_i32 a = to_i32 b \<longleftrightarrow> a = b"
  by (cases a; cases b) simp_all

instance
  by standard (auto simp: less_eq_TrustLevel_def less_TrustLevel_def to_i32_inject)

end

lemmas level_order = less_eq_TrustLevel_def less_TrustLevel_def

lemma level_le_simps [simp]:
  "Never \<le> a" "a \<le> Ultimate" "Unknown \<le> Marginal" "Unknown \<le> Full" "Marginal \<le> Full"
  "\<not> Unknown \<le> Never" "\<not> Marginal \<le> Never" "\<not> Marginal \<le> Unknown" "\<not> Full \<le> Never" "\<not> Full \<le> Unknown"
  "\<not> Full \<le> Marginal" "\<not> Ultimate \<le> Never" "\<not> Ultimate \<le> Unknown" "\<not> Ultimate \<le> Marginal" "\<not> Ultimate \<le> Full"
  by (cases a; simp add: level_order)+

lemma full_is_marginal: "Full \<le> a \<Longrightarrow> Marginal \<le> a"
  by (cases a) simp_all

definition to_dcnet_trust :: "TrustLevel \<Rightarrow> u8" where
  "to_dcnet_trust t = (case t of Never \<Rightarrow> 0 | Unknown \<Rightarrow> 0 | Marginal \<Rightarrow> 1 | Full \<Rightarrow> 2 | Ultimate \<Rightarrow> 3)"

definition can_speak :: "TrustLevel \<Rightarrow> bool" where "can_speak t \<longleftrightarrow> t \<ge> Marginal"

definition can_admin :: "TrustLevel \<Rightarrow> bool" where "can_admin t \<longleftrightarrow> t \<ge> Ultimate"

definition can_relay :: "TrustLevel \<Rightarrow> bool" where "can_relay t \<longleftrightarrow> t \<ge> Full"

record PgpIdentity =
  pgp_user_id :: string
  pgp_public_key_hex :: string
  pgp_fingerprint :: string
  pgp_created :: u64

definition from_parts :: "prims \<Rightarrow> u64 \<Rightarrow> string \<Rightarrow> string \<Rightarrow> PgpIdentity" where
  "from_parts P now user_id public_key_hex =
     \<lparr> pgp_user_id = user_id, pgp_public_key_hex = public_key_hex,
       pgp_fingerprint = fingerprint_of_public_hex P public_key_hex, pgp_created = now \<rparr>"

definition from_identity :: "prims \<Rightarrow> u64 \<Rightarrow> Identity \<Rightarrow> PgpIdentity" where
  "from_identity P now ident =
     from_parts P now (if id_uid ident = [] then ''anonymous'' else id_uid ident) (id_public_hex ident)"

text \<open>\<^verbatim>\<open>&s[..i]\<close> and \<^verbatim>\<open>&s[i..]\<close> panic (\<^const>\<open>None\<close>) unless \<open>i\<close> is a character boundary.\<close>
definition char_boundary :: "string \<Rightarrow> nat \<Rightarrow> bool" where
  "char_boundary s i \<longleftrightarrow> i = 0 \<or> i = length s
     \<or> (i < length s \<and> \<not> (128 \<le> (of_char (s ! i) :: nat) \<and> (of_char (s ! i) :: nat) < 192))"

definition ends_of :: "nat \<Rightarrow> string \<Rightarrow> string \<Rightarrow> string option" where
  "ends_of n sep s = (if char_boundary s n \<and> char_boundary s (length s - n)
     then Some (take n s @ sep @ drop (length s - n) s) else None)"

definition fingerprint_short :: "PgpIdentity \<Rightarrow> string option" where
  "fingerprint_short p = (let h = pgp_public_key_hex p in
     if length h \<le> 16 then Some h else ends_of 8 ''...'' h)"

definition formatted_fingerprint :: "PgpIdentity \<Rightarrow> string" where
  "formatted_fingerprint p = pgp_fingerprint p"

record pgp_json =
  gj_to :: "PgpIdentity \<Rightarrow> string"
  gj_from :: "string \<Rightarrow> string + PgpIdentity" \<comment> \<open>the parser's own error message, or the identity\<close>

definition export_identity :: "pgp_json \<Rightarrow> PgpIdentity \<Rightarrow> string" where
  "export_identity J p = gj_to J p"

definition import_identity :: "pgp_json \<Rightarrow> string \<Rightarrow> string + PgpIdentity" where
  "import_identity J data = (case gj_from J data of Inl e \<Rightarrow> Inl (''Invalid identity data: '' @ e) | Inr p \<Rightarrow> Inr p)"

text \<open>What crosses is a public identity: exporting and importing it gives the same one, with the fingerprint
  computed from the key when it was made.\<close>
lemma exported_identity_imports:
  assumes "gj_from J (gj_to J (from_identity P now ident)) = Inr (from_identity P now ident)"
  shows "import_identity J (export_identity J (from_identity P now ident)) = Inr (from_identity P now ident)
    \<and> formatted_fingerprint (from_identity P now ident) = fingerprint P ident"
  using assms by (simp add: import_identity_def export_identity_def formatted_fingerprint_def from_identity_def from_parts_def fingerprint_def)

section \<open>dcnet/network.rs\<close>

record DcNetwork =
  nw_name :: string
  nw_admin_uid :: uid
  nw_created :: u64
  nw_topic :: string
  nw_members :: "uid list"
  nw_pending_invites :: "(uid, uid) hmap"
  nw_min_trust :: TrustLevel
  nw_min_participants :: nat
  nw_max_dropouts :: nat
  nw_round_interval_ms :: u64
  nw_current_leader :: uid
  nw_member_join_order :: "uid list"

datatype network_error =
    OnlyAdmin uid
  | AlreadyMember uid
  | NoPendingInvite uid
  | TrustTooLow uid TrustLevel TrustLevel
  | AdminKicksSelf
  | NotAMember uid

definition DcNetwork_new :: "u64 \<Rightarrow> string \<Rightarrow> uid \<Rightarrow> DcNetwork" where
  "DcNetwork_new now name admin = \<lparr> nw_name = name, nw_admin_uid = admin, nw_created = now, nw_topic = [],
     nw_members = [admin], nw_pending_invites = [], nw_min_trust = Marginal, nw_min_participants = 2,
     nw_max_dropouts = 1, nw_round_interval_ms = 3000, nw_current_leader = admin,
     nw_member_join_order = [admin] \<rparr>"

text \<open>\<^verbatim>\<open>{:?}\<close> of a level.\<close>
fun show_level :: "TrustLevel \<Rightarrow> string" where
  "show_level Never = ''Never''"
| "show_level Unknown = ''Unknown''"
| "show_level Marginal = ''Marginal''"
| "show_level Full = ''Full''"
| "show_level Ultimate = ''Ultimate''"

definition status_string :: "DcNetwork \<Rightarrow> string" where
  "status_string n = ''Network '' @ [CHR 0x27] @ nw_name n @ [CHR 0x27] @ '' | Admin: '' @ nw_admin_uid n
     @ '' | Members: '' @ show_nat (length (nw_members n)) @ ''/'' @ show_nat (nw_min_participants n)
     @ '' | Min trust: '' @ show_level (nw_min_trust n) @ '' | Leader: '' @ nw_current_leader n"

definition is_member :: "DcNetwork \<Rightarrow> uid \<Rightarrow> bool" where
  "is_member n u \<longleftrightarrow> List.member (nw_members n) u"

definition is_admin :: "DcNetwork \<Rightarrow> uid \<Rightarrow> bool" where
  "is_admin n u \<longleftrightarrow> nw_admin_uid n = u"

definition has_pending_invite :: "DcNetwork \<Rightarrow> uid \<Rightarrow> bool" where
  "has_pending_invite n u \<longleftrightarrow> has_key (nw_pending_invites n) u"

definition member_count :: "DcNetwork \<Rightarrow> nat" where
  "member_count n = length (nw_members n)"

definition next_leader :: "DcNetwork \<Rightarrow> uid option" where
  "next_leader n = (case position (nw_current_leader n) (nw_member_join_order n) of
     None \<Rightarrow> None
   | Some i \<Rightarrow> Some (nw_member_join_order n ! ((i + 1) mod length (nw_member_join_order n))))"

definition invite_member :: "uid \<Rightarrow> uid \<Rightarrow> DcNetwork \<Rightarrow> network_error + DcNetwork" where
  "invite_member u invited_by n =
     (if \<not> is_admin n invited_by then Inl (OnlyAdmin (nw_admin_uid n))
      else if is_member n u then Inl (AlreadyMember u)
      else Inr (n\<lparr> nw_pending_invites := hput u invited_by (nw_pending_invites n) \<rparr>))"

definition accept_join :: "uid \<Rightarrow> TrustLevel \<Rightarrow> DcNetwork \<Rightarrow> network_error + DcNetwork" where
  "accept_join u level n =
     (if \<not> has_pending_invite n u then Inl (NoPendingInvite u)
      else if level < nw_min_trust n then Inl (TrustTooLow u level (nw_min_trust n))
      else let n1 = n\<lparr> nw_pending_invites := hdel u (nw_pending_invites n) \<rparr> in
        Inr (if \<not> is_member n1 u
             then n1\<lparr> nw_members := nw_members n1 @ [u],
                      nw_member_join_order := nw_member_join_order n1 @ [u] \<rparr>
             else n1))"

definition kick_member :: "uid \<Rightarrow> uid \<Rightarrow> DcNetwork \<Rightarrow> network_error + DcNetwork" where
  "kick_member u kicked_by n =
     (if \<not> is_admin n kicked_by then Inl (OnlyAdmin (nw_admin_uid n))
      else if u = nw_admin_uid n then Inl AdminKicksSelf
      else let kicked_leader = (u = nw_current_leader n);
               n1 = n\<lparr> nw_members := filter (\<lambda>v. v \<noteq> u) (nw_members n),
                       nw_member_join_order := filter (\<lambda>v. v \<noteq> u) (nw_member_join_order n),
                       nw_pending_invites := hdel u (nw_pending_invites n) \<rparr> in
        Inr (if kicked_leader
             then n1\<lparr> nw_current_leader := (case nw_member_join_order n1 of [] \<Rightarrow> [] | v # _ \<Rightarrow> v) \<rparr>
             else n1))"

definition transfer_admin :: "uid \<Rightarrow> uid \<Rightarrow> DcNetwork \<Rightarrow> network_error + DcNetwork" where
  "transfer_admin new_admin current_admin n =
     (if \<not> is_admin n current_admin then Inl (OnlyAdmin (nw_admin_uid n))
      else if \<not> is_member n new_admin then Inl (NotAMember new_admin)
      else Inr (n\<lparr> nw_admin_uid := new_admin, nw_current_leader := new_admin \<rparr>))"

definition set_topic :: "string \<Rightarrow> uid \<Rightarrow> DcNetwork \<Rightarrow> network_error + DcNetwork" where
  "set_topic topic setter n =
     (if \<not> is_admin n setter then Inl (OnlyAdmin (nw_admin_uid n)) else Inr (n\<lparr> nw_topic := topic \<rparr>))"

definition set_min_trust :: "TrustLevel \<Rightarrow> uid \<Rightarrow> DcNetwork \<Rightarrow> network_error + DcNetwork" where
  "set_min_trust level setter n =
     (if \<not> is_admin n setter then Inl (OnlyAdmin (nw_admin_uid n)) else Inr (n\<lparr> nw_min_trust := level \<rparr>))"

definition rotate_leader :: "DcNetwork \<Rightarrow> DcNetwork \<times> uid option" where
  "rotate_leader n = (case position (nw_current_leader n) (nw_member_join_order n) of
     None \<Rightarrow> (n, None)
   | Some i \<Rightarrow> (let nxt = nw_member_join_order n ! ((i + 1) mod length (nw_member_join_order n))
               in (n\<lparr> nw_current_leader := nxt \<rparr>, Some nxt)))"

definition set_leader :: "uid \<Rightarrow> DcNetwork \<Rightarrow> network_error + DcNetwork" where
  "set_leader u n = (if \<not> is_member n u then Inl (NotAMember u) else Inr (n\<lparr> nw_current_leader := u \<rparr>))"

section \<open>The network invariant\<close>

definition network_ok :: "DcNetwork \<Rightarrow> bool" where
  "network_ok n \<longleftrightarrow> distinct (nw_members n) \<and> nw_member_join_order n = nw_members n
     \<and> nw_admin_uid n \<in> set (nw_members n) \<and> nw_current_leader n \<in> set (nw_members n)
     \<and> hwf (nw_pending_invites n)"

datatype network_op =
    Invite uid uid
  | AcceptJoin uid TrustLevel
  | Kick uid uid
  | TransferAdmin uid uid
  | SetTopic string uid
  | SetMinTrust TrustLevel uid
  | RotateLeader
  | SetLeader uid

definition or_keep :: "network_error + DcNetwork \<Rightarrow> DcNetwork \<Rightarrow> DcNetwork" where
  "or_keep res n = (case res of Inl _ \<Rightarrow> n | Inr n' \<Rightarrow> n')"

fun network_step :: "network_op \<Rightarrow> DcNetwork \<Rightarrow> DcNetwork" where
  "network_step (Invite u by_uid) n = or_keep (invite_member u by_uid n) n"
| "network_step (AcceptJoin u l) n = or_keep (accept_join u l n) n"
| "network_step (Kick u by_uid) n = or_keep (kick_member u by_uid n) n"
| "network_step (TransferAdmin u by_uid) n = or_keep (transfer_admin u by_uid n) n"
| "network_step (SetTopic t by_uid) n = or_keep (set_topic t by_uid n) n"
| "network_step (SetMinTrust l by_uid) n = or_keep (set_min_trust l by_uid n) n"
| "network_step RotateLeader n = fst (rotate_leader n)"
| "network_step (SetLeader u) n = or_keep (set_leader u n) n"

lemmas network_defs = invite_member_def accept_join_def kick_member_def transfer_admin_def set_topic_def
  set_min_trust_def set_leader_def is_member_def is_admin_def has_pending_invite_def or_keep_def

lemma rotate_leader_ok: "network_ok n \<Longrightarrow> network_ok (fst (rotate_leader n))"
proof -
  assume n: "network_ok n"
  then have "nw_members n \<noteq> []" by (auto simp: network_ok_def)
  then have "nw_members n ! (k mod length (nw_members n)) \<in> set (nw_members n)" for k
    by (simp add: nth_mem)
  with n show ?thesis by (auto simp: rotate_leader_def network_ok_def Let_def split: option.split)
qed

lemma kick_member_ok: "network_ok n \<Longrightarrow> kick_member u v n = Inr n' \<Longrightarrow> network_ok n'"
proof -
  assume n: "network_ok n" and k: "kick_member u v n = Inr n'"
  then have "nw_admin_uid n \<in> set (filter (\<lambda>x. x \<noteq> u) (nw_members n))"
    by (auto simp: network_ok_def network_defs split: if_splits)
  then have "(case filter (\<lambda>x. x \<noteq> u) (nw_members n) of [] \<Rightarrow> [] | x # _ \<Rightarrow> x)
      \<in> set (filter (\<lambda>x. x \<noteq> u) (nw_members n))"
    by (cases "filter (\<lambda>x. x \<noteq> u) (nw_members n)") simp_all
  with n k show ?thesis
    by (auto simp: network_ok_def network_defs Let_def split: if_splits)
qed

interpretation network: op_system network_step network_ok
proof unfold_locales
  fix n op
  assume n: "network_ok n"
  then show "network_ok (network_step op n)"
  proof (cases op)
    case (Kick u v)
    with n show ?thesis by (auto simp: or_keep_def kick_member_ok split: sum.split)
  next
    case RotateLeader
    with n show ?thesis by (simp add: rotate_leader_ok)
  qed (use n in \<open>auto simp: network_ok_def network_defs Let_def split: sum.split\<close>)
qed

text \<open>C31: A network always has a working administration. Starting from its creation and whatever
  operations anyone attempts, the admin and the current leader are members, members are listed once
  and in join order, so a next leader always exists and rotation always succeeds.\<close>
theorem network_always_led:
  "let n = fold network_step ops (DcNetwork_new now name admin) in
     nw_admin_uid n \<in> set (nw_members n) \<and> nw_current_leader n \<in> set (nw_members n)
     \<and> distinct (nw_members n) \<and> nw_member_join_order n = nw_members n
     \<and> next_leader n \<noteq> None \<and> snd (rotate_leader n) = next_leader n"
proof -
  let ?n = "fold network_step ops (DcNetwork_new now name admin)"
  have n: "network_ok ?n"
    by (rule network.run_inv) (simp add: network_ok_def DcNetwork_new_def)
  then have "position (nw_current_leader ?n) (nw_member_join_order ?n) \<noteq> None"
    by (simp add: position_None_iff network_ok_def)
  with n show ?thesis
    by (auto simp: network_ok_def next_leader_def rotate_leader_def Let_def split: option.split)
qed

definition rotate_once :: "DcNetwork \<Rightarrow> DcNetwork" where
  "rotate_once n = fst (rotate_leader n)"

lemma rotate_index:
  assumes "network_ok n" and "position (nw_current_leader n) (nw_members n) = Some i"
  shows "position (nw_current_leader (rotate_once n)) (nw_members n) = Some ((i + 1) mod length (nw_members n))
    \<and> nw_members (rotate_once n) = nw_members n \<and> network_ok (rotate_once n)"
proof -
  have "0 < length (nw_members n)" using position_Some [OF assms(2)] by linarith
  then show ?thesis
    using assms rotate_leader_ok [OF assms(1)]
    by (simp add: rotate_once_def) (simp add: rotate_leader_def network_ok_def Let_def position_nth)
qed

lemma rotate_iter:
  assumes "network_ok n" and "position (nw_current_leader n) (nw_members n) = Some i"
  shows "network_ok ((rotate_once ^^ k) n)
    \<and> nw_members ((rotate_once ^^ k) n) = nw_members n
    \<and> position (nw_current_leader ((rotate_once ^^ k) n)) (nw_members n)
       = Some ((i + k) mod length (nw_members n))"
proof (induction k)
  case 0
  then show ?case using assms position_Some [OF assms(2)] by simp
next
  case (Suc k)
  let ?n = "(rotate_once ^^ k) n"
  show ?case
    using Suc rotate_index [of ?n "(i + k) mod length (nw_members n)"] by (simp add: mod_Suc_eq)
qed

text \<open>Leader rotation is fair. Rotating as many times as there are members visits every member
  exactly when its turn comes: for each member there is exactly one number of rotations below the
  member count after which it leads, and a full cycle returns to the starting leader.\<close>
theorem rotation_is_fair:
  assumes "network_ok n" and "u \<in> set (nw_members n)"
  shows "(\<exists>!k. k < member_count n \<and> nw_current_leader ((rotate_once ^^ k) n) = u)
    \<and> nw_current_leader ((rotate_once ^^ member_count n) n) = nw_current_leader n"
proof -
  let ?m = "nw_members n" and ?N = "length (nw_members n)"
  obtain i where i: "position (nw_current_leader n) ?m = Some i"
    using assms(1) position_None_iff [of "nw_current_leader n" ?m] by (auto simp: network_ok_def)
  obtain j where j: "position u ?m = Some j" using assms(2) position_None_iff [of u ?m] by auto
  have ij: "i < ?N" "j < ?N" using position_Some [OF i] position_Some [OF j] by auto
  then have ne: "?m \<noteq> []" by auto
  have lead: "nw_current_leader ((rotate_once ^^ k) n) = ?m ! ((i + k) mod ?N)" for k
    using rotate_iter [OF assms(1) i, of k] position_Some by metis
  have "(i + k) mod ?N < ?N" for k by (rule mod_less_divisor) (use ij in linarith)
  then have iff: "nw_current_leader ((rotate_once ^^ k) n) = u \<longleftrightarrow> (i + k) mod ?N = j" for k
    unfolding lead using position_Some [OF j] ij(2) assms(1) nth_eq_iff_index_eq [of ?m "(i + k) mod ?N" j]
    by (auto simp: network_ok_def)
  have "\<exists>!k. k < ?N \<and> (i + k) mod ?N = j"
  proof
    show "(j + ?N - i) mod ?N < ?N \<and> (i + (j + ?N - i) mod ?N) mod ?N = j"
      using ij ne by (simp add: mod_add_right_eq)
    fix k
    assume k: "k < ?N \<and> (i + k) mod ?N = j"
    show "k = (j + ?N - i) mod ?N"
    proof (cases "i + k < ?N")
      case True
      with k have "j + ?N - i = k + ?N" by simp
      with k show ?thesis by simp
    next
      case False
      then have "(i + k) mod ?N = (i + k - ?N) mod ?N" by (simp add: le_mod_geq)
      moreover have "i + k - ?N < ?N" using k ij by linarith
      ultimately have "(i + k) mod ?N = i + k - ?N" by simp
      with k False have "j + ?N - i = k" by linarith
      with k show ?thesis by simp
    qed
  qed
  then show ?thesis
    using lead [of "member_count n"] ij position_Some [OF i] unfolding iff member_count_def by simp
qed

theorem rotation_is_fair_witness:
  "\<exists>!k. k < member_count (or_keep (accept_join ''bob'' Full (or_keep (invite_member ''bob'' ''ann''
        (DcNetwork_new 0 ''net'' ''ann'')) (DcNetwork_new 0 ''net'' ''ann''))) (DcNetwork_new 0 ''net'' ''ann''))
     \<and> nw_current_leader ((rotate_once ^^ k) (or_keep (accept_join ''bob'' Full
        (or_keep (invite_member ''bob'' ''ann'' (DcNetwork_new 0 ''net'' ''ann''))
          (DcNetwork_new 0 ''net'' ''ann''))) (DcNetwork_new 0 ''net'' ''ann''))) = ''bob''"
  by (rule rotation_is_fair [THEN conjunct1])
    (simp_all add: network_ok_def network_defs DcNetwork_new_def Let_def has_key_def level_order)

text \<open>Nobody joins uninvited or untrusted. A member gained by one operation was accepted from a
  pending invitation with at least the required trust level, and a pending invitation gained by one
  operation was issued by the admin to a non-member.\<close>
theorem join_needs_invite_and_trust:
  assumes "n' = network_step op n"
  shows "(u \<in> set (nw_members n') - set (nw_members n) \<longrightarrow>
      (\<exists>level. op = AcceptJoin u level \<and> has_pending_invite n u \<and> nw_min_trust n \<le> level))
    \<and> (has_pending_invite n' u \<and> \<not> has_pending_invite n u \<longrightarrow>
      op = Invite u (nw_admin_uid n) \<and> u \<notin> set (nw_members n))"
  using assms
  by (cases op) (auto simp: network_defs rotate_leader_def Let_def split: if_splits option.splits)

theorem join_needs_invite_and_trust_witness:
  "has_pending_invite (network_step (Invite ''bob'' ''ann'') (DcNetwork_new 0 ''net'' ''ann'')) ''bob''
   \<and> ''bob'' \<notin> set (nw_members (DcNetwork_new 0 ''net'' ''ann''))"
proof -
  have "has_pending_invite (network_step (Invite ''bob'' ''ann'') (DcNetwork_new 0 ''net'' ''ann'')) ''bob''
      \<and> \<not> has_pending_invite (DcNetwork_new 0 ''net'' ''ann'') ''bob''"
    by (simp add: network_defs DcNetwork_new_def has_key_def)
  with join_needs_invite_and_trust [OF refl, of "''bob''" "Invite ''bob'' ''ann''" "DcNetwork_new 0 ''net'' ''ann''"]
  show ?thesis by blast
qed

end
