(* ===== verification/AddressBook.thy ===== *)
theory AddressBook
  imports Trust Float64
begin

text \<open>
  \<^verbatim>\<open>address_book.rs\<close>: known peers, their addresses, and gossip between friends. The clock is an argument
  (one reading per call). Confidence is a binary64 number.
\<close>

section \<open>Data\<close>

datatype AddressSource = SrcManual | SrcLAN | SrcGossip

text \<open>\<^verbatim>\<open>std::net::SocketAddr\<close>\<close>
datatype SocketAddr = V4 bytes u16 | V6 bytes u16 u32 u32

record AddressEntry =
  ae_uid :: uid
  ae_addresses :: "SocketAddr list"
  ae_public_key :: string
  ae_last_seen :: u64
  ae_source :: AddressSource
  ae_confidence :: f64

record PeerAnnounce =
  pa_uid :: uid
  pa_addresses :: "SocketAddr list"
  pa_public_key :: string

record AddressBook =
  ab_entries :: "(uid, AddressEntry) hmap"

section \<open>Operations\<close>

definition AddressBook_new :: AddressBook where
  "AddressBook_new = \<lparr> ab_entries = [] \<rparr>"

fun merge_addresses :: "SocketAddr list \<Rightarrow> SocketAddr list \<Rightarrow> SocketAddr list" where
  "merge_addresses old [] = old"
| "merge_addresses old (a # as) = merge_addresses (if a \<in> set old then old else old @ [a]) as"

definition add_or_update ::
  "u64 \<Rightarrow> uid \<Rightarrow> SocketAddr list \<Rightarrow> string \<Rightarrow> AddressSource \<Rightarrow> f64 \<Rightarrow> AddressBook \<Rightarrow> AddressBook" where
  "add_or_update now u addresses pk source confidence book =
     book\<lparr> ab_entries := (case hget (ab_entries book) u of
       Some entry \<Rightarrow>
         (let entry1 = entry\<lparr> ae_addresses := merge_addresses (ae_addresses entry) addresses \<rparr>;
              entry2 = (if confidence > ae_confidence entry1 \<or> now > ae_last_seen entry1
                then entry1\<lparr> ae_last_seen := now, ae_confidence := confidence, ae_source := source \<rparr>
                else entry1)
          in hput u entry2 (ab_entries book))
     | None \<Rightarrow> hput u \<lparr> ae_uid = u, ae_addresses = addresses, ae_public_key = pk, ae_last_seen = now,
         ae_source = source, ae_confidence = confidence \<rparr> (ab_entries book)) \<rparr>"

definition book_get :: "AddressBook \<Rightarrow> uid \<Rightarrow> AddressEntry option" where
  "book_get book u = hget (ab_entries book) u"

definition get_addresses :: "AddressBook \<Rightarrow> uid \<Rightarrow> SocketAddr list" where
  "get_addresses book u = (case hget (ab_entries book) u of None \<Rightarrow> [] | Some e \<Rightarrow> ae_addresses e)"

text \<open>The subtraction is on 64-bit words and wraps in a release build.\<close>
definition prune_stale :: "u64 \<Rightarrow> u64 \<Rightarrow> AddressBook \<Rightarrow> AddressBook" where
  "prune_stale now max_age_secs book =
     book\<lparr> ab_entries := filter (\<lambda>(_, e). now - ae_last_seen e < max_age_secs) (ab_entries book) \<rparr>"

definition book_len :: "AddressBook \<Rightarrow> nat" where
  "book_len book = length (ab_entries book)"

definition book_is_empty :: "AddressBook \<Rightarrow> bool" where
  "book_is_empty book \<longleftrightarrow> ab_entries book = []"

definition list_uids :: "AddressBook \<Rightarrow> uid list" where
  "list_uids book = hkeys (ab_entries book)"

fun gossip_weight :: "TrustLevel \<Rightarrow> f64" where
  "gossip_weight Ultimate = f64_one"
| "gossip_weight Full = f64_lit 8 10"
| "gossip_weight Marginal = f64_lit 4 10"
| "gossip_weight _ = 0"

text \<open>The loop over the announced peers; \<open>clock i\<close> is the clock as it is read for the \<open>i\<close>-th of them.\<close>
fun add_peers :: "(nat \<Rightarrow> u64) \<Rightarrow> f64 \<Rightarrow> PeerAnnounce list \<Rightarrow> AddressBook \<Rightarrow> nat \<Rightarrow> AddressBook \<times> nat" where
  "add_peers clock weight [] book added = (book, added)"
| "add_peers clock weight (peer # peers) book added =
     add_peers clock weight peers
       (add_or_update (clock added) (pa_uid peer) (pa_addresses peer) (pa_public_key peer) SrcGossip weight book) (added + 1)"

definition handle_gossip_response ::
  "(nat \<Rightarrow> u64) \<Rightarrow> AddressBook \<Rightarrow> uid \<Rightarrow> TrustLevel \<Rightarrow> PeerAnnounce list \<Rightarrow> AddressBook \<times> nat" where
  "handle_gossip_response clock book from_uid trust_level peers =
     (if trust_level < Marginal then (book, 0) else add_peers clock (gossip_weight trust_level) peers book 0)"

definition build_gossip_response :: "AddressBook \<Rightarrow> uid \<Rightarrow> PeerAnnounce list" where
  "build_gossip_response book exclude_uid =
     map (\<lambda>(u, entry). \<lparr> pa_uid = u, pa_addresses = ae_addresses entry, pa_public_key = ae_public_key entry \<rparr>)
       (filter (\<lambda>(u, _). u \<noteq> exclude_uid) (ab_entries book))"

section \<open>Updates only add\<close>

lemma set_merge_addresses [simp]: "set (merge_addresses old as) = set old \<union> set as"
  by (induction old as rule: merge_addresses.induct) auto

lemma distinct_merge_addresses: "distinct old \<Longrightarrow> distinct (merge_addresses old as)"
  by (induction old as rule: merge_addresses.induct) auto

definition key_of :: "AddressBook \<Rightarrow> uid \<Rightarrow> string option" where
  "key_of book u = map_option ae_public_key (book_get book u)"

lemma key_of_update:
  "key_of (add_or_update now u as pk src c book) v =
    (if v = u \<and> key_of book u = None then Some pk else key_of book v)"
  by (auto simp: key_of_def book_get_def add_or_update_def Let_def split: option.split)

lemma key_of_known: "key_of book v = Some k \<Longrightarrow> key_of (add_or_update now u as pk src c book) v = Some k"
  by (auto simp: key_of_update)

lemma get_addresses_update:
  "set (get_addresses (add_or_update now u as pk src c book) v) =
    set (get_addresses book v) \<union> (if v = u then set as else {})"
  by (auto simp: get_addresses_def add_or_update_def Let_def split: option.split)

lemma add_peers_count: "snd (add_peers clock w peers book n) = n + length peers"
  by (induction peers arbitrary: book n) auto

lemma add_peers_addresses:
  "set (get_addresses (fst (add_peers clock w peers book n)) u) =
    set (get_addresses book u) \<union> (\<Union>p \<in> {p \<in> set peers. pa_uid p = u}. set (pa_addresses p))"
  by (induction peers arbitrary: book n) (auto simp: get_addresses_update)

lemma add_peers_keys: "key_of book u = Some k \<Longrightarrow> key_of (fst (add_peers clock w peers book n)) u = Some k"
  by (induction peers arbitrary: book n) (simp_all add: key_of_known)

text \<open>C38: Gossip is trust-filtered and can only add. From a friend below marginal trust nothing at all
  changes. From a trusted friend every announced address is in the book afterwards, no address known
  before is lost, no other appears, and the public key of a peer already known never changes.\<close>
theorem gossip_filtered_and_additive:
  "let (book', n) = handle_gossip_response clock book friend level peers in
    if level < Marginal then book' = book \<and> n = 0
    else n = length peers
      \<and> (\<forall>u. set (get_addresses book' u) = set (get_addresses book u)
          \<union> (\<Union>p \<in> {p \<in> set peers. pa_uid p = u}. set (pa_addresses p)))
      \<and> (\<forall>u k. key_of book u = Some k \<longrightarrow> key_of book' u = Some k)"
  using add_peers_count add_peers_addresses add_peers_keys
  by (auto simp: handle_gossip_response_def split_beta Let_def)

text \<open>A friend's answer, built from its own book, carries over.\<close>
lemma gossip_carries_over:
  assumes "Marginal \<le> level" and "hwf (ab_entries book)"
    and "u \<noteq> v"
  shows "set (get_addresses book u) \<subseteq>
    set (get_addresses (fst (handle_gossip_response clock mine f level (build_gossip_response book v))) u)"
proof -
  have "set (get_addresses book u) \<subseteq> (\<Union>p \<in> {p \<in> set (build_gossip_response book v). pa_uid p = u}. set (pa_addresses p))"
  proof (cases "hget (ab_entries book) u")
    case (Some e)
    then have "(u, e) \<in> set (filter (\<lambda>(u, _). u \<noteq> v) (ab_entries book))" using assms(3) by (simp add: hget_in_set)
    then have "\<lparr> pa_uid = u, pa_addresses = ae_addresses e, pa_public_key = ae_public_key e \<rparr>
        \<in> set (build_gossip_response book v)" unfolding build_gossip_response_def by (force simp del: set_filter)
    then show ?thesis using Some by (force simp: get_addresses_def)
  qed (simp add: get_addresses_def)
  then show ?thesis using add_peers_addresses assms(1)
    by (auto simp: handle_gossip_response_def not_less [symmetric])
qed

theorem gossip_filtered_and_additive_witness:
  "let book = add_or_update 5 ''bob'' [V4 [10, 0, 0, 1] 9] ''k1'' SrcLAN f64_one AddressBook_new;
       (book', n) = handle_gossip_response (\<lambda>_. 6) book ''ann'' Full
         [\<lparr> pa_uid = ''bob'', pa_addresses = [V4 [10, 0, 0, 2] 9], pa_public_key = ''k2'' \<rparr>]
   in n = 1 \<and> key_of book' ''bob'' = Some ''k1''
     \<and> set (get_addresses book' ''bob'') = {V4 [10, 0, 0, 1] 9, V4 [10, 0, 0, 2] 9}"
proof -
  let ?book = "add_or_update 5 ''bob'' [V4 [10, 0, 0, 1] 9] ''k1'' SrcLAN f64_one AddressBook_new"
  let ?peers = "[\<lparr> pa_uid = ''bob'', pa_addresses = [V4 [10, 0, 0, 2] 9], pa_public_key = ''k2'' \<rparr>]"
  have lvl: "\<not> Full < Marginal" by (simp add: less_TrustLevel_def)
  have k: "key_of ?book ''bob'' = Some ''k1''" and a: "set (get_addresses ?book ''bob'') = {V4 [10, 0, 0, 1] 9}"
    by (simp_all add: add_or_update_def key_of_def book_get_def get_addresses_def AddressBook_new_def)
  obtain book' n where r: "handle_gossip_response (\<lambda>_. 6) ?book ''ann'' Full ?peers = (book', n)" by (meson surj_pair)
  have "n = length ?peers \<and> (\<forall>u. set (get_addresses book' u) = set (get_addresses ?book u)
          \<union> (\<Union>p \<in> {p \<in> set ?peers. pa_uid p = u}. set (pa_addresses p)))
      \<and> (\<forall>u k. key_of ?book u = Some k \<longrightarrow> key_of book' u = Some k)"
    using gossip_filtered_and_additive [of "\<lambda>_. 6" ?book "''ann''" Full ?peers] lvl by (simp add: r)
  then have "n = 1 \<and> key_of book' ''bob'' = Some ''k1''
     \<and> set (get_addresses book' ''bob'') = {V4 [10, 0, 0, 1] 9, V4 [10, 0, 0, 2] 9}" using k a by auto
  then show ?thesis using r by (simp add: Let_def)
qed

section \<open>Pruning\<close>

text \<open>Pruning keeps exactly the entries younger than the limit, provided no entry lies in the future;
  an entry stamped after the current clock reading is dropped whenever the limit is below the
  wrapped-around age.\<close>
theorem prune_keeps_fresh:
  assumes "hwf (ab_entries book)" and "book_get book u = Some e"
  shows "if ae_last_seen e \<le> now
    then (book_get (prune_stale now age book) u = (if unat now - unat (ae_last_seen e) < unat age then Some e else None))
    else (unat (ae_last_seen e) - unat now \<le> 2 ^ 64 - unat age \<longrightarrow> book_get (prune_stale now age book) u = None)"
proof -
  have got: "book_get (prune_stale now age book) u = (if now - ae_last_seen e < age then Some e else None)"
    using assms by (simp add: book_get_def prune_stale_def hget_filter_key)
  show ?thesis
  proof (cases "ae_last_seen e \<le> now")
    case True
    then have "unat (now - ae_last_seen e) = unat now - unat (ae_last_seen e)" by (rule unat_sub)
    then show ?thesis using True got by (simp add: word_less_nat_alt)
  next
    case False
    then have less: "unat now < unat (ae_last_seen e)" by (simp add: word_less_nat_alt not_le)
    have "unat (now - ae_last_seen e) = unat now + 2 ^ 64 - unat (ae_last_seen e)"
      using less by (simp add: unat_sub_if' word_less_nat_alt)
    then have "\<not> now - ae_last_seen e < age" if "unat (ae_last_seen e) - unat now \<le> 2 ^ 64 - unat age"
      using that less unsigned_less [of age] unsigned_less [of "ae_last_seen e"] by (simp add: word_less_nat_alt)
    then show ?thesis using False got by simp
  qed
qed

end
