(* ===== verification/DiskFiles.thy ===== *)
theory DiskFiles
  imports Text
begin

text \<open>
  Files that are written whole and parsed when read: \<^verbatim>\<open>write_private_file\<close> of \<^verbatim>\<open>identity.rs\<close>, and
  \<^verbatim>\<open>fs::read_to_string\<close> followed by a parser. A file is its contents, \<^const>\<open>None\<close> if it does not exist;
  what the operating system does during a write is an argument. File modes have no effect on the
  contents and are left out. The two locales are the contract between such a file and the state
  kept in it: the identity, the snapshot, the transport, the legacy social state and the web of
  trust each interpret one of them.
\<close>

section \<open>Operations\<close>

type_synonym disk_file = "bytes option"

text \<open>How a write can go: the file cannot be opened; it stops after some bytes (a full disk, or the
  machine stops); the final sync fails; all is well.\<close>
datatype write_io = OpenFails | WriteStops nat | SyncFails | WriteOk

text \<open>Opening truncates. The result is the file afterwards and whether the call succeeded.\<close>
fun write_private_file :: "write_io \<Rightarrow> string \<Rightarrow> disk_file \<Rightarrow> disk_file \<times> bool" where
  "write_private_file OpenFails contents f = (f, False)"
| "write_private_file (WriteStops n) contents f = (Some (take n (str_bytes contents)), False)"
| "write_private_file SyncFails contents f = (Some (str_bytes contents), False)"
| "write_private_file WriteOk contents f = (Some (str_bytes contents), True)"

definition read_to_string :: "disk_file \<Rightarrow> string option" where
  "read_to_string f = (case f of None \<Rightarrow> None | Some bs \<Rightarrow> from_utf8 bs)"

text \<open>\<^verbatim>\<open>read_to_string(path).ok()\<close>, then the parser, then \<^verbatim>\<open>.ok()\<close>.\<close>
definition read_parsed :: "(string \<Rightarrow> 'a option) \<Rightarrow> disk_file \<Rightarrow> 'a option" where
  "read_parsed parse f = (case read_to_string f of None \<Rightarrow> None | Some text \<Rightarrow> parse text)"

lemma read_parsed_None [simp]: "read_parsed parse None = None"
  by (simp add: read_parsed_def read_to_string_def)

lemma read_parsed_whole [simp]: "str_valid s \<Longrightarrow> read_parsed parse (Some (str_bytes s)) = parse s"
  by (simp add: read_parsed_def read_to_string_def)

lemma read_cut: "read_to_string (Some (take n (str_bytes s))) = Some t \<Longrightarrow> t = take n s"
  by (auto simp: read_to_string_def from_utf8_def str_bytes_def take_map split: if_splits)
    (metis bytes_str_str_bytes str_bytes_def take_map)

lemma read_parsed_cut: "read_parsed parse (Some (take n (str_bytes s))) \<in> {None, parse (take n s)}"
  using read_cut [of n s] by (auto simp: read_parsed_def split: option.split)

section \<open>State kept in a file\<close>

text \<open>The text of a good state is valid and reads back.\<close>
locale text_file = codec enc dec ok
  for enc :: "'a \<Rightarrow> string" and dec :: "string \<Rightarrow> 'a option" and ok :: "'a \<Rightarrow> bool" +
  assumes enc_valid: "ok x \<Longrightarrow> str_valid (enc x)"
begin

lemma read_enc [simp]: "ok x \<Longrightarrow> read_parsed dec (Some (str_bytes (enc x))) = Some x"
  by (simp add: enc_valid dec_enc)

lemma read_written: "ok x \<Longrightarrow> write_private_file io (enc x) f = (f', True) \<Longrightarrow> read_parsed dec f' = Some x"
  by (cases io) auto

end

text \<open>Moreover, a text that is cut short does not parse.\<close>
locale object_file = text_file enc dec ok
  for enc :: "'a \<Rightarrow> string" and dec :: "string \<Rightarrow> 'a option" and ok :: "'a \<Rightarrow> bool" +
  assumes enc_cut: "ok x \<Longrightarrow> n < length (enc x) \<Longrightarrow> dec (take n (enc x)) = None"
begin

lemma read_torn:
  "ok x \<Longrightarrow> read_parsed dec (Some (take n (str_bytes (enc x)))) = (if n < length (enc x) then None else Some x)"
  using read_parsed_cut [of dec n "enc x"] by (auto simp: enc_cut read_enc)

text \<open>A write leaves what was there, nothing that parses, or the new state.\<close>
lemma read_after_write:
  "ok x \<Longrightarrow> read_parsed dec (fst (write_private_file io (enc x) f)) =
     (case io of OpenFails \<Rightarrow> read_parsed dec f
      | WriteStops n \<Rightarrow> if n < length (enc x) then None else Some x
      | _ \<Rightarrow> Some x)"
  by (cases io) (simp_all add: read_torn)

end

end
