(* ===== verification/Storage.thy ===== *)
theory Storage
  imports DiskFiles
begin

text \<open>
  \<^verbatim>\<open>storage.rs\<close>: the write-ahead log and its checkpoints. The files are part of the state: the bytes of
  \<^verbatim>\<open>wal.log\<close> and the file \<^verbatim>\<open>state.json\<close>. How far each write gets before it fails is an
  argument of the operation. Instants and timestamps are milliseconds; JSON conversion is the
  parameter \<open>J\<close>.
\<close>

section \<open>Data\<close>

definition MAX_WAL_BYTES :: nat where
  "MAX_WAL_BYTES = 64 * 1024 * 1024"

datatype WalOperation =
    AddFriend uid string u8
  | RemoveFriend uid
  | UpdateTrust uid u8
  | CreateChannel string
  | JoinChannel string uid
  | LeaveChannel string uid
  | CreateNetwork string uid
  | AddMember string uid
  | RemoveMember string uid
  | SetUid uid
  | UpdateEdgeKey uid string
  | SendMessage uid uid string

record FriendRecord =
  fr_uid :: uid
  fr_addr :: string
  fr_trust :: u8
  fr_edge_key_hex :: "string option"

record ChannelRecord =
  cr_name :: string
  cr_topic :: string
  cr_participants :: "uid list"

record SocialSnapshot =
  sn_uid :: uid
  sn_friends :: "FriendRecord list"
  sn_channels :: "ChannelRecord list"

record wal_json =
  op_json :: "WalOperation \<Rightarrow> string"
  op_parse :: "string \<Rightarrow> WalOperation option"
  snap_json :: "SocialSnapshot \<Rightarrow> string"
  snap_parse :: "string \<Rightarrow> SocialSnapshot option"

record WalStore =
  ws_log :: bytes \<comment> \<open>contents of \<^verbatim>\<open>wal.log\<close>\<close>
  ws_state :: disk_file \<comment> \<open>\<^verbatim>\<open>state.json\<close>\<close>
  ws_ops_since_checkpoint :: u64
  ws_last_checkpoint :: nat
  ws_checkpoint_ops :: u64
  ws_checkpoint_interval :: nat

text \<open>An append succeeds, or fails with some bytes of the line already in the file.\<close>
datatype append_io = AppendOk | AppendFail nat

text \<open>How the temporary snapshot takes the place of the old one: by the first rename; by the second, after
  the old snapshot was removed; or not by renaming, so that it is written in place, after the
  removal had succeeded or not.\<close>
datatype replace_io = Renamed | RenamedAgain | InPlace bool write_io

text \<open>The log cannot be reopened; once truncated it cannot be synced; all is well.\<close>
datatype truncate_io = TruncOpenFails | TruncSyncFails | TruncOk

text \<open>A checkpoint whose temporary file cannot be written stops there.\<close>
datatype ckpt_io = CkptTmpFail | CkptReplace replace_io truncate_io

abbreviation CkptOk :: ckpt_io where
  "CkptOk \<equiv> CkptReplace Renamed TruncOk"

section \<open>Operations\<close>

definition WalStore_open :: "nat \<Rightarrow> bytes \<Rightarrow> disk_file \<Rightarrow> u64 \<Rightarrow> WalStore" where
  "WalStore_open now log state checkpoint_ops = \<lparr> ws_log = log, ws_state = state, ws_ops_since_checkpoint = 0,
     ws_last_checkpoint = now, ws_checkpoint_ops = checkpoint_ops, ws_checkpoint_interval = 60000 \<rparr>"

definition wal_text :: "wal_json \<Rightarrow> nat \<Rightarrow> WalOperation \<Rightarrow> bytes" where
  "wal_text J ts op = str_bytes (''['' @ show_nat ts @ ''] '' @ op_json J op)"

definition append_op :: "wal_json \<Rightarrow> nat \<Rightarrow> append_io \<Rightarrow> WalOperation \<Rightarrow> WalStore \<Rightarrow> WalStore \<times> bool" where
  "append_op J ts io op w =
     (let line = wal_text J ts op @ [10] in
      case io of
        AppendOk \<Rightarrow> (w\<lparr> ws_log := ws_log w @ line, ws_ops_since_checkpoint := ws_ops_since_checkpoint w + 1 \<rparr>, True)
      | AppendFail n \<Rightarrow> (w\<lparr> ws_log := ws_log w @ take n line \<rparr>, False))"

text \<open>\<^verbatim>\<open>BufReader::lines\<close>: a newline ends a line and takes one carriage return with it; an
  unterminated rest is a line of its own.\<close>
function log_lines :: "bytes \<Rightarrow> bytes list" where
  "log_lines bs = (if bs = [] then []
     else let line = takeWhile (\<lambda>b. b \<noteq> 10) bs; rest = dropWhile (\<lambda>b. b \<noteq> 10) bs in
       if rest = [] then [line]
       else (if line \<noteq> [] \<and> last line = 13 then butlast line else line) # log_lines (tl rest))"
  by pat_completeness auto
termination
proof (relation "measure length")
  fix bs line rest :: bytes
  assume rest: "rest = dropWhile (\<lambda>b. b \<noteq> 10) bs" "rest \<noteq> []"
  have "length (tl rest) < length rest" using rest(2) by (cases rest) simp_all
  also have "\<dots> \<le> length bs" by (simp add: rest(1) length_dropWhile_le)
  finally show "(tl rest, bs) \<in> measure length" by simp
qed simp

declare log_lines.simps [simp del]

definition parse_line :: "wal_json \<Rightarrow> bytes \<Rightarrow> WalOperation option" where
  "parse_line J line = (case dropWhile (\<lambda>c. c \<noteq> CHR ''{'') (bytes_str line) of
     [] \<Rightarrow> None | json \<Rightarrow> op_parse J json)"

definition replay :: "wal_json \<Rightarrow> WalStore \<Rightarrow> WalOperation list" where
  "replay J w = (if length (ws_log w) > MAX_WAL_BYTES then []
     else List.map_filter (parse_line J) (takeWhile utf8_valid (log_lines (ws_log w))))"

text \<open>The file \<^verbatim>\<open>state.json\<close> afterwards, and whether it was replaced.\<close>
fun replace_state :: "replace_io \<Rightarrow> string \<Rightarrow> disk_file \<Rightarrow> disk_file \<times> bool" where
  "replace_state Renamed json f = (Some (str_bytes json), True)"
| "replace_state RenamedAgain json f = (Some (str_bytes json), True)"
| "replace_state (InPlace removed io) json f = write_private_file io json (if removed then None else f)"

definition checkpoint :: "wal_json \<Rightarrow> nat \<Rightarrow> ckpt_io \<Rightarrow> SocialSnapshot \<Rightarrow> WalStore \<Rightarrow> WalStore \<times> bool" where
  "checkpoint J now io snap w =
     (let json = snap_json J snap in
      case io of
        CkptTmpFail \<Rightarrow> (w, False)
      | CkptReplace rio tio \<Rightarrow>
          (case replace_state rio json (ws_state w) of (f, replaced) \<Rightarrow>
           let w1 = w\<lparr> ws_state := f \<rparr> in
           if \<not> replaced then (w1, False)
           else case tio of
             TruncOpenFails \<Rightarrow> (w1, False)
           | TruncSyncFails \<Rightarrow> (w1\<lparr> ws_log := [] \<rparr>, False)
           | TruncOk \<Rightarrow> (w1\<lparr> ws_log := [], ws_ops_since_checkpoint := 0, ws_last_checkpoint := now \<rparr>, True)))"

definition should_checkpoint :: "nat \<Rightarrow> WalStore \<Rightarrow> bool" where
  "should_checkpoint now w \<longleftrightarrow> ws_ops_since_checkpoint w \<ge> ws_checkpoint_ops w
     \<or> now - ws_last_checkpoint w \<ge> ws_checkpoint_interval w"

definition ops_count :: "WalStore \<Rightarrow> u64" where
  "ops_count w = ws_ops_since_checkpoint w"

definition time_since_checkpoint :: "nat \<Rightarrow> WalStore \<Rightarrow> nat" where
  "time_since_checkpoint now w = now - ws_last_checkpoint w"

definition load_state :: "wal_json \<Rightarrow> WalStore \<Rightarrow> SocialSnapshot option" where
  "load_state J w = read_parsed (snap_parse J) (ws_state w)"

section \<open>Replaying what was appended\<close>

text \<open>What the code relies on of serde for one operation: its text is one line of UTF-8 that opens with
  a brace and parses back, and a truncated text does not parse.\<close>
definition op_json_ok :: "wal_json \<Rightarrow> WalOperation \<Rightarrow> bool" where
  "op_json_ok J op \<longleftrightarrow> (\<exists>s. op_json J op = CHR ''{'' # s) \<and> op_parse J (op_json J op) = Some op
     \<and> utf8_valid (str_bytes (op_json J op)) \<and> 10 \<notin> set (str_bytes (op_json J op))
     \<and> last (str_bytes (op_json J op)) \<noteq> 13
     \<and> (\<forall>n < length (op_json J op). op_parse J (take n (op_json J op)) = None)"

lemma takeWhile_not_in: "x \<notin> set l \<Longrightarrow> takeWhile (\<lambda>b. b \<noteq> x) (l @ x # rest) = l"
  by (induction l) auto

lemma dropWhile_not_in: "x \<notin> set l \<Longrightarrow> dropWhile (\<lambda>b. b \<noteq> x) (l @ x # rest) = x # rest"
  by (induction l) auto

lemma log_lines_Nil [simp]: "log_lines [] = []"
  by (simp add: log_lines.simps)

lemma log_lines_Cons:
  assumes "10 \<notin> set l" and "l = [] \<or> last l \<noteq> 13"
  shows "log_lines (l @ 10 # rest) = l # log_lines rest"
  using assms by (subst log_lines.simps) (auto simp: Let_def takeWhile_not_in dropWhile_not_in)

lemma log_lines_unterminated:
  assumes "10 \<notin> set l"
  shows "log_lines l = (if l = [] then [] else [l])"
proof -
  have "takeWhile (\<lambda>b. b \<noteq> 10) l = l" "dropWhile (\<lambda>b. b \<noteq> 10) l = []"
    using assms by (auto simp: takeWhile_eq_all_conv dropWhile_eq_Nil_conv)
  then show ?thesis by (subst log_lines.simps) (simp add: Let_def)
qed

lemma utf8_valid_append_ascii: "\<forall>b \<in> set bs. b < 0x80 \<Longrightarrow> utf8_valid v \<Longrightarrow> utf8_valid (bs @ v)"
proof (induction bs)
  case (Cons b bs)
  then have "utf8_step (b # bs @ v) = (1, True)"
    by (simp only: utf8_step_def Let_def list.sel if_True list.set_intros)
  with Cons show ?case by (simp add: utf8_valid.simps [of "b # bs @ v"])
qed simp

text \<open>The timestamp prefix of a line.\<close>
definition stamp :: "nat \<Rightarrow> string" where
  "stamp ts = ''['' @ show_nat ts @ ''] ''"

lemma stamp_chars: "c \<in> set (stamp ts) \<Longrightarrow> of_char c < (128 :: nat) \<and> of_char c \<noteq> (10 :: nat) \<and> c \<noteq> CHR ''{''"
  using show_nat_digits [of c ts] by (auto simp: stamp_def)

lemma wal_text_eq: "wal_text J ts op = str_bytes (stamp ts @ op_json J op)"
  by (simp add: wal_text_def stamp_def)

lemma bytes_str_append: "bytes_str (a @ b) = bytes_str a @ bytes_str b"
  by (simp add: bytes_str_def)

lemma str_byte_small: "of_char c < (128 :: nat) \<Longrightarrow> (of_nat (of_char c) :: u8) < 0x80"
  by (simp add: word_less_nat_alt unat_of_nat)

lemma str_byte_10: "(of_nat (of_char c) :: u8) = 10 \<longleftrightarrow> of_char c = (10 :: nat)"
  using of_char_lt_256 [of c] by (simp add: word_unat_eq_iff unat_of_nat)

lemma stamp_bytes: "\<forall>b \<in> set (str_bytes (stamp ts)). b < 0x80 \<and> b \<noteq> 10"
proof
  fix b assume "b \<in> set (str_bytes (stamp ts))"
  then obtain c where c: "c \<in> set (stamp ts)" "b = of_nat (of_char c)" by (auto simp: str_bytes_def)
  then show "b < 0x80 \<and> b \<noteq> 10" using stamp_chars [of c ts] str_byte_small [of c] by (simp add: str_byte_10)
qed

lemma dropWhile_stamp: "dropWhile (\<lambda>c. c \<noteq> CHR ''{'') (stamp ts @ CHR ''{'' # s) = CHR ''{'' # s"
  by (rule dropWhile_not_in) (use stamp_chars in blast)

lemma wal_text_ok:
  assumes "op_json_ok J op"
  shows "10 \<notin> set (wal_text J ts op)" and "wal_text J ts op \<noteq> []" and "last (wal_text J ts op) \<noteq> 13"
    and "utf8_valid (wal_text J ts op)" and "parse_line J (wal_text J ts op) = Some op"
proof -
  obtain s where s: "op_json J op = CHR ''{'' # s" using assms by (auto simp: op_json_ok_def)
  show "10 \<notin> set (wal_text J ts op)"
    using assms stamp_bytes [of ts] by (auto simp: wal_text_eq str_bytes_append op_json_ok_def)
  show "wal_text J ts op \<noteq> []" by (simp add: wal_text_def str_bytes_def)
  show "last (wal_text J ts op) \<noteq> 13"
    using assms s by (simp add: wal_text_eq str_bytes_append op_json_ok_def str_bytes_def)
  show "utf8_valid (wal_text J ts op)"
    using assms stamp_bytes [of ts] by (auto simp: wal_text_eq str_bytes_append op_json_ok_def intro: utf8_valid_append_ascii)
  show "parse_line J (wal_text J ts op) = Some op"
    using assms s by (simp add: parse_line_def wal_text_eq dropWhile_stamp op_json_ok_def)
qed

text \<open>The operations a log of whole lines holds, and what follows them.\<close>
definition scan :: "wal_json \<Rightarrow> bytes \<Rightarrow> WalOperation list" where
  "scan J log = List.map_filter (parse_line J) (takeWhile utf8_valid (log_lines log))"

definition log_of :: "wal_json \<Rightarrow> (nat \<times> WalOperation) list \<Rightarrow> bytes" where
  "log_of J ops = concat (map (\<lambda>(ts, op). wal_text J ts op @ [10]) ops)"

lemma scan_log_of:
  "\<forall>(ts, op) \<in> set ops. op_json_ok J op \<Longrightarrow> scan J (log_of J ops @ rest) = map snd ops @ scan J rest"
proof (induction ops)
  case (Cons top ops)
  obtain ts op where top: "top = (ts, op)" by (cases top)
  have ok: "op_json_ok J op" using Cons.prems top by simp
  have "log_of J (top # ops) @ rest = wal_text J ts op @ 10 # (log_of J ops @ rest)" by (simp add: log_of_def top)
  then show ?case
    using Cons wal_text_ok [OF ok, of ts] by (simp add: scan_def log_lines_Cons map_filter_simps top)
qed (simp add: log_of_def)

fun append_all :: "wal_json \<Rightarrow> (nat \<times> WalOperation) list \<Rightarrow> WalStore \<Rightarrow> WalStore" where
  "append_all J [] w = w"
| "append_all J ((ts, op) # ops) w = append_all J ops (fst (append_op J ts AppendOk op w))"

lemma append_all_log: "ws_log (append_all J ops w) = ws_log w @ log_of J ops"
  by (induction J ops w rule: append_all.induct) (simp_all add: append_op_def log_of_def Let_def)

lemma replay_scan: "length (ws_log w) \<le> MAX_WAL_BYTES \<Longrightarrow> replay J w = scan J (ws_log w)"
  by (simp add: replay_def scan_def)

lemma replay_append_all:
  assumes "\<forall>(ts, op) \<in> set ops. op_json_ok J op"
    and "length (ws_log (append_all J ops (WalStore_open now [] st k))) \<le> MAX_WAL_BYTES"
  shows "replay J (append_all J ops (WalStore_open now [] st k)) = map snd ops"
  using scan_log_of [OF assms(1), of "[]"] replay_scan [OF assms(2)]
  by (simp add: append_all_log WalStore_open_def scan_def)

text \<open>Replaying the log gives back exactly the operations appended, in order. This holds for any number
  of successful appends to a new log of at most 64 MiB.\<close>
theorem wal_replay_roundtrip:
  assumes "\<forall>(ts, op) \<in> set ops. op_json_ok J op"
    and "length (ws_log (append_all J ops (WalStore_open now [] st k))) \<le> MAX_WAL_BYTES"
  shows "replay J (append_all J ops (WalStore_open now [] st k)) = map snd ops"
  using assms by (rule replay_append_all)

text \<open>A stand-in for serde that knows two operations, for the witnesses.\<close>
definition toy_wal :: wal_json where
  "toy_wal = \<lparr> op_json = (\<lambda>op. if op = SetUid ''a'' then ''{a}'' else ''{b}''),
     op_parse = (\<lambda>s. if s = ''{a}'' then Some (SetUid ''a'') else if s = ''{b}'' then Some (SetUid ''b'') else None),
     snap_json = (\<lambda>_. []), snap_parse = (\<lambda>_. None) \<rparr>"

lemma toy_wal_ok: "op_json_ok toy_wal (SetUid ''a'')" "op_json_ok toy_wal (SetUid ''b'')"
  by (auto simp: op_json_ok_def toy_wal_def str_bytes_def utf8_valid_ascii less_Suc_eq numeral_3_eq_3)

lemmas toy_log = append_all_log WalStore_open_def log_of_def wal_text_def toy_wal_def show_nat.simps MAX_WAL_BYTES_def

theorem wal_replay_roundtrip_witness:
  "replay toy_wal (append_all toy_wal [(1, SetUid ''b''), (2, SetUid ''a'')] (WalStore_open 0 [] None 100))
    = [SetUid ''b'', SetUid ''a'']"
proof -
  let ?ops = "[(1, SetUid ''b''), (2, SetUid ''a'')]"
  have ok: "\<forall>(ts, op) \<in> set ?ops. op_json_ok toy_wal op" by (simp add: toy_wal_ok)
  have "length (ws_log (append_all toy_wal ?ops (WalStore_open 0 [] None 100))) \<le> MAX_WAL_BYTES"
    by (subst append_all_log) (simp add: toy_log)
  from wal_replay_roundtrip [OF ok this] show ?thesis by (simp only: list.map snd_conv)
qed

section \<open>Torn writes\<close>

lemma take_wal_text_cases:
  assumes "op_json_ok J op" and "n < length (wal_text J ts op)"
  shows "parse_line J (take n (wal_text J ts op)) = None"
proof -
  obtain s where s: "op_json J op = CHR ''{'' # s" using assms by (auto simp: op_json_ok_def)
  have "bytes_str (take n (wal_text J ts op)) = take n (stamp ts @ op_json J op)"
    by (simp add: wal_text_eq bytes_str_def take_map [symmetric]) (simp add: take_map bytes_str_def [symmetric])
  also have "\<dots> = take n (stamp ts) @ take (n - length (stamp ts)) (op_json J op)" by simp
  finally have str: "bytes_str (take n (wal_text J ts op)) = \<dots>" .
  show ?thesis
  proof (cases "n \<le> length (stamp ts)")
    case True
    then have "dropWhile (\<lambda>c. c \<noteq> CHR ''{'') (take n (stamp ts)) = []"
      using stamp_chars by (auto simp: dropWhile_eq_Nil_conv dest: in_set_takeD)
    then show ?thesis using True str by (simp add: parse_line_def del: dropWhile_eq_Nil_conv)
  next
    case False
    define m where "m = n - length (stamp ts)"
    have m: "0 < m" "m < length (op_json J op)" using False assms(2) by (simp_all add: m_def wal_text_eq)
    then obtain t where t: "take m (op_json J op) = CHR ''{'' # t" using s by (cases m) simp_all
    have "bytes_str (take n (wal_text J ts op)) = stamp ts @ CHR ''{'' # t" using False str t by (simp add: m_def)
    then have "parse_line J (take n (wal_text J ts op)) = op_parse J (take m (op_json J op))"
      using t by (simp add: parse_line_def dropWhile_stamp)
    then show ?thesis using assms(1) m by (simp add: op_json_ok_def)
  qed
qed

lemma scan_torn:
  assumes "op_json_ok J op"
  shows "scan J (take n (wal_text J ts op @ [10])) = (if length (wal_text J ts op) \<le> n then [op] else [])"
proof (cases "length (wal_text J ts op) \<le> n")
  case True
  show ?thesis
  proof (cases "n = length (wal_text J ts op)")
    case True
    then show ?thesis using wal_text_ok [OF assms, of ts]
      by (simp add: scan_def log_lines_unterminated map_filter_simps)
  next
    case False
    then have "scan J (take n (wal_text J ts op @ [10])) = scan J (log_of J [(ts, op)] @ [])"
      using True by (simp add: log_of_def)
    then show ?thesis using True scan_log_of [of "[(ts, op)]" J "[]"] assms by (simp add: scan_def)
  qed
next
  case False
  then have n: "n < length (wal_text J ts op)" by simp
  have "10 \<notin> set (take n (wal_text J ts op))" using wal_text_ok(1) [OF assms] by (meson in_set_takeD)
  then show ?thesis using n take_wal_text_cases [OF assms n]
    by (simp add: scan_def log_lines_unterminated map_filter_simps)
qed

text \<open>C19: A crash in the middle of an append loses at most that operation. After any number of complete
  appends and one that stops after \<open>n\<close> bytes, replay gives the complete ones, followed by the last
  one exactly when all of its text reached the file.\<close>
theorem torn_append_loses_at_most_one:
  assumes "\<forall>(ts, op) \<in> set ops. op_json_ok J op" and "op_json_ok J op"
    and "length (ws_log (fst (append_op J ts (AppendFail n) op (append_all J ops (WalStore_open now [] st k))))) \<le> MAX_WAL_BYTES"
  shows "replay J (fst (append_op J ts (AppendFail n) op (append_all J ops (WalStore_open now [] st k))))
    = map snd ops @ (if length (wal_text J ts op) \<le> n then [op] else [])"
  using replay_scan [OF assms(3)] scan_log_of [OF assms(1)] scan_torn [OF assms(2)]
  by (simp add: append_op_def append_all_log WalStore_open_def Let_def)

theorem torn_append_loses_at_most_one_witness:
  "replay toy_wal (fst (append_op toy_wal 2 (AppendFail 5) (SetUid ''a'')
      (append_all toy_wal [(1, SetUid ''b'')] (WalStore_open 0 [] None 100)))) = [SetUid ''b'']"
proof -
  let ?ops = "[(1, SetUid ''b'')]"
  have ok: "\<forall>(ts, op) \<in> set ?ops. op_json_ok toy_wal op" by (simp add: toy_wal_ok)
  have "length (ws_log (fst (append_op toy_wal 2 (AppendFail 5) (SetUid ''a'')
      (append_all toy_wal ?ops (WalStore_open 0 [] None 100))))) \<le> MAX_WAL_BYTES"
    by (simp add: toy_log append_op_def Let_def)
  from torn_append_loses_at_most_one [OF ok toy_wal_ok(1) this] show ?thesis
    by (simp add: wal_text_def toy_wal_def show_nat.simps del: append_all.simps)
qed

text \<open>A torn line takes the next operation with it. When the log is opened again after a crash in the
  middle of an append, the leftover text is not cut off, so the next operation is written behind it
  on the same line. Its append succeeds, yet replay does not return it (unless the leftover parses as
  part of it).\<close>
theorem torn_line_swallows_next:
  assumes "\<forall>(ts, op) \<in> set ops. op_json_ok J op" and "op_json_ok J op" and "op_json_ok J op'"
    and "length (stamp ts) < n" and "n < length (wal_text J ts op)"
    and garbage: "op_parse J (drop (length (stamp ts)) (bytes_str (take n (wal_text J ts op))) @ stamp ts' @ op_json J op') = None"
    and crashed: "w = fst (append_op J ts (AppendFail n) op (append_all J ops (WalStore_open now [] st k)))"
    and again: "append_op J ts' AppendOk op' (WalStore_open now' (ws_log w) (ws_state w) k) = (w', True)"
    and "length (ws_log w') \<le> MAX_WAL_BYTES"
  shows "replay J w' = map snd ops"
proof -
  let ?t = "take n (wal_text J ts op)" and ?l = "take n (wal_text J ts op) @ wal_text J ts' op'"
  have log: "ws_log w' = log_of J ops @ ?l @ 10 # []" using again crashed assms(5)
    by (auto simp: append_op_def append_all_log WalStore_open_def Let_def)
  have nl: "10 \<notin> set ?l" using wal_text_ok(1) [OF assms(2)] wal_text_ok(1) [OF assms(3)] by (auto dest: in_set_takeD)
  have "last ?l \<noteq> 13" using wal_text_ok(2,3) [OF assms(3)] by simp
  then have lines: "log_lines (?l @ 10 # []) = [?l]" using log_lines_Cons [OF nl, of "[]"] by simp
  have "bytes_str ?l = bytes_str ?t @ stamp ts' @ op_json J op'"
    by (simp add: wal_text_eq [of J ts' op'] bytes_str_append)
  moreover obtain t where "bytes_str ?t = stamp ts @ CHR ''{'' # t"
  proof -
    obtain s where s: "op_json J op = CHR ''{'' # s" using assms(2) by (auto simp: op_json_ok_def)
    have "bytes_str ?t = take n (bytes_str (wal_text J ts op))" by (simp add: bytes_str_def take_map)
    also have "\<dots> = stamp ts @ take (n - length (stamp ts)) (CHR ''{'' # s)" using assms(4) by (simp add: wal_text_eq s)
    finally show ?thesis using assms(4) that by (cases "n - length (stamp ts)") simp_all
  qed
  ultimately have "parse_line J ?l = None" using garbage by (simp add: parse_line_def dropWhile_stamp)
  then have "scan J (?l @ 10 # []) = []" unfolding scan_def lines by (simp add: map_filter_simps)
  then show ?thesis using log replay_scan [OF assms(9)] scan_log_of [OF assms(1), of "?l @ 10 # []"] by simp
qed

theorem torn_line_swallows_next_witness:
  "\<exists>w'. append_op toy_wal 3 AppendOk (SetUid ''b'') (WalStore_open 9 (ws_log (fst (append_op toy_wal 2 (AppendFail 5)
      (SetUid ''a'') (append_all toy_wal [(1, SetUid ''b'')] (WalStore_open 0 [] None 100))))) None 100) = (w', True)
    \<and> replay toy_wal w' = [SetUid ''b'']"
proof -
  let ?w = "fst (append_op toy_wal 2 (AppendFail 5) (SetUid ''a'')
    (append_all toy_wal [(1, SetUid ''b'')] (WalStore_open 0 [] None 100)))"
  have state: "ws_state ?w = None" by (simp add: append_op_def WalStore_open_def Let_def)
  obtain w' where w': "append_op toy_wal 3 AppendOk (SetUid ''b'') (WalStore_open 9 (ws_log ?w) (ws_state ?w) 100) = (w', True)"
    by (simp add: append_op_def Let_def)
  have len: "length (ws_log w') \<le> MAX_WAL_BYTES"
    using w' by (auto simp: toy_log append_op_def Let_def)
  have ok: "\<forall>(ts, op) \<in> set [(1 :: nat, SetUid ''b'')]. op_json_ok toy_wal op" by (simp add: toy_wal_ok)
  have "replay toy_wal w' = map snd [(1 :: nat, SetUid ''b'')]"
    by (rule torn_line_swallows_next [OF ok toy_wal_ok(1) toy_wal_ok(2) _ _ _ refl w' len])
      (simp_all add: stamp_def show_nat.simps wal_text_def toy_wal_def)
  then show ?thesis using w' state by auto
qed

section \<open>The log and the snapshot as an abstract store\<close>

text \<open>What the code relies on of serde for a snapshot: its text is UTF-8, parses back, and does not parse
  when cut short.\<close>
definition snap_json_ok :: "wal_json \<Rightarrow> SocialSnapshot \<Rightarrow> bool" where
  "snap_json_ok J snap \<longleftrightarrow> str_valid (snap_json J snap) \<and> snap_parse J (snap_json J snap) = Some snap
     \<and> (\<forall>n < length (snap_json J snap). snap_parse J (take n (snap_json J snap)) = None)"

interpretation snapshot_file: object_file "snap_json J" "snap_parse J" "snap_json_ok J" for J
  by unfold_locales (simp_all add: snap_json_ok_def)

text \<open>A store is used by successful appends and by checkpoints that may fail anywhere.\<close>
datatype store_op = Append nat WalOperation | Checkpoint nat ckpt_io SocialSnapshot

fun store_step :: "wal_json \<Rightarrow> store_op \<Rightarrow> WalStore \<Rightarrow> WalStore" where
  "store_step J (Append ts op) w = fst (append_op J ts AppendOk op w)"
| "store_step J (Checkpoint now io snap) w = fst (checkpoint J now io snap w)"

fun store_enabled :: "wal_json \<Rightarrow> store_op \<Rightarrow> bool" where
  "store_enabled J (Append ts op) = op_json_ok J op"
| "store_enabled J (Checkpoint now io snap) = snap_json_ok J snap"

text \<open>The specification: a snapshot, if there is one, and the operations since. \<open>len\<close> is the length of a
  snapshot's text, which tells whether a write of it that stops is complete.\<close>
type_synonym abstract_store = "SocialSnapshot option \<times> WalOperation list"

fun abstract_replace :: "nat \<Rightarrow> replace_io \<Rightarrow> SocialSnapshot \<Rightarrow> SocialSnapshot option \<Rightarrow> SocialSnapshot option \<times> bool" where
  "abstract_replace len (InPlace removed OpenFails) snap old = (if removed then None else old, False)"
| "abstract_replace len (InPlace removed (WriteStops n)) snap old = (if n < len then None else Some snap, False)"
| "abstract_replace len (InPlace removed SyncFails) snap old = (Some snap, False)"
| "abstract_replace len rio snap old = (Some snap, True)"

fun abstract_step :: "(SocialSnapshot \<Rightarrow> nat) \<Rightarrow> store_op \<Rightarrow> abstract_store \<Rightarrow> abstract_store" where
  "abstract_step len (Append ts op) (old, ops) = (old, ops @ [op])"
| "abstract_step len (Checkpoint now CkptTmpFail snap) (old, ops) = (old, ops)"
| "abstract_step len (Checkpoint now (CkptReplace rio tio) snap) (old, ops) =
     (case abstract_replace (len snap) rio snap old of (new, replaced) \<Rightarrow>
        (new, if replaced \<and> tio \<noteq> TruncOpenFails then [] else ops))"

definition whole_lines :: "wal_json \<Rightarrow> WalStore \<Rightarrow> bool" where
  "whole_lines J w \<longleftrightarrow> (\<exists>ops. ws_log w = log_of J ops \<and> (\<forall>(ts, op) \<in> set ops. op_json_ok J op))"

definition store_abs :: "wal_json \<Rightarrow> WalStore \<Rightarrow> abstract_store" where
  "store_abs J w = (load_state J w, scan J (ws_log w))"

lemma log_of_snoc: "log_of J (ops @ [(ts, op)]) = log_of J ops @ wal_text J ts op @ [10]"
  by (simp add: log_of_def)

lemma whole_lines_append: "whole_lines J w \<Longrightarrow> op_json_ok J op \<Longrightarrow> whole_lines J (fst (append_op J ts AppendOk op w))"
proof -
  assume "whole_lines J w" and op: "op_json_ok J op"
  then obtain ops where ops: "ws_log w = log_of J ops" "\<forall>(ts, op) \<in> set ops. op_json_ok J op" by (auto simp: whole_lines_def)
  then show ?thesis unfolding whole_lines_def
    by (intro exI [of _ "ops @ [(ts, op)]"]) (auto simp: append_op_def log_of_snoc op Let_def)
qed

lemma scan_append: "whole_lines J w \<Longrightarrow> op_json_ok J op \<Longrightarrow>
    scan J (ws_log (fst (append_op J ts AppendOk op w))) = scan J (ws_log w) @ [op]"
proof -
  assume "whole_lines J w" and op: "op_json_ok J op"
  then obtain ops where ops: "ws_log w = log_of J ops" "\<forall>(ts, op) \<in> set ops. op_json_ok J op" by (auto simp: whole_lines_def)
  have "ws_log (fst (append_op J ts AppendOk op w)) = log_of J (ops @ [(ts, op)])"
    by (simp add: append_op_def log_of_snoc ops(1) Let_def)
  then show ?thesis using scan_log_of [of ops J "[]"] scan_log_of [of "ops @ [(ts, op)]" J "[]"] ops op
    by (auto simp: scan_def)
qed

lemma whole_lines_Nil: "ws_log w = [] \<Longrightarrow> whole_lines J w"
  unfolding whole_lines_def by (rule exI [of _ "[]"]) (simp add: log_of_def)

lemma whole_lines_checkpoint: "whole_lines J w \<Longrightarrow> whole_lines J (fst (checkpoint J now io snap w))"
proof -
  have "ws_log (fst (checkpoint J now io snap w)) \<in> {[], ws_log w}"
    by (auto simp: checkpoint_def Let_def split: ckpt_io.split prod.split truncate_io.split)
  then show "whole_lines J w \<Longrightarrow> ?thesis" using whole_lines_Nil by (auto simp: whole_lines_def)
qed

lemma replace_abs:
  "snap_json_ok J snap \<Longrightarrow> replace_state rio (snap_json J snap) f = (f', r) \<Longrightarrow>
     abstract_replace (length (snap_json J snap)) rio snap (read_parsed (snap_parse J) f) = (read_parsed (snap_parse J) f', r)"
proof (cases rio)
  case (InPlace removed io)
  then show "snap_json_ok J snap \<Longrightarrow> replace_state rio (snap_json J snap) f = (f', r) \<Longrightarrow> ?thesis"
    by (cases io) (auto simp: snapshot_file.read_torn)
qed auto

lemma checkpoint_abs:
  assumes "snap_json_ok J snap"
  shows "store_abs J (fst (checkpoint J now io snap w)) = abstract_step (\<lambda>s. length (snap_json J s)) (Checkpoint now io snap) (store_abs J w)"
proof (cases io)
  case (CkptReplace rio tio)
  obtain f r where r: "replace_state rio (snap_json J snap) (ws_state w) = (f, r)" by (cases "replace_state rio (snap_json J snap) (ws_state w)")
  show ?thesis using replace_abs [OF assms r] CkptReplace r
    by (cases tio) (simp_all add: checkpoint_def store_abs_def load_state_def scan_def map_filter_simps Let_def)
qed (simp add: checkpoint_def store_abs_def)

lemma append_abs:
  "whole_lines J w \<Longrightarrow> op_json_ok J op \<Longrightarrow> store_abs J (fst (append_op J ts AppendOk op w)) = abstract_step len (Append ts op) (store_abs J w)"
proof -
  have "ws_state (fst (append_op J ts AppendOk op w)) = ws_state w" by (simp add: append_op_def Let_def)
  then show "whole_lines J w \<Longrightarrow> op_json_ok J op \<Longrightarrow> ?thesis" by (simp add: store_abs_def scan_append load_state_def)
qed

interpretation store: refinement "store_step J" "whole_lines J" "store_enabled J"
  "abstract_step (\<lambda>s. length (snap_json J s))" "store_abs J" for J
proof
  fix op w assume "store_enabled J op" "whole_lines J w"
  then show "whole_lines J (store_step J op w)" by (cases op) (simp_all add: whole_lines_append whole_lines_checkpoint)
next
  fix op w assume "store_enabled J op" "whole_lines J w"
  then show "store_abs J (store_step J op w) = abstract_step (\<lambda>s. length (snap_json J s)) op (store_abs J w)"
    by (cases op) (simp_all add: checkpoint_abs append_abs)
qed

text \<open>C18: The files implement the abstract store. After any sequence of appends and checkpoints, where a checkpoint may
  fail at every point it can, what start-up reads back (the snapshot, and the operations to replay
  on it) is what the specification says: an append adds its operation at the end, and the
  operations go away only together with a snapshot that is in place.\<close>
theorem store_refines:
  assumes "list_all (store_enabled J) ops"
    and "length (ws_log (fold (store_step J) ops (WalStore_open now [] None k))) \<le> MAX_WAL_BYTES"
  shows "(load_state J (fold (store_step J) ops (WalStore_open now [] None k)), replay J (fold (store_step J) ops (WalStore_open now [] None k)))
    = fold (abstract_step (\<lambda>s. length (snap_json J s))) ops (None, [])"
proof -
  let ?w = "WalStore_open now [] None k"
  have "whole_lines J ?w" by (rule whole_lines_Nil) (simp add: WalStore_open_def)
  from store.run_abs [OF assms(1) this] show ?thesis
    using replay_scan [OF assms(2)] by (simp add: store_abs_def load_state_def WalStore_open_def scan_def map_filter_simps)
qed

definition toy_snap :: SocialSnapshot where
  "toy_snap = \<lparr> sn_uid = ''a'', sn_friends = [], sn_channels = [] \<rparr>"

definition toy_wal_snap :: wal_json where
  "toy_wal_snap = toy_wal\<lparr> snap_json := (\<lambda>_. ''{}''), snap_parse := (\<lambda>s. if s = ''{}'' then Some toy_snap else None) \<rparr>"

lemma toy_wal_snap_ok: "op_json_ok toy_wal_snap (SetUid ''a'')" "op_json_ok toy_wal_snap (SetUid ''b'')" "snap_json_ok toy_wal_snap toy_snap"
proof -
  have "op_json_ok toy_wal_snap = op_json_ok toy_wal" by (auto simp: fun_eq_iff op_json_ok_def toy_wal_snap_def)
  then show "op_json_ok toy_wal_snap (SetUid ''a'')" "op_json_ok toy_wal_snap (SetUid ''b'')" using toy_wal_ok by simp_all
  have "str_valid ''{}''" unfolding str_valid_def by (rule utf8_valid_ascii) (simp add: str_bytes_def)
  then show "snap_json_ok toy_wal_snap toy_snap"
    by (auto simp: snap_json_ok_def toy_wal_snap_def less_Suc_eq numeral_2_eq_2)
qed

text \<open>The second checkpoint cannot rename, removes the old snapshot and stops while writing in place: the
  snapshot is lost, the operation logged since is not.\<close>
definition toy_run :: "store_op list" where
  "toy_run = [Append 1 (SetUid ''a''), Checkpoint 2 CkptOk toy_snap, Append 3 (SetUid ''b''),
     Checkpoint 4 (CkptReplace (InPlace True (WriteStops 1)) TruncOk) toy_snap]"

theorem store_refines_witness:
  "load_state toy_wal_snap (fold (store_step toy_wal_snap) toy_run (WalStore_open 0 [] None 100)) = None
    \<and> replay toy_wal_snap (fold (store_step toy_wal_snap) toy_run (WalStore_open 0 [] None 100)) = [SetUid ''b'']"
proof -
  have "list_all (store_enabled toy_wal_snap) toy_run" by (simp add: toy_run_def toy_wal_snap_ok)
  moreover have "length (ws_log (fold (store_step toy_wal_snap) toy_run (WalStore_open 0 [] None 100))) \<le> MAX_WAL_BYTES"
    by (simp add: toy_run_def append_op_def checkpoint_def toy_log toy_wal_snap_def Let_def)
  ultimately show ?thesis using store_refines [of toy_wal_snap toy_run 0 100]
    by (simp add: toy_run_def toy_wal_snap_def)
qed

end
