(* ===== verification/ConnManager.thy ===== *)
theory ConnManager
  imports Session AddressBook Storage
begin

text \<open>
  \<^verbatim>\<open>net/connection_manager.rs\<close>: the table of live connections, the key directory, the bounded outbound
  queues, and the tasks of each connection. Tasks run concurrently in the code; each of their
  atomic actions is one step of the relation \<open>net_step\<close>, in any interleaving. Instants are
  milliseconds. Locks are never poisoned here: no holder of one can panic. The order of an
  association list stands for the iteration order of the hash map. Binding the listening socket is left out.
\<close>

section \<open>Data\<close>

definition WRITER_QUEUE_CAP :: nat where "WRITER_QUEUE_CAP = 64"
definition READ_IDLE_TIMEOUT_SECS :: u64 where "READ_IDLE_TIMEOUT_SECS = 90"
definition WRITE_TIMEOUT_SECS :: u64 where "WRITE_TIMEOUT_SECS = 15"
definition MAX_CONNECTIONS :: nat where "MAX_CONNECTIONS = 256"

record PeerInfo =
  pi_uid :: uid
  pi_addresses :: "SocketAddr list"
  pi_public_key :: string
  pi_last_seen :: nat
  pi_pgp_fingerprint :: "string option"

text \<open>The sending end of a connection's queue. The queue itself belongs to the writer task of the
  connection, which the number identifies.\<close>
record PeerWriter =
  pw_conn_id :: u64

text \<open>A running writer task: its receiver's queue, and what it has put on the wire so far.\<close>
record WriterTask =
  wt_uid :: uid
  wt_send_key :: bytes
  wt_seq :: u64
  wt_rx :: "bytes list"
  wt_wire :: bytes

record ConnectionManager =
  cm_active_connections :: "(uid, PeerWriter) hmap"
  cm_known_peers :: "(uid, PeerInfo) hmap"
  cm_known_peer_keys :: "(uid, string) hmap"
  cm_listen_port :: u16

datatype send_error = NoConnection uid | QueueFull | QueueClosed

section \<open>The manager's own operations\<close>

definition ConnectionManager_new :: "u16 \<Rightarrow> ConnectionManager" where
  "ConnectionManager_new listen_port = \<lparr> cm_active_connections = [], cm_known_peers = [],
     cm_known_peer_keys = [], cm_listen_port = listen_port \<rparr>"

definition register_peer :: "nat \<Rightarrow> uid \<Rightarrow> SocketAddr \<Rightarrow> string \<Rightarrow> ConnectionManager \<Rightarrow> ConnectionManager" where
  "register_peer now u addr pk cm =
     cm\<lparr> cm_known_peers := (case hget (cm_known_peers cm) u of
          Some p \<Rightarrow> hput u (p\<lparr> pi_addresses := (if addr \<in> set (pi_addresses p) then pi_addresses p else pi_addresses p @ [addr]),
            pi_last_seen := now, pi_public_key := pk \<rparr>) (cm_known_peers cm)
        | None \<Rightarrow> hput u \<lparr> pi_uid = u, pi_addresses = [addr], pi_public_key = pk, pi_last_seen = now,
            pi_pgp_fingerprint = None \<rparr> (cm_known_peers cm)),
        cm_known_peer_keys := hput u pk (cm_known_peer_keys cm) \<rparr>"

definition is_connected :: "ConnectionManager \<Rightarrow> uid \<Rightarrow> bool" where
  "is_connected cm u = has_key (cm_active_connections cm) u"

definition peer_addresses :: "ConnectionManager \<Rightarrow> uid \<Rightarrow> SocketAddr list" where
  "peer_addresses cm u = (case hget (cm_known_peers cm) u of None \<Rightarrow> [] | Some p \<Rightarrow> pi_addresses p)"

definition connected_count :: "ConnectionManager \<Rightarrow> nat" where
  "connected_count cm = length (cm_active_connections cm)"

text \<open>\<^verbatim>\<open>tx.try_send\<close> on the bounded queue of one connection; a finished writer has dropped its receiver.\<close>
definition try_send :: "u64 \<Rightarrow> bytes \<Rightarrow> (u64, WriterTask) hmap \<Rightarrow> (u64, WriterTask) hmap \<times> (send_error + unit)" where
  "try_send cid payload ws = (case hget ws cid of
     None \<Rightarrow> (ws, Inl QueueClosed)
   | Some t \<Rightarrow> if length (wt_rx t) \<ge> WRITER_QUEUE_CAP then (ws, Inl QueueFull)
       else (hput cid (t\<lparr> wt_rx := wt_rx t @ [payload] \<rparr>) ws, Inr ()))"

definition send_to :: "json \<Rightarrow> uid \<Rightarrow> PeerMessage \<Rightarrow> ConnectionManager \<Rightarrow> (u64, WriterTask) hmap
    \<Rightarrow> (u64, WriterTask) hmap \<times> (send_error + unit)" where
  "send_to J u msg cm ws =
     (let payload = str_bytes (to_json J msg) in
      case hget (cm_active_connections cm) u of
        None \<Rightarrow> (ws, Inl (NoConnection u))
      | Some writer \<Rightarrow> try_send (pw_conn_id writer) payload ws)"

fun broadcast_loop :: "(uid, PeerWriter) hmap \<Rightarrow> bytes \<Rightarrow> uid list \<Rightarrow> (u64, WriterTask) hmap \<Rightarrow> (u64, WriterTask) hmap" where
  "broadcast_loop conns payload [] ws = ws"
| "broadcast_loop conns payload (u # us) ws = broadcast_loop conns payload us
     (case hget conns u of None \<Rightarrow> ws | Some writer \<Rightarrow> fst (try_send (pw_conn_id writer) payload ws))"

definition broadcast_to :: "json \<Rightarrow> uid list \<Rightarrow> PeerMessage \<Rightarrow> ConnectionManager \<Rightarrow> (u64, WriterTask) hmap
    \<Rightarrow> (u64, WriterTask) hmap" where
  "broadcast_to J uids msg cm ws = broadcast_loop (cm_active_connections cm) (str_bytes (to_json J msg)) uids ws"

definition remove_connection :: "uid \<Rightarrow> u64 \<Rightarrow> ConnectionManager \<Rightarrow> ConnectionManager" where
  "remove_connection u conn_id cm =
     (if (case hget (cm_active_connections cm) u of None \<Rightarrow> False | Some w \<Rightarrow> pw_conn_id w = conn_id)
      then cm\<lparr> cm_active_connections := hdel u (cm_active_connections cm) \<rparr> else cm)"

section \<open>Addresses as text\<close>

fun hex_nat :: "nat \<Rightarrow> string" where
  "hex_nat n = (if n < 16 then [hex_digit n] else hex_nat (n div 16) @ [hex_digit (n mod 16)])"

declare hex_nat.simps [simp del]

fun join_with :: "string \<Rightarrow> string list \<Rightarrow> string" where
  "join_with sep [] = []"
| "join_with sep [s] = s"
| "join_with sep (s # t # ss) = s @ sep @ join_with sep (t # ss)"

definition ipv4_text :: "bytes \<Rightarrow> string" where
  "ipv4_text octets = join_with ''.'' (map (\<lambda>b. show_nat (unat b)) octets)"

fun segments :: "bytes \<Rightarrow> nat list" where
  "segments (a # b # bs) = (unat a * 256 + unat b) # segments bs"
| "segments _ = []"

text \<open>The first longest run of zero segments: its start and length (\<^verbatim>\<open>Ipv6Addr::fmt\<close>).\<close>
fun zero_runs :: "nat \<Rightarrow> nat list \<Rightarrow> nat \<times> nat \<Rightarrow> nat \<times> nat \<Rightarrow> nat \<times> nat" where
  "zero_runs i [] current longest = longest"
| "zero_runs i (s # ss) current longest =
     (if s = 0
      then let cur = (if snd current = 0 then i else fst current, snd current + 1) in
        zero_runs (i + 1) ss cur (if snd cur > snd longest then cur else longest)
      else zero_runs (i + 1) ss (0, 0) longest)"

definition ipv6_text :: "bytes \<Rightarrow> string" where
  "ipv6_text octets =
     (if take 12 octets = replicate 10 0 @ [0xFF, 0xFF] then ''::ffff:'' @ ipv4_text (drop 12 octets)
      else let segs = segments octets; (start, len) = zero_runs 0 segs (0, 0) (0, 0) in
        if len > 1 then join_with '':'' (map hex_nat (take start segs)) @ ''::''
          @ join_with '':'' (map hex_nat (drop (start + len) segs))
        else join_with '':'' (map hex_nat segs))"

fun addr_text :: "SocketAddr \<Rightarrow> string" where
  "addr_text (V4 octets port) = ipv4_text octets @ '':'' @ show_nat (unat port)"
| "addr_text (V6 octets port flowinfo scope_id) =
     (if scope_id = 0 then ''['' @ ipv6_text octets @ '']:'' @ show_nat (unat port)
      else ''['' @ ipv6_text octets @ ''%'' @ show_nat (unat scope_id) @ '']:'' @ show_nat (unat port))"

text \<open>\<^verbatim>\<open>{:?}\<close> of a vector of addresses.\<close>
definition addrs_text :: "SocketAddr list \<Rightarrow> string" where
  "addrs_text addrs = ''['' @ join_with '', '' (map addr_text addrs) @ '']''"

text \<open>\<^verbatim>\<open>Instant::duration_since\<close> saturates at zero, as does subtraction here.\<close>
definition debug_lines :: "nat \<Rightarrow> ConnectionManager \<Rightarrow> string list" where
  "debug_lines now cm =
     [''=== Connection Manager ==='',
      ''Listen port: '' @ show_nat (unat (cm_listen_port cm)),
      ''Active connections: '' @ show_nat (length (cm_active_connections cm)) @ '' | Known peers: ''
        @ show_nat (length (cm_known_peers cm))]
     @ (if cm_active_connections cm \<noteq> []
        then ''  Connected to:'' # map (\<lambda>u. ''    '' @ u) (hkeys (cm_active_connections cm)) else [])
     @ (if cm_known_peers cm \<noteq> []
        then ''  Known peers:'' # map (\<lambda>(u, info). ''    '' @ u @ '' (last seen: ''
          @ show_nat ((now - pi_last_seen info) div 1000) @ ''s ago, addrs: '' @ addrs_text (pi_addresses info) @ '')'')
            (cm_known_peers cm) else [])"

definition debug_info :: "nat \<Rightarrow> ConnectionManager \<Rightarrow> string" where
  "debug_info now cm = join_with [CHR 0x0A] (debug_lines now cm)"

text \<open>A peer that was just registered is listed with the address it was registered under.\<close>
lemma debug_info_registered:
  "\<exists>addrs. addr \<in> set addrs \<and> ''    '' @ u @ '' (last seen: 0s ago, addrs: '' @ addrs_text addrs @ '')''
    \<in> set (debug_lines now (register_peer now u addr pk cm))"
proof -
  obtain info where info: "hget (cm_known_peers (register_peer now u addr pk cm)) u = Some info"
    "addr \<in> set (pi_addresses info)" "pi_last_seen info = now"
    by (cases "hget (cm_known_peers cm) u") (auto simp: register_peer_def)
  have "(u, info) \<in> set (cm_known_peers (register_peer now u addr pk cm))"
    using info(1) by (rule hget_in_set)
  moreover have "show_nat 0 = ''0''" by (simp add: show_nat.simps char_of_def bit_0)
  ultimately show ?thesis using info(2,3)
    by (intro exI [of _ "pi_addresses info"]) (force simp: debug_lines_def)
qed

section \<open>The reader task\<close>

fun allowed_unauthenticated :: "PeerMessage \<Rightarrow> bool" where
  "allowed_unauthenticated (Ping _) = True"
| "allowed_unauthenticated (Pong _) = True"
| "allowed_unauthenticated _ = False"

fun extract_uid :: "PeerMessage \<Rightarrow> SocketAddr \<Rightarrow> uid" where
  "extract_uid (FriendRequest u _) addr = u"
| "extract_uid (FriendAccept u) addr = u"
| "extract_uid (ChannelMessage _ u _) addr = u"
| "extract_uid (DcRoundShare _ _ u _ _) addr = u"
| "extract_uid (NetworkInvite u _ _ _) addr = u"
| "extract_uid (NetworkJoinRequest u _ _ _) addr = u"
| "extract_uid (NetworkJoinAccept u _ _ _) addr = u"
| "extract_uid (NetworkKick u _ _ _ _) addr = u"
| "extract_uid (NetworkSync u _ _ _ _ _) addr = u"
| "extract_uid (AuthChallenge u _ _ _ _) addr = u"
| "extract_uid (AuthResponse u _ _ _) addr = u"
| "extract_uid (RelayRequest u _ _ _ _ _ _ _) addr = u"
| "extract_uid (RelayResponse u _ _ _ _ _ _ _) addr = u"
| "extract_uid (DcRoundStart _ _ u _ _ _) addr = u"
| "extract_uid (LeaderChange _ u _ _) addr = u"
| "extract_uid (RoundSyncRequest u _) addr = u"
| "extract_uid (RoundSyncResponse u _ _ _ _) addr = u"
| "extract_uid (DcRoundMsg _ _ _) addr = ''peer@'' @ addr_text addr"
| "extract_uid (DcRoundResult _ _ _ _) addr = ''peer@'' @ addr_text addr"
| "extract_uid (Ping _) addr = ''peer@'' @ addr_text addr"
| "extract_uid (Pong _) addr = ''peer@'' @ addr_text addr"

fun is_relay :: "PeerMessage \<Rightarrow> bool" where
  "is_relay (RelayRequest _ _ _ _ _ _ _ _) = True"
| "is_relay (RelayResponse _ _ _ _ _ _ _ _) = True"
| "is_relay _ = False"

record ReaderCtx =
  rx_addr :: SocketAddr
  rx_recv_key :: bytes
  rx_peer_uid :: uid
  rx_peer_authenticated :: bool
  rx_conn_id :: u64

text \<open>What the reader forwards of one decrypted payload, if anything.\<close>
definition reader_accepts :: "json \<Rightarrow> ReaderCtx \<Rightarrow> bytes \<Rightarrow> PeerMessage option" where
  "reader_accepts J ctx payload = (case from_utf8 payload of
     None \<Rightarrow> None
   | Some s \<Rightarrow> (case from_json J s of
       None \<Rightarrow> None
     | Some msg \<Rightarrow>
         (let claimed_uid = extract_uid msg (rx_addr ctx) in
          if \<not> validate_uid claimed_uid then None
          else if \<not> rx_peer_authenticated ctx \<and> \<not> allowed_unauthenticated msg then None
          else let is_anonymous = starts_with claimed_uid ''peer@'' in
            if \<not> is_anonymous \<and> \<not> is_relay msg \<and> claimed_uid \<noteq> rx_peer_uid ctx then None
            else Some msg)))"

text \<open>\<^verbatim>\<open>incoming_tx.try_send\<close> into the bounded queue of the application; a full queue drops the message.\<close>
definition INCOMING_CHANNEL_CAP :: nat where "INCOMING_CHANNEL_CAP = 1024"

definition push_incoming :: "uid \<times> PeerMessage \<Rightarrow> (uid \<times> PeerMessage) list \<Rightarrow> (uid \<times> PeerMessage) list" where
  "push_incoming x q = (if length q \<ge> INCOMING_CHANNEL_CAP then q else q @ [x])"

text \<open>The body of the reader's loop once a frame has been opened.\<close>
definition reader_frame :: "json \<Rightarrow> ReaderCtx \<Rightarrow> bytes \<Rightarrow> (uid \<times> PeerMessage) list \<Rightarrow> (uid \<times> PeerMessage) list" where
  "reader_frame J ctx payload incoming = (case reader_accepts J ctx payload of
     None \<Rightarrow> incoming
   | Some msg \<Rightarrow> push_incoming (rx_peer_uid ctx, msg) incoming)"

lemma recv_secure_frame_shrinks: "recv_secure_frame P stream key l = Inr (p, rest, s) \<Longrightarrow> length rest < length stream"
  by (auto simp: recv_secure_frame_def read_exact_Inr Let_def split: sum.splits option.splits if_splits prod.splits)

text \<open>The loop of \<^verbatim>\<open>connection_reader\<close> over the bytes the peer sends; it ends at the first read error
  (end of stream and idle time-out included). The result is the application's queue.\<close>
function connection_reader :: "prims \<Rightarrow> json \<Rightarrow> ReaderCtx \<Rightarrow> bytes \<Rightarrow> u64 \<Rightarrow> (uid \<times> PeerMessage) list
    \<Rightarrow> (uid \<times> PeerMessage) list" where
  "connection_reader P J ctx stream last_seq incoming = (case recv_secure_frame P stream (rx_recv_key ctx) last_seq of
     Inl _ \<Rightarrow> incoming
   | Inr (payload, rest, seq) \<Rightarrow> connection_reader P J ctx rest seq (reader_frame J ctx payload incoming))"
  by pat_completeness auto
termination
  by (relation "measure (\<lambda>(P, J, ctx, stream, l, q). length stream)") (auto simp: recv_secure_frame_shrinks)

declare connection_reader.simps [simp del]

text \<open>The loop of \<^verbatim>\<open>connection_writer\<close> over the payloads in its queue, with one nonce per frame; it ends at
  the first failed encryption. The result is what reaches the wire.\<close>
fun connection_writer :: "prims \<Rightarrow> bytes \<Rightarrow> (bytes \<times> bytes) list \<Rightarrow> u64 \<Rightarrow> bytes \<Rightarrow> bytes" where
  "connection_writer P key [] seq wire = wire"
| "connection_writer P key ((nonce, payload) # ps) seq wire = (case send_secure_frame P nonce wire payload key seq of
     (_, Inl _) \<Rightarrow> wire
   | (seq', Inr wire') \<Rightarrow> connection_writer P key ps seq' wire')"

section \<open>Identity binding\<close>

text \<open>What a forwarded message may be, under a session.\<close>
definition forwarded_ok :: "ReaderCtx \<Rightarrow> PeerMessage \<Rightarrow> bool" where
  "forwarded_ok ctx msg \<longleftrightarrow> validate_uid (extract_uid msg (rx_addr ctx))
     \<and> (rx_peer_authenticated ctx \<or> allowed_unauthenticated msg)
     \<and> (extract_uid msg (rx_addr ctx) = rx_peer_uid ctx \<or> is_relay msg \<or> starts_with (extract_uid msg (rx_addr ctx)) ''peer@'')"

lemma reader_accepts_ok: "reader_accepts J ctx payload = Some msg \<Longrightarrow> forwarded_ok ctx msg"
  by (auto simp: reader_accepts_def forwarded_ok_def Let_def split: option.splits if_splits)

lemma reader_frame_adds: "\<exists>one. reader_frame J ctx payload incoming = incoming @ one
    \<and> (\<forall>(u, msg) \<in> set one. u = rx_peer_uid ctx \<and> forwarded_ok ctx msg)
    \<and> length one \<le> INCOMING_CHANNEL_CAP - length incoming"
  by (auto simp: reader_frame_def push_incoming_def split: option.split dest: reader_accepts_ok)



section \<open>The tasks and their interleavings\<close>

text \<open>The shared state, the accepted connections still in their handshake (with the identity the
  listener presents), the running tasks by connection number, the inbound connections that hold a
  \<^verbatim>\<open>ConnectionGuard\<close>, and the application's inbound queue.\<close>
record Net =
  nt_cm :: ConnectionManager
  nt_next_conn_id :: u64
  nt_conn_count :: nat
  nt_pending :: "(SocketAddr \<times> SessionAuth) list"
  nt_guards :: "u64 list"
  nt_readers :: "(u64, ReaderCtx \<times> u64) hmap"
  nt_writers :: "(u64, WriterTask) hmap"
  nt_incoming :: "(uid \<times> PeerMessage) list"

definition net_new :: "u16 \<Rightarrow> Net" where
  "net_new port = \<lparr> nt_cm = ConnectionManager_new port, nt_next_conn_id = 1, nt_conn_count = 0, nt_pending = [],
     nt_guards = [], nt_readers = [], nt_writers = [], nt_incoming = [] \<rparr>"

text \<open>One turn of the accept loop.\<close>
definition accept_connection :: "SocketAddr \<Rightarrow> SessionAuth \<Rightarrow> Net \<Rightarrow> Net" where
  "accept_connection addr auth s =
     (let slots = nt_conn_count s; s1 = s\<lparr> nt_conn_count := slots + 1 \<rparr> in
      if slots \<ge> MAX_CONNECTIONS then s1\<lparr> nt_conn_count := nt_conn_count s1 - 1 \<rparr>
      else s1\<lparr> nt_pending := nt_pending s @ [(addr, auth)] \<rparr>)"

text \<open>\<^verbatim>\<open>ConnectionGuard::drop\<close>.\<close>
definition guard_drop :: "Net \<Rightarrow> Net" where
  "guard_drop s = s\<lparr> nt_conn_count := nt_conn_count s - 1 \<rparr>"

definition drop_nth :: "nat \<Rightarrow> 'a list \<Rightarrow> 'a list" where
  "drop_nth i xs = take i xs @ drop (Suc i) xs"

text \<open>The handshake of the \<open>i\<close>-th pending connection failed or timed out.\<close>
definition abandon_inbound :: "nat \<Rightarrow> Net \<Rightarrow> Net" where
  "abandon_inbound i s = guard_drop (s\<lparr> nt_pending := drop_nth i (nt_pending s) \<rparr>)"

text \<open>\<^verbatim>\<open>keys.entry(..).or_insert_with(..)\<close> for an authenticated session.\<close>
definition pin_identity :: "SessionKeys \<Rightarrow> (uid, string) hmap \<Rightarrow> (uid, string) hmap" where
  "pin_identity K keys =
     (if sk_peer_authenticated K
      then case hget keys (sk_peer_uid K) of
          Some _ \<Rightarrow> keys
        | None \<Rightarrow> hput (sk_peer_uid K) (sk_peer_public_hex K) keys
      else keys)"

text \<open>\<^verbatim>\<open>PeerWriter::new\<close>: the counter wraps at its width.\<close>
definition PeerWriter_new :: "Net \<Rightarrow> Net \<times> PeerWriter" where
  "PeerWriter_new s = (s\<lparr> nt_next_conn_id := nt_next_conn_id s + 1 \<rparr>, \<lparr> pw_conn_id = nt_next_conn_id s \<rparr>)"

text \<open>What both sides do with a finished handshake: pin, register the new writer under the peer's uid,
  start both tasks.\<close>
definition establish :: "SocketAddr \<Rightarrow> SessionKeys \<Rightarrow> Net \<Rightarrow> Net \<times> u64" where
  "establish addr K s0 =
     (let cm = nt_cm s0;
          s1 = s0\<lparr> nt_cm := cm\<lparr> cm_known_peer_keys := pin_identity K (cm_known_peer_keys cm) \<rparr> \<rparr>;
          (s2, writer) = PeerWriter_new s1;
          conn_id = pw_conn_id writer;
          cm2 = nt_cm s2;
          s3 = s2\<lparr> nt_cm := cm2\<lparr> cm_active_connections := hput (sk_peer_uid K) writer (cm_active_connections cm2) \<rparr> \<rparr>
      in (s3\<lparr> nt_readers := hput conn_id
              (\<lparr> rx_addr = addr, rx_recv_key = sk_recv_key K, rx_peer_uid = sk_peer_uid K,
                 rx_peer_authenticated = sk_peer_authenticated K, rx_conn_id = conn_id \<rparr>, 0) (nt_readers s3),
            nt_writers := hput conn_id
              \<lparr> wt_uid = sk_peer_uid K, wt_send_key = sk_send_key K, wt_seq = 0, wt_rx = [], wt_wire = [] \<rparr>
              (nt_writers s3) \<rparr>, conn_id))"

definition finish_inbound :: "nat \<Rightarrow> SessionKeys \<Rightarrow> Net \<Rightarrow> Net" where
  "finish_inbound i K s =
     (let (s', conn_id) = establish (fst (nt_pending s ! i)) K s
      in s'\<lparr> nt_pending := drop_nth i (nt_pending s), nt_guards := conn_id # nt_guards s \<rparr>)"

datatype connect_error = HandshakeFailed io_error | HandshakeTimedOut | WrongPeer uid

text \<open>\<^verbatim>\<open>connect_to_peer\<close> over an open stream: the handshake's outcome (\<open>None\<close> is its time-out), then the same
  tail as the listener. Outbound connections take no slot.\<close>
definition connect_to_peer :: "prims \<Rightarrow> json \<Rightarrow> bytes \<Rightarrow> bytes \<Rightarrow> uid \<Rightarrow> SocketAddr \<Rightarrow> SessionAuth \<Rightarrow> bytes option
    \<Rightarrow> Net \<Rightarrow> Net \<times> (connect_error + unit)" where
  "connect_to_peer P J eph nonce u addr auth input s = (case input of
     None \<Rightarrow> (s, Inl HandshakeTimedOut)
   | Some bs \<Rightarrow>
      (case snd (outbound_handshake P J eph nonce auth (Some (cm_known_peer_keys (nt_cm s))) bs) of
         Inl e \<Rightarrow> (s, Inl (HandshakeFailed e))
       | Inr (K, rest) \<Rightarrow>
           if sk_peer_uid K \<noteq> u then (s, Inl (WrongPeer (sk_peer_uid K)))
           else (fst (establish addr K s), Inr ())))"

text \<open>A task ends: it cleans the table up, then its half (for the writer, its receiver) is dropped.\<close>
definition reader_ends :: "u64 \<Rightarrow> Net \<Rightarrow> Net" where
  "reader_ends cid s = (case hget (nt_readers s) cid of
     None \<Rightarrow> s
   | Some (ctx, _) \<Rightarrow> s\<lparr> nt_cm := remove_connection (rx_peer_uid ctx) (rx_conn_id ctx) (nt_cm s),
       nt_readers := hdel cid (nt_readers s) \<rparr>)"

definition writer_ends :: "u64 \<Rightarrow> Net \<Rightarrow> Net" where
  "writer_ends cid s = (case hget (nt_writers s) cid of
     None \<Rightarrow> s
   | Some t \<Rightarrow> s\<lparr> nt_cm := remove_connection (wt_uid t) cid (nt_cm s), nt_writers := hdel cid (nt_writers s) \<rparr>)"

text \<open>One turn of the writer's loop on a payload it has taken.\<close>
definition writer_turn :: "prims \<Rightarrow> bytes \<Rightarrow> u64 \<Rightarrow> Net \<Rightarrow> Net" where
  "writer_turn P nonce cid s = (case hget (nt_writers s) cid of
     None \<Rightarrow> s
   | Some t \<Rightarrow> (case wt_rx t of
       [] \<Rightarrow> s
     | payload # q \<Rightarrow> (case send_secure_frame P nonce (wt_wire t) payload (wt_send_key t) (wt_seq t) of
         (seq, Inl _) \<Rightarrow> writer_ends cid s
       | (seq, Inr wire) \<Rightarrow> s\<lparr> nt_writers := hput cid (t\<lparr> wt_rx := q, wt_seq := seq, wt_wire := wire \<rparr>) (nt_writers s) \<rparr>)))"

text \<open>One turn of the reader's loop on the bytes that have arrived.\<close>
definition reader_turn :: "prims \<Rightarrow> json \<Rightarrow> bytes \<Rightarrow> u64 \<Rightarrow> Net \<Rightarrow> Net" where
  "reader_turn P J stream cid s = (case hget (nt_readers s) cid of
     None \<Rightarrow> s
   | Some (ctx, last_seq) \<Rightarrow> (case recv_secure_frame P stream (rx_recv_key ctx) last_seq of
       Inl _ \<Rightarrow> reader_ends cid s
     | Inr (payload, rest, seq) \<Rightarrow> s\<lparr> nt_readers := hput cid (ctx, seq) (nt_readers s),
         nt_incoming := reader_frame J ctx payload (nt_incoming s) \<rparr>))"

text \<open>No sender of the connection's queue is left in the table, so \<^verbatim>\<open>rx.recv()\<close> on an empty queue
  returns \<^verbatim>\<open>None\<close>.\<close>
definition sender_gone :: "u64 \<Rightarrow> Net \<Rightarrow> bool" where
  "sender_gone cid s \<longleftrightarrow> (let conns = cm_active_connections (nt_cm s) in
     \<forall>u \<in> set (hkeys conns). map_option pw_conn_id (hget conns u) \<noteq> Some cid)"

text \<open>\<^verbatim>\<open>tokio::join!\<close> of the two halves is over and the guard is dropped.\<close>
definition release_guard :: "u64 \<Rightarrow> Net \<Rightarrow> Net" where
  "release_guard cid s = guard_drop (s\<lparr> nt_guards := remove1 cid (nt_guards s) \<rparr>)"

text \<open>The steps of the network side, in any order: the listener, handshakes that finish or fail, the
  application's calls, the turns of the tasks, and their ends (a read or write error or time-out can
  come at any moment).\<close>
inductive net_step :: "prims \<Rightarrow> json \<Rightarrow> Net \<Rightarrow> Net \<Rightarrow> bool" for P :: prims and J :: json where
  accept: "net_step P J s (accept_connection addr auth s)"
| abandon: "i < length (nt_pending s) \<Longrightarrow> net_step P J s (abandon_inbound i s)"
| inbound: "i < length (nt_pending s) \<Longrightarrow>
    inbound_handshake P J eph (snd (nt_pending s ! i)) (Some (cm_known_peer_keys (nt_cm s))) input = (out, Inr (K, rest)) \<Longrightarrow>
    net_step P J s (finish_inbound i K s)"
| outbound: "net_step P J s (fst (connect_to_peer P J eph nonce u addr auth input s))"
| register: "net_step P J s (s\<lparr> nt_cm := register_peer now u addr pk (nt_cm s) \<rparr>)"
| send: "net_step P J s (s\<lparr> nt_writers := fst (send_to J u msg (nt_cm s) (nt_writers s)) \<rparr>)"
| broadcast: "net_step P J s (s\<lparr> nt_writers := broadcast_to J us msg (nt_cm s) (nt_writers s) \<rparr>)"
| writes: "net_step P J s (writer_turn P nonce cid s)"
| write_timeout: "hget (nt_writers s) cid = Some t \<Longrightarrow> wt_rx t \<noteq> [] \<Longrightarrow> net_step P J s (writer_ends cid s)"
| drained: "hget (nt_writers s) cid = Some t \<Longrightarrow> wt_rx t = [] \<Longrightarrow> sender_gone cid s \<Longrightarrow> net_step P J s (writer_ends cid s)"
| reads: "net_step P J s (reader_turn P J stream cid s)"
| read_timeout: "net_step P J s (reader_ends cid s)"
| joined: "cid \<in> set (nt_guards s) \<Longrightarrow> \<not> has_key (nt_readers s) cid \<Longrightarrow> \<not> has_key (nt_writers s) cid \<Longrightarrow>
    net_step P J s (release_guard cid s)"
| take_incoming: "nt_incoming s = m # ms \<Longrightarrow> net_step P J s (s\<lparr> nt_incoming := ms \<rparr>)"

text \<open>What can be reached from an empty manager in so many steps.\<close>
inductive net_reach :: "prims \<Rightarrow> json \<Rightarrow> u16 \<Rightarrow> nat \<Rightarrow> Net \<Rightarrow> bool" for P :: prims and J :: json and port :: u16 where
  start: "net_reach P J port 0 (net_new port)"
| step: "net_reach P J port n s \<Longrightarrow> net_step P J s s' \<Longrightarrow> net_reach P J port (Suc n) s'"

section \<open>The invariant of the tables\<close>

text \<open>Whom the tasks of a connection serve.\<close>
definition reader_uid :: "Net \<Rightarrow> u64 \<Rightarrow> uid option" where
  "reader_uid s cid = map_option (rx_peer_uid \<circ> fst) (hget (nt_readers s) cid)"

definition writer_uid :: "Net \<Rightarrow> u64 \<Rightarrow> uid option" where
  "writer_uid s cid = map_option wt_uid (hget (nt_writers s) cid)"

text \<open>Every entry of the table belongs to a connection whose two tasks both run, for that peer.\<close>
definition table_ok :: "Net \<Rightarrow> bool" where
  "table_ok s \<longleftrightarrow> (\<forall>u w. hget (cm_active_connections (nt_cm s)) u = Some w \<longrightarrow>
     reader_uid s (pw_conn_id w) = Some u \<and> writer_uid s (pw_conn_id w) = Some u)"

definition slots_ok :: "Net \<Rightarrow> bool" where
  "slots_ok s \<longleftrightarrow> nt_conn_count s = length (nt_pending s) + length (nt_guards s) \<and> nt_conn_count s \<le> MAX_CONNECTIONS"

definition queues_ok :: "Net \<Rightarrow> bool" where
  "queues_ok s \<longleftrightarrow> (\<forall>cid t. hget (nt_writers s) cid = Some t \<longrightarrow> length (wt_rx t) \<le> WRITER_QUEUE_CAP)
     \<and> length (nt_incoming s) \<le> INCOMING_CHANNEL_CAP"

text \<open>The numbers in use are below the counter.\<close>
definition ids_ok :: "Net \<Rightarrow> bool" where
  "ids_ok s \<longleftrightarrow> (\<forall>cid. has_key (nt_readers s) cid \<or> has_key (nt_writers s) cid \<or> cid \<in> set (nt_guards s) \<longrightarrow>
       cid < nt_next_conn_id s)
     \<and> (\<forall>cid ctx l. hget (nt_readers s) cid = Some (ctx, l) \<longrightarrow> rx_conn_id ctx = cid) \<and> distinct (nt_guards s)"

definition net_inv :: "Net \<Rightarrow> bool" where
  "net_inv s \<longleftrightarrow> table_ok s \<and> slots_ok s \<and> queues_ok s \<and> ids_ok s"

lemmas net_inv_defs = net_inv_def table_ok_def slots_ok_def queues_ok_def ids_ok_def reader_uid_def writer_uid_def has_key_def

lemma net_inv_new: "net_inv (net_new port)"
  by (simp add: net_inv_defs net_new_def ConnectionManager_new_def)

lemma length_drop_nth: "i < length xs \<Longrightarrow> length (drop_nth i xs) = length xs - 1"
  by (simp add: drop_nth_def)

lemma net_inv_accept: "net_inv s \<Longrightarrow> net_inv (accept_connection addr auth s)"
  by (simp add: net_inv_defs accept_connection_def Let_def)

lemma net_inv_abandon: "net_inv s \<Longrightarrow> i < length (nt_pending s) \<Longrightarrow> net_inv (abandon_inbound i s)"
  by (auto simp: net_inv_defs abandon_inbound_def guard_drop_def length_drop_nth)

lemma net_inv_release: "net_inv s \<Longrightarrow> cid \<in> set (nt_guards s) \<Longrightarrow> net_inv (release_guard cid s)"
  using length_pos_if_in_set [of cid "nt_guards s"] unfolding release_guard_def guard_drop_def
  by (auto simp: net_inv_def table_ok_def slots_ok_def queues_ok_def ids_ok_def reader_uid_def writer_uid_def length_remove1
      simp flip: add_diff_assoc simp del: length_greater_0_conv dest: notin_set_remove1)

lemma net_inv_register: "net_inv s \<Longrightarrow> net_inv (s\<lparr> nt_cm := register_peer now u addr pk (nt_cm s) \<rparr>)"
  by (simp add: net_inv_defs register_peer_def)

text \<open>Queueing changes nothing but the contents of the queues, within their bound.\<close>
definition writers_le :: "(u64, WriterTask) hmap \<Rightarrow> (u64, WriterTask) hmap \<Rightarrow> bool" where
  "writers_le ws ws' \<longleftrightarrow> (\<forall>cid. map_option wt_uid (hget ws' cid) = map_option wt_uid (hget ws cid))
     \<and> ((\<forall>cid t. hget ws cid = Some t \<longrightarrow> length (wt_rx t) \<le> WRITER_QUEUE_CAP) \<longrightarrow>
        (\<forall>cid t. hget ws' cid = Some t \<longrightarrow> length (wt_rx t) \<le> WRITER_QUEUE_CAP))"

lemma writers_le_refl: "writers_le ws ws"
  by (simp add: writers_le_def)

lemma writers_le_trans: "writers_le a b \<Longrightarrow> writers_le b c \<Longrightarrow> writers_le a c"
  unfolding writers_le_def by metis

lemma writers_le_try_send: "writers_le ws (fst (try_send cid payload ws))"
  by (cases "hget ws cid") (simp_all add: writers_le_def try_send_def)

lemma writers_le_send_to: "writers_le ws (fst (send_to J u msg cm ws))"
  by (auto simp: send_to_def Let_def writers_le_refl writers_le_try_send split: option.split)

lemma writers_le_broadcast: "writers_le ws (broadcast_to J us msg cm ws)"
proof -
  have "writers_le ws (broadcast_loop conns payload us ws)" for conns payload
    by (induction us arbitrary: ws)
      (auto simp: writers_le_refl intro: writers_le_trans writers_le_try_send split: option.split)
  then show ?thesis by (simp add: broadcast_to_def)
qed

lemma net_inv_writers:
  assumes inv: "net_inv s" and le: "writers_le (nt_writers s) ws"
  shows "net_inv (s\<lparr> nt_writers := ws \<rparr>)"
proof -
  have uid: "map_option wt_uid (hget ws cid) = map_option wt_uid (hget (nt_writers s) cid)" for cid
    using le by (simp add: writers_le_def)
  have key: "has_key ws cid = has_key (nt_writers s) cid" for cid
    using uid [of cid] by (cases "hget ws cid"; cases "hget (nt_writers s) cid") (simp_all add: has_key_def)
  let ?s = "s\<lparr> nt_writers := ws \<rparr>"
  have "table_ok ?s" using inv by (simp add: net_inv_def table_ok_def writer_uid_def reader_uid_def uid)
  moreover have "slots_ok ?s" using inv by (simp add: net_inv_def slots_ok_def)
  moreover have "queues_ok ?s" using inv le by (simp add: net_inv_def queues_ok_def writers_le_def)
  moreover have "ids_ok ?s" using inv by (simp add: net_inv_def ids_ok_def key)
  ultimately show ?thesis by (simp add: net_inv_def)
qed

lemma active_remove: "hget (cm_active_connections (remove_connection u cid cm)) u' = Some w \<longleftrightarrow>
    hget (cm_active_connections cm) u' = Some w \<and> \<not> (u' = u \<and> pw_conn_id w = cid)"
  by (auto simp: remove_connection_def split: option.splits)

text \<open>A task that cleans up after itself may go: its entry, if it still has one, goes with it.\<close>
lemma table_ok_cleanup:
  assumes ok: "table_ok s" and served: "reader_uid s cid = Some v \<or> writer_uid s cid = Some v"
    and cm: "nt_cm s' = remove_connection v cid (nt_cm s)"
    and tasks: "\<And>c. c \<noteq> cid \<Longrightarrow> reader_uid s' c = reader_uid s c \<and> writer_uid s' c = writer_uid s c"
  shows "table_ok s'"
  unfolding table_ok_def
proof (intro allI impI)
  fix u w assume "hget (cm_active_connections (nt_cm s')) u = Some w"
  then have w: "hget (cm_active_connections (nt_cm s)) u = Some w" "\<not> (u = v \<and> pw_conn_id w = cid)"
    by (simp_all add: cm active_remove)
  have old: "reader_uid s (pw_conn_id w) = Some u" "writer_uid s (pw_conn_id w) = Some u"
    using ok w(1) by (auto simp: table_ok_def)
  then have "pw_conn_id w \<noteq> cid" using served w(2) by auto
  then show "reader_uid s' (pw_conn_id w) = Some u \<and> writer_uid s' (pw_conn_id w) = Some u" using tasks old by simp
qed

lemma net_inv_reader_ends:
  assumes inv: "net_inv s"
  shows "net_inv (reader_ends cid s)"
proof (cases "hget (nt_readers s) cid")
  case (Some r)
  obtain ctx l where r: "r = (ctx, l)" by (cases r)
  have id: "rx_conn_id ctx = cid" using inv Some r by (auto simp: net_inv_def ids_ok_def)
  let ?s = "reader_ends cid s"
  have s: "?s = s\<lparr> nt_cm := remove_connection (rx_peer_uid ctx) cid (nt_cm s), nt_readers := hdel cid (nt_readers s) \<rparr>"
    using Some r id by (simp add: reader_ends_def)
  have "table_ok ?s"
    by (rule table_ok_cleanup [of s cid "rx_peer_uid ctx"])
      (use inv Some r in \<open>simp_all add: s net_inv_def reader_uid_def writer_uid_def\<close>)
  moreover have "slots_ok ?s" "queues_ok ?s" "ids_ok ?s"
    using inv by (simp_all add: s net_inv_def slots_ok_def queues_ok_def ids_ok_def)
  ultimately show ?thesis by (simp add: net_inv_def)
qed (simp add: inv reader_ends_def)

lemma net_inv_writer_ends:
  assumes inv: "net_inv s"
  shows "net_inv (writer_ends cid s)"
proof (cases "hget (nt_writers s) cid")
  case (Some t)
  let ?s = "writer_ends cid s"
  have s: "?s = s\<lparr> nt_cm := remove_connection (wt_uid t) cid (nt_cm s), nt_writers := hdel cid (nt_writers s) \<rparr>"
    using Some by (simp add: writer_ends_def)
  have "table_ok ?s"
    by (rule table_ok_cleanup [of s cid "wt_uid t"])
      (use inv Some in \<open>simp_all add: s net_inv_def reader_uid_def writer_uid_def\<close>)
  moreover have "slots_ok ?s" "queues_ok ?s" "ids_ok ?s"
    using inv by (simp_all add: s net_inv_def slots_ok_def queues_ok_def ids_ok_def)
  ultimately show ?thesis by (simp add: net_inv_def)
qed (simp add: inv writer_ends_def)

lemma net_inv_writer_turn:
  assumes inv: "net_inv s"
  shows "net_inv (writer_turn P nonce cid s)"
proof (cases "hget (nt_writers s) cid")
  case (Some t)
  have "net_inv (s\<lparr> nt_writers := hput cid (t\<lparr> wt_rx := q, wt_seq := seq, wt_wire := wire \<rparr>) (nt_writers s) \<rparr>)"
    if "wt_rx t = p # q" for p q seq wire
    by (rule net_inv_writers [OF inv]) (use Some that in \<open>auto simp: writers_le_def dest: spec [of _ cid]\<close>)
  then show ?thesis using inv Some
    by (auto simp: writer_turn_def net_inv_writer_ends split: list.split prod.split sum.split)
qed (simp add: inv writer_turn_def)

lemma net_inv_reader_turn:
  assumes inv: "net_inv s"
  shows "net_inv (reader_turn P J stream cid s)"
proof (cases "hget (nt_readers s) cid")
  case (Some r)
  obtain ctx l where r: "r = (ctx, l)" by (cases r)
  have "net_inv (s\<lparr> nt_readers := hput cid (ctx, seq) (nt_readers s), nt_incoming := reader_frame J ctx payload (nt_incoming s) \<rparr>)"
    (is "net_inv ?s") for seq payload
  proof -
    have "reader_uid ?s c = reader_uid s c" "writer_uid ?s c = writer_uid s c" for c
      using Some r by (auto simp: reader_uid_def writer_uid_def)
    then have "table_ok ?s" using inv by (simp add: net_inv_def table_ok_def)
    moreover have "length (reader_frame J ctx payload (nt_incoming s)) \<le> INCOMING_CHANNEL_CAP"
      using inv by (auto simp: reader_frame_def push_incoming_def net_inv_def queues_ok_def split: option.split)
    then have "queues_ok ?s" using inv by (simp add: net_inv_def queues_ok_def)
    moreover have "slots_ok ?s" using inv by (simp add: net_inv_def slots_ok_def)
    moreover have "ids_ok ?s" using inv Some r by (auto simp: net_inv_def ids_ok_def has_key_def)
    ultimately show ?thesis by (simp add: net_inv_def)
  qed
  then show ?thesis using inv Some r
    by (auto simp: reader_turn_def net_inv_reader_ends split: prod.split sum.split)
qed (simp add: inv reader_turn_def)

lemma establish_eqs:
  assumes "establish addr K s = (s', cid)"
  shows "cid = nt_next_conn_id s" "nt_next_conn_id s' = nt_next_conn_id s + 1"
    "cm_active_connections (nt_cm s') = hput (sk_peer_uid K) \<lparr> pw_conn_id = cid \<rparr> (cm_active_connections (nt_cm s))"
    "cm_known_peer_keys (nt_cm s') = pin_identity K (cm_known_peer_keys (nt_cm s))"
    "reader_uid s' c = (if c = cid then Some (sk_peer_uid K) else reader_uid s c)"
    "writer_uid s' c = (if c = cid then Some (sk_peer_uid K) else writer_uid s c)"
    "nt_pending s' = nt_pending s" "nt_guards s' = nt_guards s" "nt_conn_count s' = nt_conn_count s"
    "nt_incoming s' = nt_incoming s"
  using assms by (auto simp: establish_def PeerWriter_new_def Let_def reader_uid_def writer_uid_def)

lemma establish_tasks:
  assumes "establish addr K s = (s', cid)"
  shows "hget (nt_writers s') c = Some t \<Longrightarrow> wt_rx t = [] \<or> hget (nt_writers s) c = Some t"
    "hget (nt_readers s') c = Some (ctx, l) \<Longrightarrow> rx_conn_id ctx = c \<or> hget (nt_readers s) c = Some (ctx, l)"
    "has_key (nt_readers s') c \<or> has_key (nt_writers s') c \<Longrightarrow> c = cid \<or> has_key (nt_readers s) c \<or> has_key (nt_writers s) c"
  using assms by (auto simp: establish_def PeerWriter_new_def Let_def split: if_splits)

text \<open>A new connection gets a number no other one has, as long as the counter has not wrapped.\<close>
lemma net_inv_establish:
  assumes inv: "net_inv s" and est: "establish addr K s = (s', cid)" and room: "unat (nt_next_conn_id s) + 1 < 2 ^ 64"
  shows "net_inv s'" "cid < nt_next_conn_id s'" "cid \<notin> set (nt_guards s')"
proof -
  note eqs = establish_eqs [OF est] and new = establish_tasks [OF est]
  have next_id: "unat (nt_next_conn_id s') = unat (nt_next_conn_id s) + 1"
    using room unat_add_lem [of "nt_next_conn_id s" 1] by (simp add: eqs)
  then show below: "cid < nt_next_conn_id s'" by (simp add: word_less_nat_alt eqs(1))
  have old: "c < cid" if "has_key (nt_readers s) c \<or> has_key (nt_writers s) c \<or> c \<in> set (nt_guards s)" for c
    using inv that by (auto simp: net_inv_def ids_ok_def eqs(1))
  then show "cid \<notin> set (nt_guards s')" by (auto simp: eqs)
  have "table_ok s'" unfolding table_ok_def
  proof (intro allI impI)
    fix u w assume w: "hget (cm_active_connections (nt_cm s')) u = Some w"
    show "reader_uid s' (pw_conn_id w) = Some u \<and> writer_uid s' (pw_conn_id w) = Some u"
    proof (cases "u = sk_peer_uid K")
      case True
      then show ?thesis using w by (auto simp: eqs)
    next
      case False
      then have "reader_uid s (pw_conn_id w) = Some u" "writer_uid s (pw_conn_id w) = Some u"
        using inv w by (auto simp: eqs net_inv_def table_ok_def)
      moreover have "pw_conn_id w \<noteq> cid" using calculation old [of cid] by (auto simp: reader_uid_def has_key_def)
      ultimately show ?thesis by (simp add: eqs)
    qed
  qed
  moreover have "slots_ok s'" using inv by (simp add: net_inv_def slots_ok_def eqs)
  moreover have "queues_ok s'" using inv new(1) by (fastforce simp: net_inv_def queues_ok_def eqs)
  moreover have "ids_ok s'" unfolding ids_ok_def
  proof (intro conjI allI impI)
    fix c assume "has_key (nt_readers s') c \<or> has_key (nt_writers s') c \<or> c \<in> set (nt_guards s')"
    then have "c = cid \<or> c < cid" using new(3) [of c] old [of c] by (auto simp: eqs(8))
    then show "c < nt_next_conn_id s'" using below by auto
  next
    fix c ctx l assume "hget (nt_readers s') c = Some (ctx, l)"
    then have "rx_conn_id ctx = c \<or> hget (nt_readers s) c = Some (ctx, l)" by (rule new(2))
    then show "rx_conn_id ctx = c" using inv unfolding net_inv_def ids_ok_def by blast
  next
    show "distinct (nt_guards s')" using inv by (simp add: net_inv_def ids_ok_def eqs)
  qed
  ultimately show "net_inv s'" by (simp add: net_inv_def)
qed

lemma net_inv_finish_inbound:
  assumes inv: "net_inv s" and i: "i < length (nt_pending s)" and room: "unat (nt_next_conn_id s) + 1 < 2 ^ 64"
  shows "net_inv (finish_inbound i K s)"
proof -
  obtain s' cid where est: "establish (fst (nt_pending s ! i)) K s = (s', cid)" by fastforce
  note new = net_inv_establish [OF inv est room] and eqs = establish_eqs [OF est]
  let ?s = "s'\<lparr> nt_pending := drop_nth i (nt_pending s), nt_guards := cid # nt_guards s \<rparr>"
  have s: "finish_inbound i K s = ?s" using est by (simp add: finish_inbound_def)
  have "table_ok ?s" using new(1) by (simp add: net_inv_def table_ok_def reader_uid_def writer_uid_def)
  moreover have "slots_ok ?s" using inv i by (auto simp: net_inv_def slots_ok_def length_drop_nth eqs)
  moreover have "queues_ok ?s" using new(1) by (simp add: net_inv_def queues_ok_def)
  moreover have "ids_ok ?s" using new unfolding net_inv_def ids_ok_def by (auto simp: eqs(8))
  ultimately show ?thesis by (simp add: s net_inv_def)
qed

lemma net_inv_connect:
  assumes inv: "net_inv s" and room: "unat (nt_next_conn_id s) + 1 < 2 ^ 64"
  shows "net_inv (fst (connect_to_peer P J eph nonce u addr auth input s))"
proof -
  have "net_inv (fst (establish addr K s))" for K
    using net_inv_establish(1) [OF inv _ room, of addr K] by (cases "establish addr K s") simp
  then show ?thesis using inv by (auto simp: connect_to_peer_def split: option.split sum.split prod.split)
qed

lemma next_conn_id_frames [simp]:
  "nt_next_conn_id (accept_connection addr auth s) = nt_next_conn_id s"
  "nt_next_conn_id (abandon_inbound i s) = nt_next_conn_id s"
  "nt_next_conn_id (release_guard cid s) = nt_next_conn_id s"
  "nt_next_conn_id (reader_ends cid s) = nt_next_conn_id s"
  "nt_next_conn_id (writer_ends cid s) = nt_next_conn_id s"
  by (auto simp: accept_connection_def abandon_inbound_def release_guard_def guard_drop_def reader_ends_def
      writer_ends_def Let_def split: option.split)

lemma next_conn_id_turns [simp]:
  "nt_next_conn_id (writer_turn P nonce cid s) = nt_next_conn_id s"
  "nt_next_conn_id (reader_turn P J stream cid s) = nt_next_conn_id s"
  by (auto simp: writer_turn_def reader_turn_def split: option.split list.split prod.split sum.split)

lemma next_conn_id_establish: "nt_next_conn_id (fst (establish addr K s)) = nt_next_conn_id s + 1"
  using establish_eqs(2) [of addr K s] by (cases "establish addr K s") simp

lemma next_conn_id_new [simp]:
  "nt_next_conn_id (finish_inbound i K s) = nt_next_conn_id s + 1"
  "nt_next_conn_id (fst (connect_to_peer P J eph nonce u addr auth input s)) \<in> {nt_next_conn_id s, nt_next_conn_id s + 1}"
  using next_conn_id_establish [of "fst (nt_pending s ! i)" K s] next_conn_id_establish [of addr _ s]
  by (auto simp: finish_inbound_def connect_to_peer_def split: prod.split option.split sum.split)

lemma net_step_next_id: "net_step P J s s' \<Longrightarrow> nt_next_conn_id s' \<in> {nt_next_conn_id s, nt_next_conn_id s + 1}"
  by (induction rule: net_step.induct) (simp_all add: next_conn_id_new(2) [simplified])

lemma net_step_inv:
  assumes "net_step P J s s'" and "net_inv s" and "unat (nt_next_conn_id s) + 1 < 2 ^ 64"
  shows "net_inv s'"
  using assms
proof (induction rule: net_step.induct)
  case (take_incoming s m ms)
  then show ?case by (simp add: net_inv_def table_ok_def slots_ok_def queues_ok_def ids_ok_def reader_uid_def writer_uid_def)
qed (simp_all add: net_inv_accept net_inv_abandon net_inv_finish_inbound net_inv_connect net_inv_register
    net_inv_writers writers_le_send_to writers_le_broadcast net_inv_writer_turn net_inv_writer_ends
    net_inv_reader_turn net_inv_reader_ends net_inv_release)

lemma net_reach_inv:
  "net_reach P J port n s \<Longrightarrow> n + 2 < 2 ^ 64 \<Longrightarrow> net_inv s \<and> unat (nt_next_conn_id s) \<le> n + 1"
proof (induction rule: net_reach.induct)
  case start
  then show ?case by (simp add: net_inv_new) (simp add: net_new_def)
next
  case (step n s s')
  then have IH: "net_inv s" "unat (nt_next_conn_id s) \<le> n + 1" by auto
  have "unat (nt_next_conn_id s + 1) = unat (nt_next_conn_id s) + 1"
    using IH(2) step.prems unat_add_lem [of "nt_next_conn_id s" 1] by simp
  then have "unat (nt_next_conn_id s') \<le> Suc n + 1" using net_step_next_id [OF step.hyps(2)] IH(2) by auto
  then show ?case using net_step_inv [OF step.hyps(2) IH(1)] IH(2) step.prems by simp
qed

text \<open>The table without the entries of one connection.\<close>
definition without_conn :: "u64 \<Rightarrow> PeerWriter option \<Rightarrow> PeerWriter option" where
  "without_conn cid e = (case e of None \<Rightarrow> None | Some w \<Rightarrow> if pw_conn_id w = cid then None else Some w)"

lemma clean_up_exact:
  assumes "net_inv s"
  shows "hget (cm_active_connections (nt_cm (reader_ends cid s))) u = without_conn cid (hget (cm_active_connections (nt_cm s)) u)"
    "hget (cm_active_connections (nt_cm (writer_ends cid s))) u = without_conn cid (hget (cm_active_connections (nt_cm s)) u)"
proof -
  have owner: "reader_uid s (pw_conn_id w) = Some v" "writer_uid s (pw_conn_id w) = Some v"
    if "hget (cm_active_connections (nt_cm s)) v = Some w" for v w using assms that by (simp_all add: net_inv_def table_ok_def)
  have id: "rx_conn_id ctx = cid" if "hget (nt_readers s) cid = Some (ctx, l)" for ctx l
    using assms that by (simp add: net_inv_def ids_ok_def)
  show "hget (cm_active_connections (nt_cm (reader_ends cid s))) u = without_conn cid (hget (cm_active_connections (nt_cm s)) u)"
    using owner(1) [of u] id
    by (auto simp: reader_ends_def remove_connection_def without_conn_def reader_uid_def split: option.splits)
  show "hget (cm_active_connections (nt_cm (writer_ends cid s))) u = without_conn cid (hget (cm_active_connections (nt_cm s)) u)"
    using owner(2) [of u]
    by (auto simp: writer_ends_def remove_connection_def without_conn_def writer_uid_def split: option.splits)
qed

text \<open>C11: The connection table is sound under every interleaving. After any sequence of accepts, handshakes,
  calls, task turns and failures: an entry of the table always belongs to a connection whose reader
  and writer are both running for that very peer; the clean-up of a dead connection, by either of its tasks, removes
  its own entry and no other, not even that of a newer connection to the same peer; the slot counter equals the
  handshakes under way plus the inbound connections not yet finished, and never exceeds the limit;
  and no queue exceeds its capacity.\<close>
theorem connection_table_sound:
  assumes "net_reach P J port n s" and "n + 2 < 2 ^ 64"
  shows "table_ok s \<and> slots_ok s \<and> queues_ok s
    \<and> (\<forall>cid u. hget (cm_active_connections (nt_cm (reader_ends cid s))) u = without_conn cid (hget (cm_active_connections (nt_cm s)) u)
        \<and> hget (cm_active_connections (nt_cm (writer_ends cid s))) u = without_conn cid (hget (cm_active_connections (nt_cm s)) u))"
  using net_reach_inv [OF assms] clean_up_exact [of s] by (simp add: net_inv_def)

definition demo_addr :: SocketAddr where "demo_addr = V4 [127, 0, 0, 1] 9000"

definition demo_json :: json where "demo_json = two_json demo_chal demo_resp"

text \<open>A node with one outbound connection, and a peer knocking.\<close>
definition demo_net :: Net where
  "demo_net = fst (connect_to_peer toy_prims demo_json [1] [9] ''bob'' demo_addr (demo_party ''ann'')
     (Some (send_json demo_json [] demo_resp)) (net_new 9000))"

lemma demo_net_reach: "net_reach toy_prims demo_json 9000 1 demo_net"
  unfolding demo_net_def using net_reach.step [OF net_reach.start net_step.outbound] by (simp only: One_nat_def)

lemma demo_handshake: "\<exists>K. snd (outbound_handshake toy_prims demo_json [1] [9] (demo_party ''ann'') (Some [])
    (send_json demo_json [] demo_resp)) = Inr (K, []) \<and> sk_peer_uid K = ''bob''"
  using handshake_outcome(1) [OF toy_sig toy_keys toy_dh demo_parties nobody_known nobody_known
      demo_contributory demo_json_ok, of "[]"] by (simp add: view_of_def demo_party_def demo_json_def)

lemma demo_net_table: "hget (cm_active_connections (nt_cm demo_net)) ''bob'' = Some \<lparr> pw_conn_id = 1 \<rparr>"
proof -
  obtain K where K: "snd (outbound_handshake toy_prims demo_json [1] [9] (demo_party ''ann'') (Some [])
    (send_json demo_json [] demo_resp)) = Inr (K, [])" "sk_peer_uid K = ''bob''" using demo_handshake by blast
  then have "demo_net = fst (establish demo_addr K (net_new 9000))"
    by (simp add: demo_net_def connect_to_peer_def net_new_def ConnectionManager_new_def)
  then show ?thesis using K(2) establish_eqs(1,3) [of demo_addr K "net_new 9000"]
    by (cases "establish demo_addr K (net_new 9000)") (simp add: net_new_def)
qed

theorem connection_table_sound_witness:
  "net_reach toy_prims demo_json 9000 1 demo_net \<and> reader_uid demo_net 1 = Some ''bob'' \<and> writer_uid demo_net 1 = Some ''bob''"
  using connection_table_sound [OF demo_net_reach] demo_net_reach demo_net_table by (fastforce simp: table_ok_def)

text \<open>Sending never meets a dead connection. In every reachable state \<^verbatim>\<open>send_to\<close> has exactly three
  outcomes: no entry for the peer; the peer's queue is full, and nothing changes; or the message is
  last in the queue of a running writer of that peer. A closed queue is never seen.\<close>
theorem send_reaches_live_writer:
  assumes reach: "net_reach P J port n s" and bound: "n + 2 < 2 ^ 64"
  shows "case hget (cm_active_connections (nt_cm s)) u of
      None \<Rightarrow> send_to J u msg (nt_cm s) (nt_writers s) = (nt_writers s, Inl (NoConnection u))
    | Some w \<Rightarrow> \<exists>t. hget (nt_writers s) (pw_conn_id w) = Some t \<and> wt_uid t = u
        \<and> send_to J u msg (nt_cm s) (nt_writers s) =
          (if length (wt_rx t) = WRITER_QUEUE_CAP then (nt_writers s, Inl QueueFull)
           else (hput (pw_conn_id w) (t\<lparr> wt_rx := wt_rx t @ [str_bytes (to_json J msg)] \<rparr>) (nt_writers s), Inr ()))"
proof (cases "hget (cm_active_connections (nt_cm s)) u")
  case (Some w)
  have inv: "net_inv s" using net_reach_inv [OF reach bound] by simp
  have "writer_uid s (pw_conn_id w) = Some u" using inv Some by (simp add: net_inv_def table_ok_def)
  then obtain t where t: "hget (nt_writers s) (pw_conn_id w) = Some t" "wt_uid t = u" by (auto simp: writer_uid_def)
  moreover have "length (wt_rx t) \<le> WRITER_QUEUE_CAP" using inv t by (simp add: net_inv_def queues_ok_def)
  ultimately show ?thesis using Some by (auto simp: send_to_def try_send_def)
qed (simp add: send_to_def)

theorem send_reaches_live_writer_witness:
  "\<exists>t. hget (nt_writers demo_net) 1 = Some t \<and> send_to demo_json ''bob'' demo_chal (nt_cm demo_net) (nt_writers demo_net) =
     (if length (wt_rx t) = WRITER_QUEUE_CAP then (nt_writers demo_net, Inl QueueFull)
      else (hput 1 (t\<lparr> wt_rx := wt_rx t @ [str_bytes ''c''] \<rparr>) (nt_writers demo_net), Inr ()))"
  using send_reaches_live_writer [OF demo_net_reach, of "''bob''" demo_chal] demo_net_table
  by (auto simp: demo_json_def two_json_def)

lemma inbound_authenticated_known:
  assumes "inbound_handshake P J eph auth (Some dir) input = (out, Inr (K, rest))" and "sk_peer_authenticated K"
  shows "hget dir (sk_peer_uid K) = Some (sk_peer_public_hex K)"
  using assms by (auto simp: inbound_handshake_def Let_def split_beta check_verified_iff
      split: sum.splits prod.splits PeerMessage.splits if_splits PeerSigCheck.splits)

lemma outbound_authenticated_known:
  assumes "outbound_handshake P J eph nonce auth (Some dir) input = (out, Inr (K, rest))" and "sk_peer_authenticated K"
  shows "hget dir (sk_peer_uid K) = Some (sk_peer_public_hex K)"
  using assms by (auto simp: outbound_handshake_def Let_def split_beta check_verified_iff
      split: sum.splits prod.splits PeerMessage.splits if_splits PeerSigCheck.splits)

lemma pin_known: "hget keys (sk_peer_uid K) = Some (sk_peer_public_hex K) \<or> \<not> sk_peer_authenticated K \<Longrightarrow> pin_identity K keys = keys"
  by (auto simp: pin_identity_def)

lemma keys_establish: "cm_known_peer_keys (nt_cm (fst (establish addr K s))) = pin_identity K (cm_known_peer_keys (nt_cm s))"
  using establish_eqs(4) [of addr K s] by (cases "establish addr K s") simp

lemma keys_frames [simp]:
  "cm_known_peer_keys (nt_cm (accept_connection addr auth s)) = cm_known_peer_keys (nt_cm s)"
  "cm_known_peer_keys (nt_cm (abandon_inbound i s)) = cm_known_peer_keys (nt_cm s)"
  "cm_known_peer_keys (nt_cm (release_guard cid s)) = cm_known_peer_keys (nt_cm s)"
  "cm_known_peer_keys (nt_cm (reader_ends cid s)) = cm_known_peer_keys (nt_cm s)"
  "cm_known_peer_keys (nt_cm (writer_ends cid s)) = cm_known_peer_keys (nt_cm s)"
  by (auto simp: accept_connection_def abandon_inbound_def release_guard_def guard_drop_def reader_ends_def
      writer_ends_def remove_connection_def Let_def split: option.split)

lemma keys_turns [simp]:
  "cm_known_peer_keys (nt_cm (writer_turn P nonce cid s)) = cm_known_peer_keys (nt_cm s)"
  "cm_known_peer_keys (nt_cm (reader_turn P J stream cid s)) = cm_known_peer_keys (nt_cm s)"
  by (auto simp: writer_turn_def reader_turn_def split: option.split list.split prod.split sum.split)

lemma keys_finish_inbound: "cm_known_peer_keys (nt_cm (finish_inbound i K s)) = pin_identity K (cm_known_peer_keys (nt_cm s))"
  using keys_establish [of "fst (nt_pending s ! i)" K s]
  by (cases "establish (fst (nt_pending s ! i)) K s") (simp add: finish_inbound_def)

lemma keys_connect: "cm_known_peer_keys (nt_cm (fst (connect_to_peer P J eph nonce u addr auth input s))) = cm_known_peer_keys (nt_cm s)"
proof -
  have "pin_identity K (cm_known_peer_keys (nt_cm s)) = cm_known_peer_keys (nt_cm s)"
    if "snd (outbound_handshake P J eph nonce auth (Some (cm_known_peer_keys (nt_cm s))) bs) = Inr (K, rest)" for bs K rest
    using outbound_authenticated_known [of P J eph nonce auth "cm_known_peer_keys (nt_cm s)" bs _ K rest] that
    by (intro pin_known) (auto simp: prod_eq_iff)
  then show ?thesis by (auto simp: connect_to_peer_def keys_establish split: option.split sum.split prod.split)
qed

text \<open>C: the network never changes the key directory. Whatever peers do, no accept, handshake, message
  or failure adds or replaces a recorded identity key; only the application's own \<^verbatim>\<open>register_peer\<close>
  does. In particular the trust-on-first-use pinning after a handshake never records anything: a
  session is only authenticated when its key was on record already.\<close>
theorem directory_only_registered:
  assumes "net_step P J s s'"
  shows "cm_known_peer_keys (nt_cm s') = cm_known_peer_keys (nt_cm s)
    \<or> (\<exists>now u addr pk. s' = s\<lparr> nt_cm := register_peer now u addr pk (nt_cm s) \<rparr>)"
  using assms
proof (cases rule: net_step.cases)
  case (inbound i eph input out K rest)
  have "pin_identity K (cm_known_peer_keys (nt_cm s)) = cm_known_peer_keys (nt_cm s)"
    using inbound_authenticated_known [OF inbound(3)] by (intro pin_known) blast
  then show ?thesis by (simp add: inbound(1) keys_finish_inbound)
qed (auto simp: keys_connect)

theorem directory_only_registered_witness:
  "net_step toy_prims demo_json (net_new 9000) demo_net \<and> cm_known_peer_keys (nt_cm demo_net) = []"
proof -
  have step: "net_step toy_prims demo_json (net_new 9000) demo_net" unfolding demo_net_def by (rule net_step.outbound)
  have "cm_active_connections (nt_cm demo_net) \<noteq>
      cm_active_connections (nt_cm (net_new 9000\<lparr> nt_cm := register_peer now u addr pk (nt_cm (net_new 9000)) \<rparr>))" for now u addr pk
    using demo_net_table by (auto simp: register_peer_def net_new_def ConnectionManager_new_def)
  then have "demo_net \<noteq> net_new 9000\<lparr> nt_cm := register_peer now u addr pk (nt_cm (net_new 9000)) \<rparr>" for now u addr pk
    by metis
  with directory_only_registered [OF step] step show ?thesis by (simp add: net_new_def ConnectionManager_new_def)
qed

text \<open>A silent peer cannot hold a slot. In every reachable state, once the reader of an inbound
  connection gives up (the idle time-out), the rest of the connection can wind down on its own: in at
  most two more steps, neither needing anything of the peer, its writer is gone and its slot is free.\<close>
theorem silent_peer_frees_slot:
  assumes reach: "net_reach P J port n s" and bound: "n + 2 < 2 ^ 64" and guard: "cid \<in> set (nt_guards s)"
  shows "\<exists>s1 s2. (s1 = reader_ends cid s \<or> net_step P J (reader_ends cid s) s1) \<and> net_step P J s1 s2
    \<and> nt_conn_count s2 = nt_conn_count s - 1 \<and> cid \<notin> set (nt_guards s2)
    \<and> \<not> has_key (nt_readers s2) cid \<and> \<not> has_key (nt_writers s2) cid"
proof -
  let ?r = "reader_ends cid s" and ?s1 = "writer_ends cid (reader_ends cid s)"
  have inv: "net_inv ?r" using net_reach_inv [OF reach bound] net_inv_reader_ends by blast
  have r: "nt_guards ?r = nt_guards s" "nt_conn_count ?r = nt_conn_count s" "\<not> has_key (nt_readers ?r) cid"
    by (auto simp: reader_ends_def has_key_def split: option.split)
  have s1: "nt_guards ?s1 = nt_guards ?r" "nt_conn_count ?s1 = nt_conn_count ?r" "nt_readers ?s1 = nt_readers ?r"
    "\<not> has_key (nt_writers ?s1) cid"
    by (auto simp: writer_ends_def has_key_def split: option.split)
  have gone: "sender_gone cid ?r"
    using inv r(3) by (fastforce simp: sender_gone_def Let_def net_inv_def table_ok_def reader_uid_def has_key_def)
  have "?s1 = ?r \<or> net_step P J ?r ?s1"
  proof (cases "hget (nt_writers ?r) cid")
    case (Some t)
    then show ?thesis using gone by (cases "wt_rx t") (auto intro: net_step.write_timeout net_step.drained)
  qed (simp add: writer_ends_def)
  moreover have "net_step P J ?s1 (release_guard cid ?s1)" by (rule net_step.joined) (use guard r s1 in auto)
  moreover have "distinct (nt_guards ?s1)" using inv by (simp add: s1 net_inv_def ids_ok_def)
  then have "nt_conn_count (release_guard cid ?s1) = nt_conn_count s - 1 \<and> cid \<notin> set (nt_guards (release_guard cid ?s1))
      \<and> \<not> has_key (nt_readers (release_guard cid ?s1)) cid \<and> \<not> has_key (nt_writers (release_guard cid ?s1)) cid"
    using r s1 by (simp add: release_guard_def guard_drop_def)
  ultimately show ?thesis by blast
qed

text \<open>The node after its peer's inbound handshake.\<close>
definition demo_bob_net :: Net where
  "demo_bob_net = finish_inbound 0 (view_of (snd (keys_of toy_prims [1] [2])) (fst (keys_of toy_prims [1] [2])) [] (demo_party ''ann''))
     (accept_connection demo_addr (demo_party ''bob'') (net_new 9000))"

lemma demo_bob_net_reach: "net_reach toy_prims demo_json 9000 (Suc (Suc 0)) demo_bob_net"
proof -
  have "inbound_handshake toy_prims demo_json [2] (demo_party ''bob'') (Some []) (send_json demo_json [] demo_chal) =
      (send_json demo_json [] demo_resp, Inr (view_of (snd (keys_of toy_prims [1] [2])) (fst (keys_of toy_prims [1] [2])) [] (demo_party ''ann''), []))"
    using handshake_outcome(2) [OF toy_sig toy_keys toy_dh demo_parties nobody_known nobody_known
        demo_contributory demo_json_ok, of "[]"] by (simp add: demo_json_def)
  then have "net_step toy_prims demo_json (accept_connection demo_addr (demo_party ''bob'') (net_new 9000)) demo_bob_net"
    unfolding demo_bob_net_def
    by (intro net_step.inbound) (simp_all add: accept_connection_def net_new_def MAX_CONNECTIONS_def ConnectionManager_new_def)
  then show ?thesis by (intro net_reach.step [OF net_reach.step [OF net_reach.start net_step.accept]])
qed

lemma demo_bob_net_state: "nt_guards demo_bob_net = [1]" "nt_conn_count demo_bob_net = 1"
  by (simp_all add: demo_bob_net_def finish_inbound_def establish_def PeerWriter_new_def accept_connection_def net_new_def
      MAX_CONNECTIONS_def Let_def)

theorem silent_peer_frees_slot_witness:
  "nt_conn_count demo_bob_net = 1 \<and> (\<exists>s1 s2. (s1 = reader_ends 1 demo_bob_net \<or> net_step toy_prims demo_json (reader_ends 1 demo_bob_net) s1)
    \<and> net_step toy_prims demo_json s1 s2 \<and> nt_conn_count s2 = 0)"
  using silent_peer_frees_slot [OF demo_bob_net_reach, of 1] demo_bob_net_state by auto

section \<open>Delivery over one connection\<close>

text \<open>What one end's application hands to \<^verbatim>\<open>send_to\<close>, as its writer's queue sees it (with the nonces it draws).\<close>
definition queued :: "json \<Rightarrow> (bytes \<times> PeerMessage) list \<Rightarrow> (bytes \<times> bytes) list" where
  "queued J ms = map (\<lambda>(nonce, m). (nonce, str_bytes (to_json J m))) ms"

text \<open>A message this session's reader lets through, small enough for a frame, encrypted without error.\<close>
definition deliverable :: "prims \<Rightarrow> json \<Rightarrow> ReaderCtx \<Rightarrow> bytes \<times> PeerMessage \<Rightarrow> bool" where
  "deliverable P J ctx nm \<longleftrightarrow> (case nm of (nonce, m) \<Rightarrow> length nonce = 12 \<and> json_ok J m
     \<and> length (to_json J m) \<le> MAX_FRAME - 36 \<and> extract_uid m (rx_addr ctx) = rx_peer_uid ctx
     \<and> (\<forall>plain. length plain \<le> MAX_FRAME \<longrightarrow> encrypt_e2e P nonce plain (rx_recv_key ctx) \<noteq> None))"

lemma connection_writer_appends: "connection_writer P key ps seq wire = wire @ connection_writer P key ps seq []"
proof (induction ps arbitrary: seq wire)
  case (Cons np ps)
  obtain nonce p where np: "np = (nonce, p)" by (cases np)
  show ?case
  proof (cases "encrypt_e2e P nonce (be_bytes 8 (unat (seq + 1)) @ p) key")
    case (Some enc)
    show ?thesis using Some Cons.IH [of "seq + 1" "wire @ frame_of enc"] Cons.IH [of "seq + 1" "frame_of enc"]
      by (simp add: np send_secure_frame_def Let_def frame_of_def)
  qed (simp add: np send_secure_frame_def Let_def)
qed simp

lemma reader_frame_deliverable:
  assumes "deliverable P J ctx (nonce, m)" and "rx_peer_authenticated ctx" and "validate_uid (rx_peer_uid ctx)"
    and "length incoming < INCOMING_CHANNEL_CAP"
  shows "reader_frame J ctx (str_bytes (to_json J m)) incoming = incoming @ [(rx_peer_uid ctx, m)]"
  using assms by (simp add: reader_frame_def reader_accepts_def deliverable_def json_ok_def push_incoming_def)

text \<open>C12: A connection delivers. Over an authenticated session, whatever list of messages one end's writer
  takes from its queue, each bearing the sender's own name and fitting a frame, the other end's
  reader puts exactly those messages, in that order and under that peer's name, at the end of its
  application's queue, as long as they fit there.\<close>
theorem connection_delivers:
  assumes law: "aead_law P" and auth: "rx_peer_authenticated ctx" "validate_uid (rx_peer_uid ctx)"
    and msgs: "\<forall>nm \<in> set ms. deliverable P J ctx nm"
    and room: "length incoming + length ms \<le> INCOMING_CHANNEL_CAP" "unat seq + length ms < 2 ^ 64"
  shows "connection_reader P J ctx (connection_writer P (rx_recv_key ctx) (queued J ms) seq []) seq incoming
    = incoming @ map (\<lambda>(_, m). (rx_peer_uid ctx, m)) ms"
  using msgs room
proof (induction ms arbitrary: seq incoming)
  case Nil
  then show ?case by (simp add: queued_def connection_reader.simps recv_secure_frame_def read_exact_def)
next
  case (Cons nm ms)
  obtain nonce m where nm: "nm = (nonce, m)" by (cases nm)
  let ?p = "str_bytes (to_json J m)" and ?key = "rx_recv_key ctx"
  have ok: "deliverable P J ctx (nonce, m)" using Cons.prems(1) nm by simp
  then have "length (be_bytes 8 (unat (seq + 1)) @ ?p) \<le> MAX_FRAME" by (simp add: deliverable_def MAX_FRAME_def)
  then obtain enc where enc: "encrypt_e2e P nonce (be_bytes 8 (unat (seq + 1)) @ ?p) ?key = Some enc"
    using ok unfolding deliverable_def by blast
  have next_seq: "unat (seq + 1) = Suc (unat seq)" using Cons.prems(3) by (simp add: unat_word_ariths)
  let ?tail = "connection_writer P ?key (queued J ms) (seq + 1) []"
  have "connection_writer P ?key (queued J (nm # ms)) seq [] = frame_of enc @ ?tail"
    using enc connection_writer_appends [of P ?key "queued J ms" "seq + 1" "frame_of enc"]
    by (simp add: queued_def nm send_secure_frame_def Let_def frame_of_def)
  moreover have "recv_secure_frame P (frame_of enc @ ?tail) ?key seq = Inr (?p, ?tail, seq + 1)"
    using recv_one [OF law _ enc] ok next_seq by (simp add: deliverable_def word_less_nat_alt)
  moreover have "reader_frame J ctx ?p incoming = incoming @ [(rx_peer_uid ctx, m)]"
    using reader_frame_deliverable [OF ok auth] Cons.prems(2) by simp
  moreover have "connection_reader P J ctx ?tail (seq + 1) (incoming @ [(rx_peer_uid ctx, m)])
      = (incoming @ [(rx_peer_uid ctx, m)]) @ map (\<lambda>(_, m). (rx_peer_uid ctx, m)) ms"
    using Cons.IH Cons.prems next_seq by simp
  ultimately show ?case by (subst connection_reader.simps) (simp add: nm)
qed

definition demo_ctx :: ReaderCtx where
  "demo_ctx = \<lparr> rx_addr = demo_addr, rx_recv_key = [7], rx_peer_uid = ''ann'', rx_peer_authenticated = True, rx_conn_id = 1 \<rparr>"

theorem connection_delivers_witness:
  "connection_reader toy_prims (two_json (FriendAccept ''ann'') (ChannelMessage ''c'' ''ann'' ''hi'')) demo_ctx
     (connection_writer toy_prims [7] (queued (two_json (FriendAccept ''ann'') (ChannelMessage ''c'' ''ann'' ''hi''))
       [(replicate 12 1, FriendAccept ''ann''), (replicate 12 2, ChannelMessage ''c'' ''ann'' ''hi'')]) 0 []) 0 []
   = [(''ann'', FriendAccept ''ann''), (''ann'', ChannelMessage ''c'' ''ann'' ''hi'')]"
proof -
  let ?J = "two_json (FriendAccept ''ann'') (ChannelMessage ''c'' ''ann'' ''hi'')"
  let ?ms = "[(replicate 12 1, FriendAccept ''ann''), (replicate 12 2, ChannelMessage ''c'' ''ann'' ''hi'')]"
  have "\<forall>nm \<in> set ?ms. deliverable toy_prims ?J demo_ctx nm"
    by (simp add: deliverable_def json_ok_def two_json_def demo_ctx_def MAX_FRAME_def str_valid_def str_bytes_def
        utf8_valid_ascii encrypt_e2e_def toy_prims_def)
  from connection_delivers [OF toy_aead _ _ this, of "[]" 0] show ?thesis
    by (simp add: demo_ctx_def validate_demo INCOMING_CHANNEL_CAP_def)
qed

text \<open>A name of the form \<^verbatim>\<open>peer@..\<close> escapes the binding. Over any authenticated session a message
  whose claimed sender starts so, such as a friend request, is forwarded although
  the session's peer has another name.\<close>
theorem peer_at_escapes_binding:
  assumes "rx_peer_authenticated ctx" and "json_ok J m" and "validate_uid (extract_uid m (rx_addr ctx))"
    and "starts_with (extract_uid m (rx_addr ctx)) ''peer@''"
  shows "reader_accepts J ctx (str_bytes (to_json J m)) = Some m"
  using assms by (simp add: reader_accepts_def json_ok_def)

theorem peer_at_escapes_binding_witness:
  "reader_accepts (two_json (FriendAccept ''peer@bob'') (FriendAccept [])) demo_ctx (str_bytes ''c'') = Some (FriendAccept ''peer@bob'')
    \<and> rx_peer_uid demo_ctx = ''ann''"
proof -
  let ?J = "two_json (FriendAccept ''peer@bob'') (FriendAccept [])"
  have json: "json_ok ?J (FriendAccept ''peer@bob'')"
    by (simp add: json_ok_def two_json_def MAX_FRAME_def str_valid_def str_bytes_def utf8_valid_ascii)
  have "validate_uid ''peer@bob''" by (simp add: validate_uid_def uid_byte_ok_def str_bytes_def)
  with peer_at_escapes_binding [OF _ json, of demo_ctx] show ?thesis
    by (simp add: demo_ctx_def starts_with_def two_json_def)
qed

end
