(* ===== verification/Group.thy ===== *)
theory Group
  imports DcCore
begin

text \<open>
  \<^verbatim>\<open>dcnet/round.rs\<close> and \<^verbatim>\<open>dcnet/group.rs\<close>: one local DC-Net round over a clone of the group's members, and
  the group that starts it, settles rewards and penalties, and evicts malicious members.
  Instants are milliseconds; \<^verbatim>\<open>Instant::now()\<close> is the argument \<open>now\<close>.
\<close>

section \<open>round.rs\<close>

datatype RoundState = Collecting | Broadcasting | Complete | Failed

record DcRound =
  dr_round_id :: u64
  dr_participants :: "Participant list"
  dr_state :: RoundState
  dr_deadline :: nat
  dr_max_dropouts :: nat

definition DcRound_new :: "nat \<Rightarrow> u64 \<Rightarrow> Participant list \<Rightarrow> nat \<Rightarrow> DcRound" where
  "DcRound_new now round_id ps max_drop =
     \<lparr> dr_round_id = round_id, dr_participants = ps, dr_state = Collecting,
       dr_deadline = now + 30000, dr_max_dropouts = max_drop \<rparr>"

definition DcRound_is_expired :: "nat \<Rightarrow> DcRound \<Rightarrow> bool" where
  "DcRound_is_expired now r \<longleftrightarrow> now > dr_deadline r"

fun settle_all :: "bytes list \<Rightarrow> Participant list \<Rightarrow> Participant list \<times> bytes list" where
  "settle_all responded [] = ([], [])"
| "settle_all responded (p # ps) =
     (let (ps', dropouts) = settle_all responded ps in
      if \<not> List.member responded (peer_id p) then (penalize p # ps', peer_id p # dropouts)
      else (reward p # ps', dropouts))"

definition mark_dropouts :: "bytes list \<Rightarrow> DcRound \<Rightarrow> DcRound \<times> bytes list" where
  "mark_dropouts responded r =
     (let (ps, dropouts) = settle_all responded (dr_participants r) in
      (r\<lparr> dr_participants := ps,
          dr_state := (if length dropouts > dr_max_dropouts r then Failed else Complete) \<rparr>, dropouts))"

definition remove_malicious :: "DcRound \<Rightarrow> DcRound \<times> bytes list" where
  "remove_malicious r =
     (r\<lparr> dr_participants := filter (\<lambda>p. \<not> is_malicious p) (dr_participants r) \<rparr>,
      map peer_id (filter is_malicious (dr_participants r)))"

section \<open>group.rs\<close>

record DcGroup =
  gr_group_id :: bytes
  gr_participants :: "Participant list"
  gr_current_round :: "DcRound option"
  gr_min_participants :: nat
  gr_max_dropouts :: nat

definition DcGroup_new :: "bytes \<Rightarrow> nat \<Rightarrow> nat \<Rightarrow> DcGroup" where
  "DcGroup_new group_id mn max_drop =
     \<lparr> gr_group_id = group_id, gr_participants = [], gr_current_round = None,
       gr_min_participants = mn, gr_max_dropouts = max_drop \<rparr>"

definition join :: "bytes \<Rightarrow> DcGroup \<Rightarrow> DcGroup" where
  "join pid g = (if \<not> list_ex (\<lambda>p. peer_id p = pid) (gr_participants g)
     then g\<lparr> gr_participants := gr_participants g @ [Participant_new pid] \<rparr> else g)"

definition leave :: "bytes \<Rightarrow> DcGroup \<Rightarrow> DcGroup" where
  "leave pid g = g\<lparr> gr_participants := filter (\<lambda>p. peer_id p \<noteq> pid) (gr_participants g) \<rparr>"

definition start_round :: "nat \<Rightarrow> u64 \<Rightarrow> DcGroup \<Rightarrow> DcGroup \<times> DcRound option" where
  "start_round now round_id g =
     (let g1 = g\<lparr> gr_participants := filter (\<lambda>p. \<not> is_malicious p) (gr_participants g) \<rparr> in
      if length (gr_participants g1) < gr_min_participants g1 then (g1, None)
      else let r = DcRound_new now round_id (gr_participants g1) (gr_max_dropouts g1)
           in (g1\<lparr> gr_current_round := Some r \<rparr>, Some r))"

definition finish_round :: "DcGroup \<Rightarrow> DcGroup" where
  "finish_round g = (case gr_current_round g of
     None \<Rightarrow> g
   | Some _ \<Rightarrow> fold leave (map peer_id (filter is_malicious (gr_participants g)))
                (g\<lparr> gr_current_round := None \<rparr>))"

text \<open>\<^verbatim>\<open>iter_mut().find(..)\<close> followed by \<^verbatim>\<open>absorb_from\<close>: the first member with the id.\<close>
fun absorb_first :: "Participant \<Rightarrow> Participant list \<Rightarrow> Participant list" where
  "absorb_first rp [] = []"
| "absorb_first rp (p # ps) =
     (if peer_id p = peer_id rp then absorb_from p rp # ps else p # absorb_first rp ps)"

definition finish_round_with :: "bytes list \<Rightarrow> DcGroup \<Rightarrow> DcGroup \<times> bytes list \<times> bytes list" where
  "finish_round_with responded g = (case gr_current_round g of
     None \<Rightarrow> (g\<lparr> gr_current_round := None \<rparr>, [], [])
   | Some r \<Rightarrow>
       (let (r1, dropouts) = mark_dropouts responded r;
            (r2, malicious) = remove_malicious r1;
            g1 = g\<lparr> gr_participants := fold absorb_first (dr_participants r2) (gr_participants g) \<rparr>;
            g2 = g1\<lparr> gr_current_round := None \<rparr>
        in (fold leave malicious g2, dropouts, malicious)))"

definition reform :: "bytes list \<Rightarrow> DcGroup \<Rightarrow> DcGroup" where
  "reform dropouts g = fold leave dropouts g"

definition is_healthy :: "DcGroup \<Rightarrow> bool" where
  "is_healthy g \<longleftrightarrow> length (gr_participants g) \<ge> gr_min_participants g
     \<and> list_all (\<lambda>p. \<not> is_malicious p) (gr_participants g)"

definition group_size :: "DcGroup \<Rightarrow> nat" where
  "group_size g = length (gr_participants g)"

definition malicious_count :: "DcGroup \<Rightarrow> nat" where
  "malicious_count g = length (filter is_malicious (gr_participants g))"

section \<open>Settlement\<close>

definition settle :: "bytes list \<Rightarrow> Participant \<Rightarrow> Participant" where
  "settle responded p = (if peer_id p \<in> set responded then reward p else penalize p)"

lemma settle_all_eq: "settle_all responded ps =
  (map (settle responded) ps, map peer_id (filter (\<lambda>p. peer_id p \<notin> set responded) ps))"
  by (induction ps) (simp_all add: settle_def)

lemma peer_id_settle [simp]: "peer_id (settle responded p) = peer_id p"
  by (simp add: settle_def)

lemma participant_ok_settle [simp]: "participant_ok p \<Longrightarrow> participant_ok (settle responded p)"
  by (simp add: settle_def)

lemma absorb_from_settle [simp]: "absorb_from p (settle responded p) = settle responded p"
  by (cases p) (simp add: absorb_from_def settle_def penalize_def reward_def)

lemma fold_leave: "gr_participants (fold leave ids g) =
  filter (\<lambda>p. peer_id p \<notin> set ids) (gr_participants g)"
  by (induction ids arbitrary: g) (auto simp: leave_def intro: filter_cong)

lemma fold_leave_frame [simp]:
  "gr_current_round (fold leave ids g) = gr_current_round g"
  "gr_group_id (fold leave ids g) = gr_group_id g"
  "gr_min_participants (fold leave ids g) = gr_min_participants g"
  "gr_max_dropouts (fold leave ids g) = gr_max_dropouts g"
  by (induction ids arbitrary: g) (simp_all add: leave_def)

lemma absorb_first_ids [simp]: "map peer_id (absorb_first rp ps) = map peer_id ps"
  by (induction ps) simp_all

lemma fold_absorb_ids [simp]: "map peer_id (fold absorb_first rps ps) = map peer_id ps"
  by (induction rps arbitrary: ps) simp_all

lemma absorb_first_miss: "peer_id rp \<notin> peer_id ` set ps \<Longrightarrow> absorb_first rp ps = ps"
  by (induction ps) auto

lemma fold_absorb_Cons:
  "\<forall>rp \<in> set rps. peer_id rp \<noteq> peer_id p \<Longrightarrow>
   fold absorb_first rps (p # ps) = p # fold absorb_first rps ps"
  by (induction rps arbitrary: ps) auto

text \<open>Writing a settled clone of the members back changes exactly the members still in it.\<close>
lemma fold_absorb_settled:
  "distinct (map peer_id ps) \<Longrightarrow>
   fold absorb_first (filter Q (map (settle responded) ps)) ps =
     map (\<lambda>p. if Q (settle responded p) then settle responded p else p) ps"
proof (induction ps)
  case Nil
  show ?case by simp
next
  case (Cons p ps)
  let ?rest = "filter Q (map (settle responded) ps)"
  have "\<forall>rp \<in> set ?rest. peer_id rp \<noteq> peer_id q" if "peer_id q = peer_id p" for q
    using Cons.prems that by auto (metis image_eqI)
  then have skip: "fold absorb_first ?rest (q # ps) = q # fold absorb_first ?rest ps"
    if "peer_id q = peer_id p" for q
    using that by (intro fold_absorb_Cons) blast
  show ?case
    using Cons by (simp add: skip)
qed

lemma distinct_ids_inject:
  "distinct (map peer_id ps) \<Longrightarrow> p \<in> set ps \<Longrightarrow> q \<in> set ps \<Longrightarrow> peer_id p = peer_id q \<Longrightarrow> p = q"
  by (metis distinct_map inj_onD)

lemma finish_round_with_settles:
  assumes "gr_current_round g = Some r" and "dr_participants r = gr_participants g"
    and "distinct (map peer_id (gr_participants g))"
    and "finish_round_with responded g = (g', dropouts, malicious)"
  shows "gr_participants g' =
      filter (\<lambda>p. \<not> is_malicious p) (map (settle responded) (gr_participants g))"
    and "dropouts = map peer_id (filter (\<lambda>p. peer_id p \<notin> set responded) (gr_participants g))"
    and "malicious = map peer_id (filter is_malicious (map (settle responded) (gr_participants g)))"
    and "gr_current_round g' = None"
proof -
  let ?ps = "gr_participants g" and ?s = "settle responded"
  let ?Q = "\<lambda>p. \<not> is_malicious p"
  from assms(1,2,4) have dr: "dropouts = map peer_id (filter (\<lambda>p. peer_id p \<notin> set responded) ?ps)"
    and mal: "malicious = map peer_id (filter is_malicious (map ?s ?ps))"
    and cur: "gr_current_round g' = None"
    and parts: "gr_participants g' = filter (\<lambda>p. peer_id p \<notin> set malicious)
        (fold absorb_first (filter ?Q (map ?s ?ps)) ?ps)"
    by (auto simp: finish_round_with_def mark_dropouts_def remove_malicious_def settle_all_eq fold_leave)
  have iff: "peer_id p \<in> set malicious \<longleftrightarrow> is_malicious (?s p)" if "p \<in> set ?ps" for p
    using that assms(3) by (fastforce simp: mal image_iff dest: distinct_ids_inject)
  have "gr_participants g' = filter (\<lambda>p. peer_id p \<notin> set malicious)
      (map (\<lambda>p. if ?Q (?s p) then ?s p else p) ?ps)"
    using parts assms(3) by (simp add: fold_absorb_settled)
  also have "\<dots> = filter ?Q (map ?s ?ps)"
  proof -
    have "filter (\<lambda>p. peer_id p \<notin> set malicious) (map (\<lambda>p. if ?Q (?s p) then ?s p else p) qs)
        = filter ?Q (map ?s qs)" if "set qs \<subseteq> set ?ps" for qs
      using that by (induction qs) (simp_all add: iff)
    then show ?thesis by simp
  qed
  finally show "gr_participants g' = filter ?Q (map ?s ?ps)" .
  show "dropouts = map peer_id (filter (\<lambda>p. peer_id p \<notin> set responded) ?ps)" by (rule dr)
  show "malicious = map peer_id (filter is_malicious (map ?s ?ps))" by (rule mal)
  show "gr_current_round g' = None" by (rule cur)
qed

section \<open>The group invariant\<close>

definition members_ok :: "Participant list \<Rightarrow> bool" where
  "members_ok ps \<longleftrightarrow> distinct (map peer_id ps) \<and> (\<forall>p \<in> set ps. participant_ok p)"

definition group_ok :: "DcGroup \<Rightarrow> bool" where
  "group_ok g \<longleftrightarrow> members_ok (gr_participants g) \<and>
     (\<forall>r. gr_current_round g = Some r \<longrightarrow> members_ok (dr_participants r))"

lemma members_ok_Nil [simp]: "members_ok []"
  by (simp add: members_ok_def)

lemma members_ok_filter [simp]: "members_ok ps \<Longrightarrow> members_ok (filter Q ps)"
  by (auto simp: members_ok_def distinct_map_filter)

lemma members_ok_settle [simp]: "members_ok ps \<Longrightarrow> members_ok (map (settle responded) ps)"
  by (auto simp: members_ok_def comp_def)

lemma members_ok_absorb_first: "members_ok ps \<Longrightarrow> participant_ok rp \<Longrightarrow> members_ok (absorb_first rp ps)"
proof -
  assume "members_ok ps" and rp: "participant_ok rp"
  then have "\<forall>p \<in> set (absorb_first rp ps). participant_ok p"
    by (induction ps) (auto simp: members_ok_def)
  with \<open>members_ok ps\<close> show ?thesis by (simp add: members_ok_def)
qed

lemma members_ok_fold_absorb:
  "members_ok ps \<Longrightarrow> \<forall>rp \<in> set rps. participant_ok rp \<Longrightarrow> members_ok (fold absorb_first rps ps)"
  by (induction rps arbitrary: ps) (simp_all add: members_ok_absorb_first)

datatype group_op =
    Join bytes
  | Leave bytes
  | StartRound nat u64
  | FinishRound
  | FinishRoundWith "bytes list"
  | Reform "bytes list"

fun group_step :: "group_op \<Rightarrow> DcGroup \<Rightarrow> DcGroup" where
  "group_step (Join pid) g = join pid g"
| "group_step (Leave pid) g = leave pid g"
| "group_step (StartRound now rid) g = fst (start_round now rid g)"
| "group_step FinishRound g = finish_round g"
| "group_step (FinishRoundWith responded) g = fst (finish_round_with responded g)"
| "group_step (Reform ids) g = reform ids g"

lemma group_ok_new [simp]: "group_ok (DcGroup_new gid mn mx)"
  by (simp add: group_ok_def DcGroup_new_def)

lemma group_ok_join: "group_ok g \<Longrightarrow> group_ok (join pid g)"
  by (auto simp: group_ok_def join_def members_ok_def list_ex_iff)

lemma group_ok_fold_leave: "group_ok g \<Longrightarrow> group_ok (fold leave ids g)"
  by (simp add: group_ok_def fold_leave)

lemma group_ok_leave: "group_ok g \<Longrightarrow> group_ok (leave pid g)"
  using group_ok_fold_leave [of g "[pid]"] by simp

lemma group_ok_start: "group_ok g \<Longrightarrow> group_ok (fst (start_round now rid g))"
  by (simp add: group_ok_def start_round_def DcRound_new_def Let_def)

lemma group_ok_finish: "group_ok g \<Longrightarrow> group_ok (finish_round g)"
  by (auto simp: finish_round_def group_ok_def fold_leave split: option.split)

lemma group_ok_finish_with: "group_ok g \<Longrightarrow> group_ok (fst (finish_round_with responded g))"
  by (auto simp: group_ok_def finish_round_with_def mark_dropouts_def remove_malicious_def
      settle_all_eq fold_leave members_ok_def [of "dr_participants _"]
      intro!: members_ok_filter members_ok_fold_absorb split: option.split)

interpretation group: op_system group_step group_ok
proof unfold_locales
  fix g op
  assume "group_ok g"
  then show "group_ok (group_step op g)"
    by (cases op) (simp_all add: group_ok_join group_ok_leave group_ok_start group_ok_finish
        group_ok_finish_with reform_def group_ok_fold_leave)
qed

lemma start_round_Some:
  assumes "start_round now rid g = (g', Some r)"
  shows "gr_current_round g' = Some r" and "dr_participants r = gr_participants g'"
    and "gr_participants g' = filter (\<lambda>p. \<not> is_malicious p) (gr_participants g)"
    and "gr_min_participants g' \<le> length (gr_participants g')"
  using assms by (auto simp: start_round_def DcRound_new_def Let_def split: if_splits)

end
