(* ===== verification/Reputation.thy ===== *)
theory Reputation
  imports Float64 Crypto
begin

text \<open>
  \<^verbatim>\<open>dcnet/reputation.rs\<close>: the long-term score of a peer and the manager that settles a round. Unix
  seconds come in as \<open>now\<close>.
\<close>

record Reputation =
  rep_peer_id :: bytes
  rep_score :: f64
  rep_rounds_total :: u64
  rep_rounds_dropped :: u64
  rep_consecutive_drops :: u32
  rep_drop_timing_pct :: "u8 list"
  rep_first_seen :: u64
  rep_banned :: bool

definition Reputation_new :: "u64 \<Rightarrow> bytes \<Rightarrow> Reputation" where
  "Reputation_new now pid = \<lparr> rep_peer_id = pid, rep_score = f64_lit 5 10, rep_rounds_total = 0,
     rep_rounds_dropped = 0, rep_consecutive_drops = 0, rep_drop_timing_pct = [],
     rep_first_seen = now, rep_banned = False \<rparr>"

definition rep_reward :: "Reputation \<Rightarrow> Reputation" where
  "rep_reward r = r\<lparr> rep_rounds_total := rep_rounds_total r + 1, rep_consecutive_drops := 0,
     rep_score := min (f64_add (rep_score r) (f64_lit 5 100)) f64_one \<rparr>"

definition rep_penalize :: "u8 \<Rightarrow> Reputation \<Rightarrow> Reputation" where
  "rep_penalize timing_pct r = r\<lparr> rep_rounds_total := rep_rounds_total r + 1,
     rep_rounds_dropped := rep_rounds_dropped r + 1,
     rep_consecutive_drops := rep_consecutive_drops r + 1,
     rep_drop_timing_pct := rep_drop_timing_pct r @ [timing_pct],
     rep_score := f64_mul (rep_score r) (f64_lit 7 10) \<rparr>"

definition late_drops :: "Reputation \<Rightarrow> nat" where
  "late_drops r = length (filter (\<lambda>p. p > 80) (take 3 (rev (rep_drop_timing_pct r))))"

definition rep_is_malicious :: "Reputation \<Rightarrow> bool" where
  "rep_is_malicious r =
     (if rep_banned r then True
      else if rep_consecutive_drops r \<ge> 3 \<and> late_drops r \<ge> 2 then True
      else if rep_rounds_total r \<ge> 10 \<and>
        f64_div (f64_of_nat (unat (rep_rounds_dropped r))) (f64_of_nat (unat (rep_rounds_total r))) > f64_lit 5 10
      then True
      else rep_score r < f64_lit 3 10)"

definition rep_ban :: "Reputation \<Rightarrow> Reputation" where
  "rep_ban r = r\<lparr> rep_banned := True, rep_score := 0 \<rparr>"

definition trust_level :: "Reputation \<Rightarrow> u8" where
  "trust_level r = (if rep_banned r then 0 else if rep_score r \<ge> f64_lit 8 10 then 2
     else if rep_score r \<ge> f64_lit 5 10 then 1 else 0)"

type_synonym ReputationManager = "(bytes, Reputation) hmap"

definition get_or_create :: "u64 \<Rightarrow> bytes \<Rightarrow> ReputationManager \<Rightarrow> ReputationManager \<times> Reputation" where
  "get_or_create now pid m = (case hget m pid of
     Some r \<Rightarrow> (m, r)
   | None \<Rightarrow> (hput pid (Reputation_new now pid) m, Reputation_new now pid))"

definition process_peer :: "u64 \<Rightarrow> bytes list \<Rightarrow> u8 \<Rightarrow> bytes \<Rightarrow> ReputationManager \<times> bytes list
    \<Rightarrow> ReputationManager \<times> bytes list" where
  "process_peer now responded round_pct pid st =
     (let (m, malicious) = st; (m1, r) = get_or_create now pid m in
      if List.member responded pid then (hput pid (rep_reward r) m1, malicious)
      else let r1 = rep_penalize round_pct r in
        if rep_is_malicious r1 then (hput pid (rep_ban r1) m1, malicious @ [pid])
        else (hput pid r1 m1, malicious))"

definition process_round :: "u64 \<Rightarrow> bytes list \<Rightarrow> bytes list \<Rightarrow> u8 \<Rightarrow> ReputationManager
    \<Rightarrow> ReputationManager \<times> bytes list" where
  "process_round now responded all round_pct m = fold (process_peer now responded round_pct) all (m, [])"

definition top_trusted :: "nat \<Rightarrow> ReputationManager \<Rightarrow> Reputation list" where
  "top_trusted n m = take n (sort_key (\<lambda>r. - int (rep_score r)) (filter (\<lambda>r. \<not> rep_banned r) (hvalues m)))"

definition banned_count :: "ReputationManager \<Rightarrow> nat" where
  "banned_count m = length (filter rep_banned (hvalues m))"

section \<open>Scores stay in [0, 1] and bans are permanent\<close>

definition rep_ok :: "Reputation \<Rightarrow> bool" where
  "rep_ok r \<longleftrightarrow> f64_rep (rep_score r) \<and> rep_score r \<le> f64_one"

definition manager_ok :: "ReputationManager \<Rightarrow> bool" where
  "manager_ok m \<longleftrightarrow> hwf m \<and> (\<forall>pid r. hget m pid = Some r \<longrightarrow> rep_ok r \<and> rep_peer_id r = pid)"

lemma rep_ok_simps [simp]:
  "rep_ok (Reputation_new now pid)" "rep_ok (rep_reward r)" "rep_ok (rep_ban r)"
  "rep_ok r \<Longrightarrow> rep_ok (rep_penalize t r)"
  using f64_mul_le [of "rep_score r" "f64_lit 7 10"] f64_lit_le_one [of 10 7]
  by (auto simp: rep_ok_def Reputation_new_def rep_reward_def rep_ban_def rep_penalize_def f64_lit_le_one
      intro: order_trans)

lemma rep_fields [simp]:
  "rep_peer_id (rep_reward r) = rep_peer_id r" "rep_peer_id (rep_ban r) = rep_peer_id r"
  "rep_peer_id (rep_penalize t r) = rep_peer_id r" "rep_peer_id (Reputation_new now pid) = pid"
  "rep_banned (rep_reward r) = rep_banned r" "rep_banned (rep_ban r)"
  "rep_banned (rep_penalize t r) = rep_banned r" "\<not> rep_banned (Reputation_new now pid)"
  by (simp_all add: rep_reward_def rep_ban_def rep_penalize_def Reputation_new_def)

text \<open>What settling does to one peer's record.\<close>
definition settle_rep :: "bytes list \<Rightarrow> u8 \<Rightarrow> bytes \<Rightarrow> Reputation \<Rightarrow> Reputation" where
  "settle_rep responded pct pid r =
     (if pid \<in> set responded then rep_reward r
      else let r1 = rep_penalize pct r in if rep_is_malicious r1 then rep_ban r1 else r1)"

definition record_of :: "u64 \<Rightarrow> ReputationManager \<Rightarrow> bytes \<Rightarrow> Reputation" where
  "record_of now m pid = (case hget m pid of None \<Rightarrow> Reputation_new now pid | Some r \<Rightarrow> r)"

lemma process_peer_hget:
  "hget (fst (process_peer now responded pct pid st)) q =
     (if q = pid then Some (settle_rep responded pct pid (record_of now (fst st) pid)) else hget (fst st) q)"
  by (auto simp: process_peer_def get_or_create_def settle_rep_def record_of_def Let_def split: prod.split option.split)

lemma process_peer_malicious:
  "snd (process_peer now responded pct pid st) = snd st @
     (if pid \<notin> set responded \<and> rep_is_malicious (rep_penalize pct (record_of now (fst st) pid)) then [pid] else [])"
  by (auto simp: process_peer_def get_or_create_def record_of_def Let_def split: prod.split option.split)

lemma process_peer_hwf: "hwf (fst st) \<Longrightarrow> hwf (fst (process_peer now responded pct pid st))"
  by (auto simp: process_peer_def get_or_create_def Let_def split: prod.split option.split)

lemma settle_rep_ok: "rep_ok r \<Longrightarrow> rep_ok (settle_rep responded pct pid r)"
  by (simp add: settle_rep_def Let_def)

lemma settle_rep_id: "rep_peer_id (settle_rep responded pct pid r) = rep_peer_id r"
  by (simp add: settle_rep_def Let_def)

lemma settle_rep_banned: "rep_banned r \<Longrightarrow> rep_banned (settle_rep responded pct pid r)"
  by (simp add: settle_rep_def Let_def)

lemma process_peer_ok: "manager_ok (fst st) \<Longrightarrow> manager_ok (fst (process_peer now responded pct pid st))"
  unfolding manager_ok_def process_peer_hget
  by (auto simp: process_peer_hwf settle_rep_ok settle_rep_id record_of_def split: if_splits option.splits)

interpretation settling: op_system "process_peer now responded pct" "\<lambda>st. manager_ok (fst st)"
  for now :: u64 and responded :: "bytes list" and pct :: u8
  by unfold_locales (rule process_peer_ok)

type_synonym round_report = "u64 \<times> bytes list \<times> bytes list \<times> u8"

definition round_step :: "round_report \<Rightarrow> ReputationManager \<Rightarrow> ReputationManager" where
  "round_step rep m = (case rep of (now, responded, all, pct) \<Rightarrow> fst (process_round now responded all pct m))"

lemma process_round_ok: "manager_ok m \<Longrightarrow> manager_ok (fst (process_round now responded all pct m))"
  unfolding process_round_def using settling.run_inv [of "(m, [])"] by simp

definition banned_peers :: "ReputationManager \<Rightarrow> bytes set" where
  "banned_peers m = {pid. \<exists>r. hget m pid = Some r \<and> rep_banned r}"

lemma fold_process_peer_banned:
  "banned_peers (fst st) \<subseteq> banned_peers (fst (fold (process_peer now responded pct) all st))"
proof (induction all arbitrary: st)
  case Nil
  show ?case by simp
next
  case (Cons pid all)
  have "banned_peers (fst st) \<subseteq> banned_peers (fst (process_peer now responded pct pid st))"
    unfolding banned_peers_def process_peer_hget by (auto simp: record_of_def settle_rep_banned)
  with Cons show ?case by (simp add: order_trans)
qed

interpretation bans: monotone_system round_step manager_ok banned_peers
proof unfold_locales
  fix m rep
  show "manager_ok m \<Longrightarrow> manager_ok (round_step rep m)"
    by (simp add: round_step_def process_round_ok split: prod.split)
  show "banned_peers m \<subseteq> banned_peers (round_step rep m)"
    using fold_process_peer_banned [of "(m, [])"]
    by (auto simp: round_step_def process_round_def split: prod.split)
qed



lemma fold_process_round:
  assumes "distinct all"
  shows "snd (fold (process_peer now responded pct) all st) = snd st @
      filter (\<lambda>p. p \<notin> set responded \<and> rep_is_malicious (rep_penalize pct (record_of now (fst st) p))) all
    \<and> hget (fst (fold (process_peer now responded pct) all st)) q =
      (if q \<in> set all then Some (settle_rep responded pct q (record_of now (fst st) q)) else hget (fst st) q)"
  using assms
proof (induction all arbitrary: st)
  case Nil
  show ?case by simp
next
  case (Cons pid all)
  let ?st = "process_peer now responded pct pid st"
  have same: "record_of now (fst ?st) p = record_of now (fst st) p" if "p \<noteq> pid" for p
    using that by (simp add: record_of_def process_peer_hget)
  have "filter (\<lambda>p. p \<notin> set responded \<and> rep_is_malicious (rep_penalize pct (record_of now (fst ?st) p))) all
      = filter (\<lambda>p. p \<notin> set responded \<and> rep_is_malicious (rep_penalize pct (record_of now (fst st) p))) all"
  proof (intro filter_cong refl)
    fix p
    assume "p \<in> set all"
    then have "p \<noteq> pid" using Cons.prems by auto
    then show "(p \<notin> set responded \<and> rep_is_malicious (rep_penalize pct (record_of now (fst ?st) p)))
        = (p \<notin> set responded \<and> rep_is_malicious (rep_penalize pct (record_of now (fst st) p)))"
      by (simp add: same)
  qed
  then show ?case
    using Cons.IH [of ?st] Cons.prems same [of q]
    by (cases "q = pid") (auto simp: process_peer_hget process_peer_malicious)
qed

text \<open>Settling a round is exact. Over a list of distinct peers, every responder is rewarded, every
  absentee penalised and, if that makes it malicious, banned; the returned list names exactly the
  peers banned by this round; nobody else's record changes.\<close>
theorem process_round_settles:
  assumes "distinct all" and "process_round now responded all pct m = (m', malicious)"
  shows "malicious = filter (\<lambda>p. p \<notin> set responded \<and>
        rep_is_malicious (rep_penalize pct (record_of now m p))) all
    \<and> hget m' q =
        (if q \<notin> set all then hget m q
         else if q \<in> set responded then Some (rep_reward (record_of now m q))
         else if q \<in> set malicious then Some (rep_ban (rep_penalize pct (record_of now m q)))
         else Some (rep_penalize pct (record_of now m q)))"
  using fold_process_round [OF assms(1), of now responded pct "(m, [])" q] assms(2)
  by (auto simp: process_round_def settle_rep_def Let_def)

theorem process_round_settles_witness:
  "hget (fst (process_round 0 [[1]] [[1], [2]] 50 [])) [1] = Some (rep_reward (Reputation_new 0 [1]))"
  using process_round_settles [of "[[1], [2]]" 0 "[[1]]" 50 "[]"
      "fst (process_round 0 [[1]] [[1], [2]] 50 [])" "snd (process_round 0 [[1]] [[1], [2]] 50 [])" "[1]"]
  by (simp add: record_of_def)

end
