(* ===== verification/Shuffle.thy ===== *)
theory Shuffle
  imports Crypto
begin

text \<open>
  \<^verbatim>\<open>dcnet/shuffle.rs\<close>: committed, encrypted slots with locally kept keys, and the blame protocol. The
  key and nonce drawn from \<^verbatim>\<open>OsRng\<close> are arguments of \<open>submit\<close>; a failing encryption panics, modelled
  by \<^const>\<open>None\<close>.
\<close>

record ShuffleSlot =
  sl_index :: u16
  sl_ciphertext :: bytes
  sl_commitment :: bytes
  sl_node_id :: bytes

record ShuffleCommitment =
  sc_round_id :: u64
  sc_node_count :: u16
  sc_slots :: "ShuffleSlot list"
  sc_merkle_root :: bytes
  sc_slot_keys :: "(u16, bytes) hmap"

definition ShuffleCommitment_new :: "u64 \<Rightarrow> u16 \<Rightarrow> ShuffleCommitment" where
  "ShuffleCommitment_new round_id node_count = \<lparr> sc_round_id = round_id, sc_node_count = node_count,
     sc_slots = [], sc_merkle_root = replicate 32 0, sc_slot_keys = [] \<rparr>"

definition update_merkle_root :: "prims \<Rightarrow> ShuffleCommitment \<Rightarrow> ShuffleCommitment" where
  "update_merkle_root P c = (if sc_slots c = [] then c
     else c\<lparr> sc_merkle_root := sha256 P (concat (map sl_commitment (sc_slots c))) \<rparr>)"

definition submit :: "prims \<Rightarrow> bytes \<Rightarrow> bytes \<Rightarrow> bytes \<Rightarrow> bytes \<Rightarrow> ShuffleCommitment
    \<Rightarrow> (ShuffleCommitment \<times> ShuffleSlot) option" where
  "submit P key nonce node_id message c =
     (let idx = of_nat (length (sc_slots c));
          commitment = sha256 P message in
      case aead_enc P key nonce message of
        None \<Rightarrow> None
      | Some ct \<Rightarrow>
          (let slot = \<lparr> sl_index = idx, sl_ciphertext = nonce @ ct, sl_commitment = commitment,
                        sl_node_id = node_id \<rparr>;
               c1 = c\<lparr> sc_slot_keys := hput idx key (sc_slot_keys c), sc_slots := sc_slots c @ [slot] \<rparr>
           in Some (update_merkle_root P c1, slot)))"

definition verify_slot :: "prims \<Rightarrow> ShuffleSlot \<Rightarrow> bytes \<Rightarrow> bool" where
  "verify_slot P slot plaintext = constant_time_eq (sha256 P plaintext) (sl_commitment slot)"

definition decrypt_slot :: "prims \<Rightarrow> ShuffleCommitment \<Rightarrow> ShuffleSlot \<Rightarrow> bytes option" where
  "decrypt_slot P c slot =
     (if length (sl_ciphertext slot) < 28 then None
      else case hget (sc_slot_keys c) (sl_index slot) of
        None \<Rightarrow> None
      | Some key \<Rightarrow> aead_dec P key (take 12 (sl_ciphertext slot)) (drop 12 (sl_ciphertext slot)))"

definition reveal_key :: "ShuffleCommitment \<Rightarrow> u16 \<Rightarrow> bytes option" where
  "reveal_key c index = hget (sc_slot_keys c) index"

text \<open>The loop of \<^verbatim>\<open>find_cheater\<close>, from slot number \<open>i\<close> on.\<close>
fun find_cheater_from :: "prims \<Rightarrow> ShuffleCommitment \<Rightarrow> nat \<Rightarrow> ShuffleSlot list \<Rightarrow> nat option" where
  "find_cheater_from P c i [] = None"
| "find_cheater_from P c i (slot # slots) =
     (case decrypt_slot P c slot of
        Some pt \<Rightarrow> if \<not> verify_slot P slot pt then Some i else find_cheater_from P c (Suc i) slots
      | None \<Rightarrow> Some i)"

definition find_cheater :: "prims \<Rightarrow> ShuffleCommitment \<Rightarrow> nat option" where
  "find_cheater P c = find_cheater_from P c 0 (sc_slots c)"

datatype BlameVerdict =
    Offline bytes
  | Cheating bytes u16 \<comment> \<open>node_id, slot\<close>
  | Clean

definition check_attendance :: "bytes list \<Rightarrow> bytes list \<Rightarrow> BlameVerdict list" where
  "check_attendance expected actual = map Offline (filter (\<lambda>e. \<not> List.member actual e) expected)"

definition check_cheating :: "prims \<Rightarrow> ShuffleCommitment \<Rightarrow> BlameVerdict list" where
  "check_cheating P c = concat (map (\<lambda>(i, slot).
     case decrypt_slot P c slot of
       Some pt \<Rightarrow> if \<not> verify_slot P slot pt then [Cheating (sl_node_id slot) (of_nat i)] else []
     | None \<Rightarrow> [Cheating (sl_node_id slot) (of_nat i)]) (enumerate 0 (sc_slots c)))"

section \<open>Blame is exact\<close>

definition slot_bad :: "prims \<Rightarrow> ShuffleCommitment \<Rightarrow> ShuffleSlot \<Rightarrow> bool" where
  "slot_bad P c slot \<longleftrightarrow> (\<forall>pt. decrypt_slot P c slot = Some pt \<longrightarrow> sha256 P pt \<noteq> sl_commitment slot)"

lemma slot_bad_iff: "slot_bad P c slot \<longleftrightarrow>
  (case decrypt_slot P c slot of None \<Rightarrow> True | Some pt \<Rightarrow> \<not> verify_slot P slot pt)"
  by (auto simp: slot_bad_def verify_slot_def split: option.split)

lemma find_cheater_from_None:
  "find_cheater_from P c i slots = None \<longleftrightarrow> (\<forall>slot \<in> set slots. \<not> slot_bad P c slot)"
  by (induction slots arbitrary: i) (auto simp: slot_bad_iff split: option.split)

lemma find_cheater_from_Some:
  "find_cheater_from P c i slots = Some j \<Longrightarrow>
     i \<le> j \<and> j - i < length slots \<and> slot_bad P c (slots ! (j - i)) \<and> (\<forall>k < j - i. \<not> slot_bad P c (slots ! k))"
proof (induction slots arbitrary: i)
  case Nil
  then show ?case by simp
next
  case (Cons slot slots)
  show ?case
  proof (cases "slot_bad P c slot")
    case True
    with Cons.prems show ?thesis by (auto simp: slot_bad_iff split: option.splits if_splits)
  next
    case False
    with Cons.prems have "find_cheater_from P c (Suc i) slots = Some j"
      by (auto simp: slot_bad_iff split: option.splits if_splits)
    with Cons.IH have IH: "Suc i \<le> j \<and> j - Suc i < length slots \<and> slot_bad P c (slots ! (j - Suc i))
        \<and> (\<forall>k < j - Suc i. \<not> slot_bad P c (slots ! k))" by blast
    have "j - i = Suc (j - Suc i)" using IH by linarith
    with IH False show ?thesis by (auto simp: less_Suc_eq_0_disj)
  qed
qed

lemma concat_map_filter: "concat (map (\<lambda>x. if Q x then [f x] else []) xs) = map f (filter Q xs)"
  by (induction xs) simp_all

lemma check_cheating_eq:
  "check_cheating P c = map (\<lambda>(i, slot). Cheating (sl_node_id slot) (of_nat i))
     (filter (\<lambda>(i, slot). slot_bad P c slot) (enumerate 0 (sc_slots c)))"
  unfolding check_cheating_def concat_map_filter [symmetric]
  by (intro arg_cong [of _ _ concat] map_cong refl) (auto simp: slot_bad_iff split: option.splits)

text \<open>Honest submissions: key, nonce, node and message of each.\<close>
type_synonym submission = "bytes \<times> bytes \<times> bytes \<times> bytes"

fun submit_each :: "prims \<Rightarrow> submission list \<Rightarrow> ShuffleCommitment \<Rightarrow> ShuffleCommitment option" where
  "submit_each P [] c = Some c"
| "submit_each P ((k, n, node, m) # ss) c =
     (case submit P k n node m c of None \<Rightarrow> None | Some (c', _) \<Rightarrow> submit_each P ss c')"

definition honest_slots :: "prims \<Rightarrow> ShuffleCommitment \<Rightarrow> bool" where
  "honest_slots P c \<longleftrightarrow> (\<forall>i < length (sc_slots c). sl_index (sc_slots c ! i) = of_nat i
     \<and> (\<exists>k n m ct. hget (sc_slot_keys c) (of_nat i) = Some k \<and> length n = 12 \<and> aead_enc P k n m = Some ct
        \<and> sl_ciphertext (sc_slots c ! i) = n @ ct \<and> sl_commitment (sc_slots c ! i) = sha256 P m))"

lemma honest_not_bad:
  assumes "aead_law P" and "honest_slots P c" and "slot \<in> set (sc_slots c)"
  shows "\<not> slot_bad P c slot"
proof -
  obtain i where i: "i < length (sc_slots c)" "slot = sc_slots c ! i" using assms(3) by (metis in_set_conv_nth)
  then obtain k n m ct where *: "hget (sc_slot_keys c) (of_nat i) = Some k" "length n = 12" "aead_enc P k n m = Some ct"
    "sl_ciphertext slot = n @ ct" "sl_commitment slot = sha256 P m" "sl_index slot = of_nat i"
    using assms(2) by (auto simp: honest_slots_def)
  then have "decrypt_slot P c slot = Some m"
    using assms(1) by (simp add: decrypt_slot_def length_aead_enc aead_dec_enc)
  with * show ?thesis by (auto simp: slot_bad_def)
qed

lemma of_nat_u16_inject: "i < 65536 \<Longrightarrow> j < 65536 \<Longrightarrow> (of_nat i :: u16) = of_nat j \<longleftrightarrow> i = j"
  by (simp add: word_of_nat_eq_iff take_bit_nat_eq_self)

lemma submit_honest:
  assumes "submit P k n node m c = Some (c', slot)" and "honest_slots P c" and "length n = 12"
    and "length (sc_slots c) < 65536"
  shows "honest_slots P c'" and "length (sc_slots c') = Suc (length (sc_slots c))"
proof -
  let ?N = "length (sc_slots c)"
  from assms(1) obtain ct where ct: "aead_enc P k n m = Some ct"
    and slots: "sc_slots c' = sc_slots c @ [\<lparr> sl_index = of_nat ?N, sl_ciphertext = n @ ct,
      sl_commitment = sha256 P m, sl_node_id = node \<rparr>]"
    and keys: "sc_slot_keys c' = hput (of_nat ?N) k (sc_slot_keys c)"
    by (auto simp: submit_def update_merkle_root_def Let_def split: option.splits if_splits)
  show "length (sc_slots c') = Suc ?N" by (simp add: slots)
  have "(of_nat ?N :: u16) \<noteq> of_nat i" if "i < ?N" for i
    using that assms(4) by (simp add: of_nat_u16_inject)
  then show "honest_slots P c'"
    using assms(2,3) ct unfolding honest_slots_def slots keys
    by (auto simp: nth_append less_Suc_eq)
qed

lemma submit_each_honest:
  assumes "submit_each P ss c = Some c'" and "honest_slots P c" and "\<forall>(k, n, node, m) \<in> set ss. length n = 12"
    and "length (sc_slots c) + length ss \<le> 65536"
  shows "honest_slots P c' \<and> length (sc_slots c') = length (sc_slots c) + length ss"
  using assms
proof (induction ss arbitrary: c)
  case Nil
  then show ?case by simp
next
  case (Cons sub ss)
  obtain k n node m where sub: "sub = (k, n, node, m)" by (cases sub)
  with Cons.prems(1) obtain c1 slot where s: "submit P k n node m c = Some (c1, slot)" "submit_each P ss c1 = Some c'"
    by (auto split: option.splits)
  with Cons.prems sub submit_honest [OF s(1)] have "honest_slots P c1" "length (sc_slots c1) = Suc (length (sc_slots c))"
    by auto
  with Cons.IH [OF s(2)] Cons.prems show ?case by (auto simp: sub)
qed



text \<open>Cheaters are found. In any commitment state, whoever filled the slots, \<^verbatim>\<open>find_cheater\<close> returns
  the first slot that does not decrypt to a message matching its commitment, and nothing exactly
  when there is none; the blame protocol names exactly the nodes of all such slots.\<close>
theorem find_cheater_exact:
  "(case find_cheater P c of
      None \<Rightarrow> \<forall>slot \<in> set (sc_slots c). \<not> slot_bad P c slot
    | Some i \<Rightarrow> i < length (sc_slots c) \<and> slot_bad P c (sc_slots c ! i) \<and> (\<forall>j < i. \<not> slot_bad P c (sc_slots c ! j)))
   \<and> (\<exists>i. Cheating node i \<in> set (check_cheating P c)) =
     (\<exists>slot \<in> set (sc_slots c). slot_bad P c slot \<and> sl_node_id slot = node)"
proof
  show "case find_cheater P c of
      None \<Rightarrow> \<forall>slot \<in> set (sc_slots c). \<not> slot_bad P c slot
    | Some i \<Rightarrow> i < length (sc_slots c) \<and> slot_bad P c (sc_slots c ! i) \<and> (\<forall>j < i. \<not> slot_bad P c (sc_slots c ! j))"
    using find_cheater_from_None [of P c 0 "sc_slots c"] find_cheater_from_Some [of P c 0 "sc_slots c"]
    by (auto simp: find_cheater_def split: option.split)
  show "(\<exists>i. Cheating node i \<in> set (check_cheating P c)) =
     (\<exists>slot \<in> set (sc_slots c). slot_bad P c slot \<and> sl_node_id slot = node)"
    by (auto simp: check_cheating_eq image_iff in_set_enumerate_eq) (metis in_set_conv_nth)+
qed

end
