(* ===== verification/F2fBridge.thy ===== *)
theory F2fBridge
  imports Group Reputation Shuffle Storage
begin

text \<open>
  \<^verbatim>\<open>dcnet/f2f.rs\<close>: friends, their edge keys, channels with their DC-Net groups, the local broadcast, and
  the write-ahead log in front of every change of the social state. Random keys, the outcome of
  file operations and clock readings are arguments. The two JSON status strings are left out.
\<close>

section \<open>Edge keys and friends\<close>

type_synonym EdgeKey = bytes

definition EdgeKey_generate :: "bytes \<Rightarrow> EdgeKey" where
  "EdgeKey_generate rnd = arr 32 rnd"

definition to_hex :: "EdgeKey \<Rightarrow> string" where
  "to_hex k = hex_encode k"

definition from_hex :: "string \<Rightarrow> EdgeKey option" where
  "from_hex hex = (case hex_decode hex of
     None \<Rightarrow> None | Some bs \<Rightarrow> if length bs = 32 then Some bs else None)"

record F2fFriend =
  ff_uid :: uid
  ff_peer_id :: bytes
  ff_trust_level :: u8
  ff_transport_address :: string
  ff_edge_key :: EdgeKey

definition F2fFriend_new :: "prims \<Rightarrow> bytes \<Rightarrow> uid \<Rightarrow> string \<Rightarrow> u8 \<Rightarrow> F2fFriend" where
  "F2fFriend_new P rnd u addr trust = \<lparr> ff_uid = u, ff_peer_id = sha256 P (str_bytes u),
     ff_trust_level = min trust 2, ff_transport_address = addr, ff_edge_key = EdgeKey_generate rnd \<rparr>"

definition with_edge_key :: "prims \<Rightarrow> bytes \<Rightarrow> uid \<Rightarrow> string \<Rightarrow> u8 \<Rightarrow> EdgeKey \<Rightarrow> F2fFriend" where
  "with_edge_key P rnd u addr trust key = (F2fFriend_new P rnd u addr trust)\<lparr> ff_edge_key := key \<rparr>"

record ChannelInfo =
  ci_name :: string
  ci_topic :: string
  ci_participants :: "uid list"
  ci_round_id :: u64
  ci_running :: bool

record F2fDcNetBridge =
  br_friends :: "(uid, F2fFriend) hmap"
  br_channels :: "(string, ChannelInfo) hmap"
  br_groups :: "(string, DcGroup) hmap"
  br_reputation :: ReputationManager
  br_my_uid :: uid
  br_current_channel :: "string option"
  br_min_trust :: u8
  br_wal :: "WalStore option"

definition F2fDcNetBridge_new :: "uid \<Rightarrow> F2fDcNetBridge" where
  "F2fDcNetBridge_new my = \<lparr> br_friends = [], br_channels = [], br_groups = [], br_reputation = [],
     br_my_uid = my, br_current_channel = None, br_min_trust = 1, br_wal = None \<rparr>"

definition uid_to_peer :: "prims \<Rightarrow> uid \<Rightarrow> bytes" where
  "uid_to_peer P u = sha256 P (str_bytes u)"

section \<open>Write-ahead log\<close>

definition snapshot_bridge :: "F2fDcNetBridge \<Rightarrow> SocialSnapshot" where
  "snapshot_bridge b = \<lparr> sn_uid = br_my_uid b,
     sn_friends = map (\<lambda>(u, f). \<lparr> fr_uid = u, fr_addr = ff_transport_address f, fr_trust = ff_trust_level f,
       fr_edge_key_hex = Some (to_hex (ff_edge_key f)) \<rparr>) (br_friends b),
     sn_channels = map (\<lambda>(_, c). \<lparr> cr_name = ci_name c, cr_topic = ci_topic c,
       cr_participants = ci_participants c \<rparr>) (br_channels b) \<rparr>"

definition attach_wal :: "WalStore \<Rightarrow> F2fDcNetBridge \<Rightarrow> F2fDcNetBridge" where
  "attach_wal w b = b\<lparr> br_wal := Some w \<rparr>"

text \<open>What the file system and the clock do during one call of \<^verbatim>\<open>log_wal\<close>.\<close>
record wal_io =
  io_ts :: nat
  io_now :: nat
  io_append :: append_io
  io_ckpt :: ckpt_io

definition log_wal :: "wal_json \<Rightarrow> wal_io \<Rightarrow> WalOperation \<Rightarrow> F2fDcNetBridge \<Rightarrow> F2fDcNetBridge" where
  "log_wal J io op b = (case br_wal b of
     None \<Rightarrow> b
   | Some w \<Rightarrow>
       (let w1 = fst (append_op J (io_ts io) (io_append io) op w) in
        if should_checkpoint (io_now io) w1
        then b\<lparr> br_wal := Some (fst (checkpoint J (io_now io) (io_ckpt io) (snapshot_bridge b) w1)) \<rparr>
        else b\<lparr> br_wal := Some w1 \<rparr>))"

definition checkpoint_wal :: "wal_json \<Rightarrow> wal_io \<Rightarrow> F2fDcNetBridge \<Rightarrow> F2fDcNetBridge" where
  "checkpoint_wal J io b = (case br_wal b of
     None \<Rightarrow> b
   | Some w \<Rightarrow> b\<lparr> br_wal := Some (fst (checkpoint J (io_now io) (io_ckpt io) (snapshot_bridge b) w)) \<rparr>)"

definition wal_ops_pending :: "F2fDcNetBridge \<Rightarrow> u64" where
  "wal_ops_pending b = (case br_wal b of None \<Rightarrow> 0 | Some w \<Rightarrow> ops_count w)"

section \<open>Channels without logging\<close>

definition create_channel_no_log :: "prims \<Rightarrow> string \<Rightarrow> F2fDcNetBridge \<Rightarrow> F2fDcNetBridge \<times> bool" where
  "create_channel_no_log P name b =
     (if has_key (br_channels b) name then (b, False)
      else let grp = join (uid_to_peer P (br_my_uid b)) (DcGroup_new (sha256 P (str_bytes name)) 2 1)
           in (b\<lparr> br_groups := hput name grp (br_groups b),
                  br_channels := hput name \<lparr> ci_name = name, ci_topic = [], ci_participants = [br_my_uid b],
                    ci_round_id = 0, ci_running = False \<rparr> (br_channels b) \<rparr>, True))"

text \<open>The loop over the uids to add: channel, group and who joined so far.\<close>
fun join_loop :: "uid \<Rightarrow> (uid, F2fFriend) hmap \<Rightarrow> u8 \<Rightarrow> uid list \<Rightarrow> ChannelInfo \<times> DcGroup \<times> uid list
    \<Rightarrow> ChannelInfo \<times> DcGroup \<times> uid list" where
  "join_loop my friends min_trust [] st = st"
| "join_loop my friends min_trust (u # us) (ch, grp, joined) =
     join_loop my friends min_trust us
       (if u = my then (ch, grp, joined)
        else case hget friends u of
          None \<Rightarrow> (ch, grp, joined)
        | Some f \<Rightarrow>
            if ff_trust_level f \<ge> min_trust \<and> u \<notin> set (ci_participants ch)
            then (ch\<lparr> ci_participants := ci_participants ch @ [u] \<rparr>, join (ff_peer_id f) grp, joined @ [u])
            else (ch, grp, joined))"

definition join_channel_no_log :: "string \<Rightarrow> uid list \<Rightarrow> F2fDcNetBridge \<Rightarrow> F2fDcNetBridge \<times> uid list" where
  "join_channel_no_log channel uids b = (case (hget (br_channels b) channel, hget (br_groups b) channel) of
     (Some ch, Some grp) \<Rightarrow>
       (let (ch', grp', joined) = join_loop (br_my_uid b) (br_friends b) (br_min_trust b) uids (ch, grp, [])
        in (b\<lparr> br_channels := hput channel ch' (br_channels b),
               br_groups := hput channel grp' (br_groups b) \<rparr>, joined))
   | _ \<Rightarrow> (b, []))"

definition leave_channel_no_log :: "prims \<Rightarrow> string \<Rightarrow> F2fDcNetBridge \<Rightarrow> F2fDcNetBridge" where
  "leave_channel_no_log P name b =
     b\<lparr> br_channels := hmodify name (\<lambda>ch. ch\<lparr> ci_participants :=
          filter (\<lambda>u. u \<noteq> br_my_uid b) (ci_participants ch) \<rparr>) (br_channels b),
        br_groups := hmodify name (leave (uid_to_peer P (br_my_uid b))) (br_groups b) \<rparr>"

section \<open>Replay\<close>

definition apply_op_no_log :: "prims \<Rightarrow> bytes \<Rightarrow> WalOperation \<Rightarrow> F2fDcNetBridge \<Rightarrow> F2fDcNetBridge" where
  "apply_op_no_log P rnd op b = (case op of
     AddFriend u addr trust \<Rightarrow> b\<lparr> br_friends := hput u (F2fFriend_new P rnd u addr trust) (br_friends b) \<rparr>
   | RemoveFriend u \<Rightarrow> b\<lparr> br_friends := hdel u (br_friends b) \<rparr>
   | UpdateTrust u trust \<Rightarrow>
       b\<lparr> br_friends := hmodify u (\<lambda>f. f\<lparr> ff_trust_level := min trust 2 \<rparr>) (br_friends b) \<rparr>
   | UpdateEdgeKey u key_hex \<Rightarrow> (case from_hex key_hex of
       None \<Rightarrow> b
     | Some k \<Rightarrow> b\<lparr> br_friends := hmodify u (\<lambda>f. f\<lparr> ff_edge_key := k \<rparr>) (br_friends b) \<rparr>)
   | CreateChannel name \<Rightarrow> fst (create_channel_no_log P name b)
   | JoinChannel channel u \<Rightarrow> fst (join_channel_no_log channel [u] b)
   | LeaveChannel channel u \<Rightarrow>
       if u = br_my_uid b then leave_channel_no_log P channel b
       else (case hget (br_channels b) channel of
         None \<Rightarrow> b
       | Some ch \<Rightarrow>
           b\<lparr> br_channels := hput channel (ch\<lparr> ci_participants := filter (\<lambda>v. v \<noteq> u) (ci_participants ch) \<rparr>) (br_channels b),
              br_groups := hmodify channel (leave (uid_to_peer P u)) (br_groups b) \<rparr>)
   | SetUid u \<Rightarrow> b\<lparr> br_my_uid := u \<rparr>
   | _ \<Rightarrow> b)"

text \<open>\<^verbatim>\<open>apply_snapshot\<close>: one random key per friend, used when the stored key is missing or malformed.\<close>
definition restore_friend :: "prims \<Rightarrow> bytes \<Rightarrow> FriendRecord \<Rightarrow> F2fDcNetBridge \<Rightarrow> F2fDcNetBridge" where
  "restore_friend P rnd f b =
     (let key = (case fr_edge_key_hex f of None \<Rightarrow> EdgeKey_generate rnd
        | Some h \<Rightarrow> (case from_hex h of None \<Rightarrow> EdgeKey_generate rnd | Some k \<Rightarrow> k))
      in b\<lparr> br_friends := hput (fr_uid f) (with_edge_key P rnd (fr_uid f) (fr_addr f) (fr_trust f) key) (br_friends b) \<rparr>)"

definition restore_channel :: "prims \<Rightarrow> ChannelRecord \<Rightarrow> F2fDcNetBridge \<Rightarrow> F2fDcNetBridge" where
  "restore_channel P c b =
     (let b1 = fst (create_channel_no_log P (cr_name c) b)
      in b1\<lparr> br_channels := hmodify (cr_name c) (\<lambda>ch. ch\<lparr> ci_topic := cr_topic c, ci_participants := cr_participants c \<rparr>)
               (br_channels b1),
             br_groups := hmodify (cr_name c) (fold (\<lambda>p. join (uid_to_peer P p)) (cr_participants c)) (br_groups b1) \<rparr>)"

definition apply_snapshot :: "prims \<Rightarrow> (uid \<Rightarrow> bytes) \<Rightarrow> SocialSnapshot \<Rightarrow> F2fDcNetBridge \<Rightarrow> F2fDcNetBridge" where
  "apply_snapshot P rnd snap b =
     fold (restore_channel P) (sn_channels snap)
       (fold (\<lambda>f. restore_friend P (rnd (fr_uid f)) f) (sn_friends snap)
         (b\<lparr> br_my_uid := sn_uid snap, br_friends := [], br_channels := [], br_groups := [] \<rparr>))"

section \<open>Friends\<close>

definition add_friend :: "prims \<Rightarrow> wal_json \<Rightarrow> wal_io \<Rightarrow> bytes \<Rightarrow> uid \<Rightarrow> string \<Rightarrow> u8 \<Rightarrow> F2fDcNetBridge \<Rightarrow> F2fDcNetBridge" where
  "add_friend P J io rnd u addr trust b =
     (let b1 = log_wal J io (AddFriend u addr trust) b
      in b1\<lparr> br_friends := hput u (F2fFriend_new P rnd u addr trust) (br_friends b1) \<rparr>)"

definition remove_friend :: "wal_json \<Rightarrow> wal_io \<Rightarrow> uid \<Rightarrow> F2fDcNetBridge \<Rightarrow> F2fDcNetBridge" where
  "remove_friend J io u b =
     (let b1 = log_wal J io (RemoveFriend u) b in b1\<lparr> br_friends := hdel u (br_friends b1) \<rparr>)"

definition is_friend :: "F2fDcNetBridge \<Rightarrow> uid \<Rightarrow> bool" where
  "is_friend b u = has_key (br_friends b) u"

definition list_friends :: "F2fDcNetBridge \<Rightarrow> uid list" where
  "list_friends b = hkeys (br_friends b)"

definition update_trust :: "wal_json \<Rightarrow> wal_io \<Rightarrow> uid \<Rightarrow> u8 \<Rightarrow> F2fDcNetBridge \<Rightarrow> F2fDcNetBridge" where
  "update_trust J io u trust b =
     (let b1 = log_wal J io (UpdateTrust u trust) b
      in b1\<lparr> br_friends := hmodify u (\<lambda>f. f\<lparr> ff_trust_level := min trust 2 \<rparr>) (br_friends b1) \<rparr>)"

definition set_edge_key :: "wal_json \<Rightarrow> wal_io \<Rightarrow> uid \<Rightarrow> EdgeKey \<Rightarrow> F2fDcNetBridge \<Rightarrow> F2fDcNetBridge \<times> bool" where
  "set_edge_key J io u key b =
     (if \<not> has_key (br_friends b) u then (b, False)
      else let b1 = log_wal J io (UpdateEdgeKey u (to_hex key)) b
           in (b1\<lparr> br_friends := hmodify u (\<lambda>f. f\<lparr> ff_edge_key := key \<rparr>) (br_friends b1) \<rparr>, True))"

definition import_edge_key :: "wal_json \<Rightarrow> wal_io \<Rightarrow> uid \<Rightarrow> string \<Rightarrow> F2fDcNetBridge \<Rightarrow> F2fDcNetBridge \<times> bool" where
  "import_edge_key J io u hex b = (case from_hex hex of
     Some k \<Rightarrow> set_edge_key J io u k b | None \<Rightarrow> (b, False))"

definition edge_key_hex :: "F2fDcNetBridge \<Rightarrow> uid \<Rightarrow> string option" where
  "edge_key_hex b u = map_option (\<lambda>f. to_hex (ff_edge_key f)) (hget (br_friends b) u)"

definition has_edge_key :: "F2fDcNetBridge \<Rightarrow> uid \<Rightarrow> bool" where
  "has_edge_key b u = has_key (br_friends b) u"

definition set_my_uid :: "wal_json \<Rightarrow> wal_io \<Rightarrow> uid \<Rightarrow> F2fDcNetBridge \<Rightarrow> F2fDcNetBridge" where
  "set_my_uid J io u b = (log_wal J io (SetUid u) b)\<lparr> br_my_uid := u \<rparr>"

definition edge_key_map :: "F2fDcNetBridge \<Rightarrow> (uid, bytes) hmap" where
  "edge_key_map b = map (\<lambda>(u, f). (u, ff_edge_key f)) (br_friends b)"

definition is_trusted :: "F2fDcNetBridge \<Rightarrow> uid \<Rightarrow> bool" where
  "is_trusted b u = (case hget (br_friends b) u of None \<Rightarrow> False | Some f \<Rightarrow> ff_trust_level f \<ge> br_min_trust b)"

definition get_trust :: "F2fDcNetBridge \<Rightarrow> uid \<Rightarrow> u8" where
  "get_trust b u = (case hget (br_friends b) u of None \<Rightarrow> 0 | Some f \<Rightarrow> ff_trust_level f)"

definition get_transport_address :: "F2fDcNetBridge \<Rightarrow> uid \<Rightarrow> string option" where
  "get_transport_address b u = map_option ff_transport_address (hget (br_friends b) u)"

section \<open>Channels\<close>

definition create_channel :: "prims \<Rightarrow> wal_json \<Rightarrow> wal_io \<Rightarrow> string \<Rightarrow> F2fDcNetBridge \<Rightarrow> F2fDcNetBridge \<times> bool" where
  "create_channel P J io name b =
     (if has_key (br_channels b) name then (b, False)
      else create_channel_no_log P name (log_wal J io (CreateChannel name) b))"

text \<open>The logging loop of \<^verbatim>\<open>join_channel\<close>, one \<^verbatim>\<open>log_wal\<close> outcome per uid.\<close>
fun log_joins :: "wal_json \<Rightarrow> (uid \<Rightarrow> wal_io) \<Rightarrow> string \<Rightarrow> uid list \<Rightarrow> F2fDcNetBridge \<Rightarrow> F2fDcNetBridge" where
  "log_joins J ios channel [] b = b"
| "log_joins J ios channel (u # us) b = log_joins J ios channel us
     (if (case hget (br_channels b) channel of None \<Rightarrow> False | Some c \<Rightarrow> u \<notin> set (ci_participants c))
         \<and> has_key (br_friends b) u
      then log_wal J (ios u) (JoinChannel channel u) b else b)"

definition join_channel :: "wal_json \<Rightarrow> (uid \<Rightarrow> wal_io) \<Rightarrow> string \<Rightarrow> uid list \<Rightarrow> F2fDcNetBridge \<Rightarrow> F2fDcNetBridge \<times> uid list" where
  "join_channel J ios channel uids b = join_channel_no_log channel uids (log_joins J ios channel uids b)"

definition leave_channel :: "prims \<Rightarrow> wal_json \<Rightarrow> wal_io \<Rightarrow> string \<Rightarrow> F2fDcNetBridge \<Rightarrow> F2fDcNetBridge" where
  "leave_channel P J io name b = leave_channel_no_log P name (log_wal J io (LeaveChannel name (br_my_uid b)) b)"

definition switch_channel :: "string \<Rightarrow> F2fDcNetBridge \<Rightarrow> F2fDcNetBridge \<times> bool" where
  "switch_channel name b = (if has_key (br_channels b) name
     then (b\<lparr> br_current_channel := Some name \<rparr>, True) else (b, False))"

definition current_channel_name :: "F2fDcNetBridge \<Rightarrow> string option" where
  "current_channel_name b = br_current_channel b"

definition channel_set_topic :: "string \<Rightarrow> string \<Rightarrow> F2fDcNetBridge \<Rightarrow> F2fDcNetBridge" where
  "channel_set_topic channel topic b =
     b\<lparr> br_channels := hmodify channel (\<lambda>ch. ch\<lparr> ci_topic := topic \<rparr>) (br_channels b) \<rparr>"

definition list_participants :: "F2fDcNetBridge \<Rightarrow> string \<Rightarrow> uid list" where
  "list_participants b name = (case hget (br_channels b) name of None \<Rightarrow> [] | Some ch \<Rightarrow> ci_participants ch)"

definition list_channels :: "F2fDcNetBridge \<Rightarrow> string list" where
  "list_channels b = hkeys (br_channels b)"

definition start_round_driver :: "string \<Rightarrow> F2fDcNetBridge \<Rightarrow> F2fDcNetBridge" where
  "start_round_driver channel b = b\<lparr> br_channels := hmodify channel (\<lambda>ch. ch\<lparr> ci_running := True \<rparr>) (br_channels b) \<rparr>"

definition stop_round_driver :: "string \<Rightarrow> F2fDcNetBridge \<Rightarrow> F2fDcNetBridge" where
  "stop_round_driver channel b = b\<lparr> br_channels := hmodify channel (\<lambda>ch. ch\<lparr> ci_running := False \<rparr>) (br_channels b) \<rparr>"

definition reveal_round :: "prims \<Rightarrow> ShuffleCommitment \<Rightarrow> string list" where
  "reveal_round P commitment = concat (map (\<lambda>slot. case decrypt_slot P commitment slot of
       None \<Rightarrow> []
     | Some pt \<Rightarrow> if verify_slot P slot pt then [from_utf8_lossy pt] else []) (sc_slots commitment))"

section \<open>Status reports\<close>

text \<open>The values that go into the JSON of \<^verbatim>\<open>group_status\<close> and \<^verbatim>\<open>channel_status\<close>.\<close>
record GroupStatus =
  gs_friends :: nat
  gs_trusted :: nat
  gs_channels :: nat
  gs_current :: string
  gs_my_uid :: uid

definition group_status :: "F2fDcNetBridge \<Rightarrow> GroupStatus" where
  "group_status b = \<lparr> gs_friends = length (br_friends b),
     gs_trusted = length (filter (\<lambda>f. ff_trust_level f \<ge> br_min_trust b) (hvalues (br_friends b))),
     gs_channels = length (br_channels b),
     gs_current = (case br_current_channel b of None \<Rightarrow> ''none'' | Some c \<Rightarrow> c), gs_my_uid = br_my_uid b \<rparr>"

record ChannelStatus =
  cs_name :: string
  cs_topic :: string
  cs_participants :: nat
  cs_group_size :: nat
  cs_healthy :: bool
  cs_round :: u64
  cs_running :: bool

definition channel_status :: "F2fDcNetBridge \<Rightarrow> string \<Rightarrow> string + ChannelStatus" where
  "channel_status b name = (case (hget (br_channels b) name, hget (br_groups b) name) of
     (Some ch, Some grp) \<Rightarrow> Inr \<lparr> cs_name = ci_name ch, cs_topic = ci_topic ch, cs_participants = length (ci_participants ch),
       cs_group_size = group_size grp, cs_healthy = is_healthy grp, cs_round = ci_round_id ch, cs_running = ci_running ch \<rparr>
   | _ \<Rightarrow> Inl (''channel not found: '' @ name))"

end
