(* ===== verification/Recovery.thy ===== *)
theory Recovery
  imports F2fBridge
begin

text \<open>
  Crash recovery of the social state: the part of \<^verbatim>\<open>AppState::new_with_port\<close> (\<^verbatim>\<open>app.rs\<close>) that rebuilds
  the bridge from \<^verbatim>\<open>state.json\<close> and \<^verbatim>\<open>wal.log\<close>, related to the logged operations of \<^verbatim>\<open>f2f.rs\<close>.
\<close>

section \<open>Start-up\<close>

text \<open>Random edge keys: \<open>rnd\<close> for the snapshot's friends, \<open>rnds i\<close> for the \<open>i\<close>-th replayed operation.\<close>
definition replay_ops :: "prims \<Rightarrow> (nat \<Rightarrow> bytes) \<Rightarrow> WalOperation list \<Rightarrow> F2fDcNetBridge \<Rightarrow> F2fDcNetBridge" where
  "replay_ops P rnds ops b = fold (\<lambda>(i, op). apply_op_no_log P (rnds i) op) (enumerate 0 ops) b"

definition restore_bridge ::
  "prims \<Rightarrow> wal_json \<Rightarrow> (uid \<Rightarrow> bytes) \<Rightarrow> (nat \<Rightarrow> bytes) \<Rightarrow> uid \<Rightarrow> WalStore \<Rightarrow> F2fDcNetBridge" where
  "restore_bridge P J rnd rnds my w =
     (let b0 = F2fDcNetBridge_new my;
          b1 = (case load_state J w of None \<Rightarrow> b0 | Some snap \<Rightarrow> apply_snapshot P rnd snap b0)
      in attach_wal w (replay_ops P rnds (replay J w) b1))"

section \<open>Logged operations\<close>

datatype social_op =
    DoAdd bytes uid string u8
  | DoRemove uid
  | DoTrust uid u8
  | DoKey uid bytes
  | DoUid uid
  | DoCreate string
  | DoJoin string "uid list"
  | DoLeave string

fun live_step :: "prims \<Rightarrow> wal_json \<Rightarrow> wal_io \<times> social_op \<Rightarrow> F2fDcNetBridge \<Rightarrow> F2fDcNetBridge" where
  "live_step P J (io, DoAdd rnd u addr t) b = add_friend P J io rnd u addr t b"
| "live_step P J (io, DoRemove u) b = remove_friend J io u b"
| "live_step P J (io, DoTrust u t) b = update_trust J io u t b"
| "live_step P J (io, DoKey u k) b = fst (set_edge_key J io u k b)"
| "live_step P J (io, DoUid u) b = set_my_uid J io u b"
| "live_step P J (io, DoCreate n) b = fst (create_channel P J io n b)"
| "live_step P J (io, DoJoin c us) b = fst (join_channel J (\<lambda>_. io) c us b)"
| "live_step P J (io, DoLeave c) b = leave_channel P J io c b"

definition joinable :: "string \<Rightarrow> F2fDcNetBridge \<Rightarrow> uid \<Rightarrow> bool" where
  "joinable c b u \<longleftrightarrow> (case hget (br_channels b) c of None \<Rightarrow> False | Some ch \<Rightarrow> u \<notin> set (ci_participants ch))
     \<and> has_key (br_friends b) u"

text \<open>What an operation writes to the log.\<close>
fun logged_by :: "social_op \<Rightarrow> F2fDcNetBridge \<Rightarrow> WalOperation list" where
  "logged_by (DoAdd rnd u addr t) b = [AddFriend u addr t]"
| "logged_by (DoRemove u) b = [RemoveFriend u]"
| "logged_by (DoTrust u t) b = [UpdateTrust u t]"
| "logged_by (DoKey u k) b = (if has_key (br_friends b) u then [UpdateEdgeKey u (to_hex k)] else [])"
| "logged_by (DoUid u) b = [SetUid u]"
| "logged_by (DoCreate n) b = (if has_key (br_channels b) n then [] else [CreateChannel n])"
| "logged_by (DoJoin c us) b = map (JoinChannel c) (filter (joinable c b) us)"
| "logged_by (DoLeave c) b = [LeaveChannel c (br_my_uid b)]"

definition strip :: "F2fDcNetBridge \<Rightarrow> F2fDcNetBridge" where
  "strip b = b\<lparr> br_wal := None \<rparr>"

text \<open>Everything but the edge keys.\<close>
definition forget_key :: "F2fFriend \<Rightarrow> F2fFriend" where
  "forget_key f = f\<lparr> ff_edge_key := [] \<rparr>"

definition forget_list :: "(uid, F2fFriend) hmap \<Rightarrow> (uid, F2fFriend) hmap" where
  "forget_list fs = map (\<lambda>(u, f). (u, forget_key f)) fs"

definition forget_keys :: "F2fDcNetBridge \<Rightarrow> F2fDcNetBridge" where
  "forget_keys b = b\<lparr> br_friends := forget_list (br_friends b) \<rparr>"

section \<open>Replay repeats the operations\<close>

lemma log_wal_strip [simp]: "strip (log_wal J io op b) = strip b"
  by (simp add: log_wal_def strip_def Let_def split: option.split)

lemma log_wal_fields [simp]:
  "br_friends (log_wal J io op b) = br_friends b" "br_channels (log_wal J io op b) = br_channels b"
  "br_groups (log_wal J io op b) = br_groups b" "br_my_uid (log_wal J io op b) = br_my_uid b"
  "br_min_trust (log_wal J io op b) = br_min_trust b"
  by (simp_all add: log_wal_def Let_def split: option.split)

lemma log_joins_strip [simp]: "strip (log_joins J ios c us b) = strip b"
  by (induction us arbitrary: b) simp_all

text \<open>The unlogged parts do not look at the log.\<close>
lemma strip_commutes:
  "strip (b\<lparr> br_friends := fs \<rparr>) = (strip b)\<lparr> br_friends := fs \<rparr>"
  "strip (b\<lparr> br_my_uid := u \<rparr>) = (strip b)\<lparr> br_my_uid := u \<rparr>"
  "strip (fst (create_channel_no_log P n b)) = fst (create_channel_no_log P n (strip b))"
  "strip (fst (join_channel_no_log c us b)) = fst (join_channel_no_log c us (strip b))"
  "strip (leave_channel_no_log P c b) = leave_channel_no_log P c (strip b)"
  by (simp_all add: strip_def create_channel_no_log_def join_channel_no_log_def leave_channel_no_log_def Let_def
      split_beta split: option.split)

lemma strip_fields [simp]: "br_friends (strip b) = br_friends b" "br_channels (strip b) = br_channels b"
  "br_groups (strip b) = br_groups b" "br_my_uid (strip b) = br_my_uid b" "br_min_trust (strip b) = br_min_trust b"
  by (simp_all add: strip_def)

lemma strip_update: "strip b = strip b' \<Longrightarrow> br_friends b = br_friends b'"
  by (metis strip_fields(1))

definition join_step :: "uid \<Rightarrow> (uid, F2fFriend) hmap \<Rightarrow> u8 \<Rightarrow> uid \<Rightarrow> ChannelInfo \<times> DcGroup \<Rightarrow> ChannelInfo \<times> DcGroup" where
  "join_step my fr mt u s = (if u = my then s else case hget fr u of
     None \<Rightarrow> s
   | Some f \<Rightarrow> if mt \<le> ff_trust_level f \<and> u \<notin> set (ci_participants (fst s))
       then ((fst s)\<lparr> ci_participants := ci_participants (fst s) @ [u] \<rparr>, join (ff_peer_id f) (snd s)) else s)"

lemma join_loop_fold: "fst (join_loop my fr mt us (ch, g, js)) = fst (fold (join_step my fr mt) us (ch, g))"
  "fst (snd (join_loop my fr mt us (ch, g, js))) = snd (fold (join_step my fr mt) us (ch, g))"
  by (induction us arbitrary: ch g js) (simp_all add: join_step_def split: option.split)

lemma join_no_log_fold: "fst (join_channel_no_log c us b) = (case (hget (br_channels b) c, hget (br_groups b) c) of
    (Some ch, Some g) \<Rightarrow> (let s = fold (join_step (br_my_uid b) (br_friends b) (br_min_trust b)) us (ch, g) in
       b\<lparr> br_channels := hput c (fst s) (br_channels b), br_groups := hput c (snd s) (br_groups b) \<rparr>)
  | _ \<Rightarrow> b)"
  by (simp add: join_channel_no_log_def Let_def split_beta join_loop_fold split: option.split)

abbreviation join_one :: "string \<Rightarrow> uid \<Rightarrow> F2fDcNetBridge \<Rightarrow> F2fDcNetBridge" where
  "join_one c u b \<equiv> fst (join_channel_no_log c [u] b)"

lemma join_split: "fst (join_channel_no_log c (u # us) b) = fst (join_channel_no_log c us (join_one c u b))"
  by (auto simp: join_no_log_fold Let_def split: option.split)

lemma join_Nil: "fst (join_channel_no_log c [] b) = b"
  by (cases b) (auto simp: join_no_log_fold Let_def update_triv split: option.split)

lemma join_one_skip: "\<not> joinable c b u \<Longrightarrow> join_one c u b = b"
  by (cases b) (auto simp: joinable_def join_no_log_fold join_step_def has_key_def update_triv split: option.splits)

lemma join_step_grows: "set (ci_participants (fst s)) \<subseteq> set (ci_participants (fst (join_step my fr mt u s)))"
  by (auto simp: join_step_def split: option.split)

lemma joinable_mono:
  assumes "joinable c (join_one c u b) v"
  shows "joinable c b v"
proof (cases "(hget (br_channels b) c, hget (br_groups b) c)")
  case (Pair x y)
  show ?thesis
  proof (cases "x = None \<or> y = None")
    case True
    then have "join_one c u b = b" using Pair by (auto simp: join_no_log_fold split: option.split)
    then show ?thesis using assms by simp
  next
    case False
    then obtain ch g where cg: "hget (br_channels b) c = Some ch" "hget (br_groups b) c = Some g" using Pair by auto
    have "v \<notin> set (ci_participants (fst (join_step (br_my_uid b) (br_friends b) (br_min_trust b) u (ch, g))))"
      "has_key (br_friends b) v"
      using assms cg by (simp_all add: joinable_def join_no_log_fold Let_def)
    then show ?thesis using cg join_step_grows [of "(ch, g)" "br_my_uid b" "br_friends b" "br_min_trust b" u]
      by (auto simp: joinable_def)
  qed
qed

lemma join_filter:
  "(\<And>v. joinable c b v \<Longrightarrow> Q v) \<Longrightarrow> fst (join_channel_no_log c us b) = fold (join_one c) (filter Q us) b"
proof (induction us arbitrary: b)
  case Nil
  show ?case by (simp add: join_Nil)
next
  case (Cons u us)
  have "fst (join_channel_no_log c us (join_one c u b)) = fold (join_one c) (filter Q us) (join_one c u b)"
    using Cons.prems joinable_mono by (intro Cons.IH) blast
  moreover have "join_one c u b = b" if "\<not> Q u" using that Cons.prems join_one_skip by blast
  ultimately show ?case using join_split [of c u us b] by (cases "Q u") simp_all
qed

section \<open>Edge keys aside, replay does not depend on randomness\<close>

lemma forget_key_simps [simp]:
  "forget_key (f\<lparr> ff_trust_level := t \<rparr>) = (forget_key f)\<lparr> ff_trust_level := t \<rparr>"
  "forget_key (f\<lparr> ff_edge_key := k \<rparr>) = forget_key f" "ff_trust_level (forget_key f) = ff_trust_level f"
  "ff_peer_id (forget_key f) = ff_peer_id f" "forget_key (forget_key f) = forget_key f"
  by (simp_all add: forget_key_def)

lemma forget_hput: "forget_list (hput u f fs) = hput u (forget_key f) (forget_list fs)"
  by (induction fs) (auto simp: forget_list_def)

lemma forget_hdel: "forget_list (hdel u fs) = hdel u (forget_list fs)"
  by (induction fs) (auto simp: forget_list_def AList.delete_eq)

lemma hget_forget: "hget (forget_list fs) u = map_option forget_key (hget fs u)"
  by (induction fs) (auto simp: forget_list_def)

lemma forget_hmodify_trust: "forget_list (hmodify u (\<lambda>f. f\<lparr> ff_trust_level := t \<rparr>) fs) =
    hmodify u (\<lambda>f. f\<lparr> ff_trust_level := t \<rparr>) (forget_list fs)"
  by (auto simp: hmodify_def hget_forget forget_hput split: option.split)

lemma forget_hmodify_key: "forget_list (hmodify u (\<lambda>f. f\<lparr> ff_edge_key := k \<rparr>) fs) = forget_list fs"
  by (auto simp: hmodify_def hget_forget forget_hput update_triv split: option.split)

lemma forget_list_idem [simp]: "forget_list (forget_list fs) = forget_list fs"
  by (simp add: forget_list_def split_beta)

lemma join_step_forget: "join_step my (forget_list fr) mt u s = join_step my fr mt u s"
  by (auto simp: join_step_def hget_forget split: option.split)

lemma join_step_forget_fold: "fold (join_step my (forget_list fr) mt) us s = fold (join_step my fr mt) us s"
  by (induction us arbitrary: s) (simp_all add: join_step_forget)

lemma forget_fields [simp]: "br_friends (forget_keys b) = forget_list (br_friends b)"
  "br_channels (forget_keys b) = br_channels b" "br_groups (forget_keys b) = br_groups b"
  "br_my_uid (forget_keys b) = br_my_uid b" "br_min_trust (forget_keys b) = br_min_trust b"
  by (simp_all add: forget_keys_def)

lemma bridge_eqI: "br_friends a = br_friends b \<Longrightarrow> br_channels a = br_channels b \<Longrightarrow> br_groups a = br_groups b
  \<Longrightarrow> br_reputation a = br_reputation b \<Longrightarrow> br_my_uid a = br_my_uid b \<Longrightarrow> br_current_channel a = br_current_channel b
  \<Longrightarrow> br_min_trust a = br_min_trust b \<Longrightarrow> br_wal a = br_wal b \<Longrightarrow> a = b" for a b :: F2fDcNetBridge
  by (rule F2fDcNetBridge.equality) simp_all

lemma forget_rest [simp]: "br_reputation (forget_keys b) = br_reputation b" "br_wal (forget_keys b) = br_wal b"
  "br_current_channel (forget_keys b) = br_current_channel b"
  by (simp_all add: forget_keys_def)

lemma forget_apply: "forget_keys (apply_op_no_log P r op b) = forget_keys (apply_op_no_log P r' op (forget_keys b))"
proof (cases op)
  case (AddFriend u a t)
  then show ?thesis
    by (intro bridge_eqI) (simp_all add: apply_op_no_log_def forget_hput, simp add: F2fFriend_new_def forget_key_def)
next
  case (RemoveFriend u)
  then show ?thesis by (intro bridge_eqI) (simp_all add: apply_op_no_log_def forget_hdel)
next
  case (UpdateTrust u t)
  then show ?thesis by (intro bridge_eqI) (simp_all add: apply_op_no_log_def forget_hmodify_trust)
next
  case (UpdateEdgeKey u k)
  then show ?thesis by (cases "from_hex k"; intro bridge_eqI) (simp_all add: apply_op_no_log_def forget_hmodify_key)
next
  case (CreateChannel n)
  then show ?thesis by (intro bridge_eqI) (simp_all add: apply_op_no_log_def create_channel_no_log_def Let_def)
next
  case (JoinChannel c u)
  then show ?thesis
    by (intro bridge_eqI) (auto simp: apply_op_no_log_def join_no_log_fold Let_def join_step_forget split: option.split)
next
  case (LeaveChannel c u)
  then show ?thesis
    by (intro bridge_eqI) (auto simp: apply_op_no_log_def leave_channel_no_log_def split: option.split)
qed (intro bridge_eqI; simp add: apply_op_no_log_def)+

lemma forget_apply_cong:
  "forget_keys a = forget_keys b \<Longrightarrow> forget_keys (apply_op_no_log P r op a) = forget_keys (apply_op_no_log P r' op b)"
  by (metis forget_apply)

lemma forget_fold_cong: "forget_keys a = forget_keys b \<Longrightarrow>
  forget_keys (fold (apply_op_no_log P r) ops a) = forget_keys (fold (apply_op_no_log P r) ops b)"
  by (induction ops arbitrary: a b) (simp, metis fold_simps(2) forget_apply_cong)

lemma forget_replay: "forget_keys (replay_ops P rnds ops b) = forget_keys (fold (apply_op_no_log P r) ops b)"
proof -
  have "forget_keys (fold (\<lambda>(i, op). apply_op_no_log P (rnds i) op) (enumerate n ops) a) =
      forget_keys (fold (apply_op_no_log P r) ops b)" if "forget_keys a = forget_keys b" for n a
    using that
  proof (induction ops arbitrary: n a b)
    case (Cons op ops)
    show ?case using Cons.IH [OF forget_apply_cong [OF Cons.prems]] by simp
  qed simp
  then show ?thesis by (simp add: replay_ops_def)
qed

section \<open>A live operation and its replay agree\<close>

lemma replay_of_step:
  "forget_keys (strip (live_step P J (io, op) b)) = forget_keys (fold (apply_op_no_log P r) (logged_by op b) (strip b))"
proof (cases op)
  case (DoAdd rnd u a t)
  then show ?thesis
    by (intro bridge_eqI) (simp_all add: add_friend_def apply_op_no_log_def strip_commutes forget_hput Let_def,
      simp_all add: F2fFriend_new_def forget_key_def)
next
  case (DoKey u k)
  show ?thesis
  proof (cases "has_key (br_friends b) u")
    case True
    then show ?thesis using DoKey
      by (cases "from_hex (to_hex k)"; intro bridge_eqI)
        (simp_all add: set_edge_key_def apply_op_no_log_def strip_commutes forget_hmodify_key Let_def)
  next
    case False
    then show ?thesis using DoKey by (simp add: set_edge_key_def)
  qed
next
  case (DoCreate n)
  show ?thesis
  proof (cases "has_key (br_channels b) n")
    case True
    then show ?thesis using DoCreate by (simp add: create_channel_def)
  next
    case False
    then show ?thesis using DoCreate by (simp add: create_channel_def apply_op_no_log_def strip_commutes)
  qed
next
  case (DoJoin c us)
  have "joinable c (strip b) = joinable c b" by (rule ext) (simp add: joinable_def)
  moreover have "fold (apply_op_no_log P r) (map (JoinChannel c) vs) x = fold (join_one c) vs x" for vs x
    by (induction vs arbitrary: x) (simp_all add: apply_op_no_log_def)
  moreover have "fst (join_channel_no_log c us (strip b)) = fold (join_one c) (filter (joinable c (strip b)) us) (strip b)"
    by (rule join_filter)
  ultimately show ?thesis using DoJoin by (simp add: join_channel_def strip_commutes)
qed (simp_all add: remove_friend_def update_trust_def set_my_uid_def leave_channel_def apply_op_no_log_def strip_commutes Let_def)

section \<open>What a run leaves in the log\<close>

text \<open>The stamped operations of a run, in order.\<close>
fun run_log :: "prims \<Rightarrow> wal_json \<Rightarrow> (wal_io \<times> social_op) list \<Rightarrow> F2fDcNetBridge \<Rightarrow> (nat \<times> WalOperation) list" where
  "run_log P J [] b = []"
| "run_log P J ((io, op) # ops) b =
     map (Pair (io_ts io)) (logged_by op b) @ run_log P J ops (live_step P J (io, op) b)"

lemma replay_of_run:
  "forget_keys (strip (fold (live_step P J) ops b)) =
    forget_keys (fold (apply_op_no_log P r) (map snd (run_log P J ops b)) (strip b))"
proof (induction ops arbitrary: b)
  case (Cons iop ops)
  obtain io op where iop: "iop = (io, op)" by (cases iop)
  have "forget_keys (fold (apply_op_no_log P r) (map snd (run_log P J ops (live_step P J iop b))) (strip (live_step P J iop b)))
    = forget_keys (fold (apply_op_no_log P r) (map snd (run_log P J ops (live_step P J iop b)))
        (fold (apply_op_no_log P r) (logged_by op b) (strip b)))"
    unfolding iop by (intro forget_fold_cong replay_of_step)
  then show ?case using Cons.IH [of "live_step P J iop b"] by (simp add: iop comp_def)
qed simp

text \<open>Appends that succeed, with no checkpoint due by time.\<close>
definition quiet :: "WalStore \<Rightarrow> wal_io \<Rightarrow> bool" where
  "quiet w io \<longleftrightarrow> io_append io = AppendOk \<and> io_now io - ws_last_checkpoint w < ws_checkpoint_interval w"

text \<open>Room for \<open>n\<close> more operations before a checkpoint is due by number.\<close>
definition room :: "WalStore \<Rightarrow> nat \<Rightarrow> bool" where
  "room w n \<longleftrightarrow> unat (ws_ops_since_checkpoint w) + n < unat (ws_checkpoint_ops w)"

lemma unat_add_room: "room w (Suc n) \<Longrightarrow> unat (ws_ops_since_checkpoint w + 1) = Suc (unat (ws_ops_since_checkpoint w))"
  using unsigned_less [of "ws_checkpoint_ops w", where ?'a = nat] by (simp add: room_def unat_word_ariths)

lemma room_append:
  assumes "room w (Suc n)"
  shows "room (fst (append_op J ts AppendOk op w)) n" and "quiet (fst (append_op J ts AppendOk op w)) io = quiet w io"
  using assms unat_add_room [OF assms] by (simp_all add: room_def append_op_def quiet_def)

lemma log_wal_quiet:
  assumes "br_wal b = Some w" and "quiet w io" and "room w 1"
  shows "log_wal J io op b = b\<lparr> br_wal := Some (fst (append_op J (io_ts io) AppendOk op w)) \<rparr>"
proof -
  have "\<not> ws_checkpoint_ops w \<le> ws_ops_since_checkpoint w + 1"
    using assms(3) unat_add_room [of w 0] by (simp add: room_def word_le_nat_alt)
  then show ?thesis using assms(1,2)
    by (simp add: log_wal_def quiet_def append_op_def should_checkpoint_def Let_def)
qed

lemma append_all_append: "append_all J (xs @ ys) w = append_all J ys (append_all J xs w)"
  by (induction J xs w rule: append_all.induct) simp_all

lemma append_all_room:
  "room w (length ops + n) \<Longrightarrow> room (append_all J ops w) n \<and> quiet (append_all J ops w) io = quiet w io"
proof (induction J ops w rule: append_all.induct)
  case (2 J ts op ops w)
  then show ?case using room_append [of w "length ops + n"] by simp
qed simp

lemma log_joins_Cons: "log_joins J ios c (u # us) b =
    log_joins J ios c us (if joinable c b u then log_wal J (ios u) (JoinChannel c u) b else b)"
  by (simp add: joinable_def)

declare log_joins.simps(2) [simp del]

lemma log_joins_wal:
  assumes "br_wal b = Some w" and "quiet w io" and "room w (length (filter (joinable c b) us))"
  shows "br_wal (log_joins J (\<lambda>_. io) c us b) =
    Some (append_all J (map (Pair (io_ts io)) (map (JoinChannel c) (filter (joinable c b) us))) w)"
  using assms
proof (induction us arbitrary: b w)
  case (Cons u us)
  show ?case
  proof (cases "joinable c b u")
    case True
    let ?b = "log_wal J io (JoinChannel c u) b" and ?w = "fst (append_op J (io_ts io) AppendOk (JoinChannel c u) w)"
    have b: "?b = b\<lparr> br_wal := Some ?w \<rparr>" using Cons.prems True by (intro log_wal_quiet) (simp_all add: room_def)
    have same: "joinable c ?b = joinable c b" by (rule ext) (simp add: joinable_def)
    have "room w (Suc (length (filter (joinable c b) us)))" using Cons.prems(3) True by simp
    from room_append [OF this] have "br_wal (log_joins J (\<lambda>_. io) c us ?b) =
        Some (append_all J (map (Pair (io_ts io)) (map (JoinChannel c) (filter (joinable c ?b) us))) ?w)"
      using Cons.prems(2) by (intro Cons.IH) (simp_all add: b same [unfolded b])
    then show ?thesis using True same log_joins_Cons [of J "\<lambda>_. io" c u us b] by simp
  next
    case False
    then show ?thesis using Cons log_joins_Cons [of J "\<lambda>_. io" c u us b] by simp
  qed
qed simp

lemma no_log_wal [simp]: "br_wal (fst (create_channel_no_log P n b)) = br_wal b"
  "br_wal (fst (join_channel_no_log c us b)) = br_wal b" "br_wal (leave_channel_no_log P c b) = br_wal b"
  by (simp_all add: create_channel_no_log_def join_no_log_fold leave_channel_no_log_def Let_def split: option.split)

lemma live_step_wal:
  assumes "br_wal b = Some w" and "quiet w io" and "room w (length (logged_by op b))"
  shows "br_wal (live_step P J (io, op) b) = Some (append_all J (map (Pair (io_ts io)) (logged_by op b)) w)"
proof -
  have one: "br_wal (log_wal J io wop b) = Some (append_all J [(io_ts io, wop)] w)" if "room w 1" for wop
    using log_wal_quiet [OF assms(1,2) that] by simp
  show ?thesis
  proof (cases op)
    case (DoJoin c us)
    then show ?thesis using assms log_joins_wal [of b w io c us J] by (simp add: join_channel_def)
  qed (use assms one in \<open>simp_all add: add_friend_def remove_friend_def update_trust_def set_edge_key_def
      set_my_uid_def create_channel_def leave_channel_def Let_def split: if_splits\<close>)
qed

lemma run_wal:
  assumes "br_wal b = Some w" and "\<forall>(io, op) \<in> set ops. quiet w io" and "room w (length (run_log P J ops b))"
  shows "br_wal (fold (live_step P J) ops b) = Some (append_all J (run_log P J ops b) w)"
  using assms
proof (induction ops arbitrary: b w)
  case (Cons iop ops)
  obtain io op where iop: "iop = (io, op)" by (cases iop)
  let ?l = "map (Pair (io_ts io)) (logged_by op b)" and ?b = "live_step P J (io, op) b"
  have room: "room w (length ?l + length (run_log P J ops ?b))" using Cons.prems(3) by (simp add: iop)
  have "br_wal ?b = Some (append_all J ?l w)"
    using Cons.prems(1,2) room by (intro live_step_wal) (simp_all add: iop room_def)
  moreover note append_all_room [OF room, of J]
  ultimately have "br_wal (fold (live_step P J) ops ?b) = Some (append_all J (run_log P J ops ?b) (append_all J ?l w))"
    using Cons.prems(2) by (intro Cons.IH) (auto simp: iop)
  then show ?case by (simp add: iop append_all_append)
qed simp

section \<open>Recovery\<close>

lemma forget_strip: "forget_keys (strip b) = strip (forget_keys b)"
  by (simp add: forget_keys_def strip_def)

lemma new_wal: "br_wal (F2fDcNetBridge_new my) = None"
  by (simp add: F2fDcNetBridge_new_def)

lemma strip_attach: "strip (attach_wal w (F2fDcNetBridge_new my)) = F2fDcNetBridge_new my"
  by (simp add: strip_def attach_wal_def F2fDcNetBridge_new_def)

lemma strip_apply: "br_wal b = None \<Longrightarrow> strip (fold (apply_op_no_log P r) ops b) = fold (apply_op_no_log P r) ops b"
proof -
  have one: "br_wal (apply_op_no_log P r op a) = br_wal a" for op a
    by (cases op) (simp_all add: apply_op_no_log_def split: option.split)
  have "br_wal (fold (apply_op_no_log P r) ops a) = br_wal a" for a
    by (induction ops arbitrary: a) (simp_all add: one)
  then show "br_wal b = None \<Longrightarrow> ?thesis" by (simp add: strip_def)
qed

lemma forget_eq_strip: "br_wal a = br_wal b \<Longrightarrow> forget_keys (strip a) = forget_keys (strip b) \<Longrightarrow> forget_keys a = forget_keys b"
  by (rule F2fDcNetBridge.equality) (auto simp: forget_keys_def strip_def dest: arg_cong [of _ _ br_friends]
      arg_cong [of _ _ br_channels] arg_cong [of _ _ br_groups] arg_cong [of _ _ br_my_uid]
      arg_cong [of _ _ br_reputation] arg_cong [of _ _ br_current_channel] arg_cong [of _ _ br_min_trust])


text \<open>A stand-in for serde on the three operations of the witness.\<close>
definition trio_wal :: wal_json where
  "trio_wal = toy_wal\<lparr>
     op_json := (\<lambda>op. case op of AddFriend _ _ _ \<Rightarrow> ''{a}'' | CreateChannel _ \<Rightarrow> ''{c}'' | _ \<Rightarrow> ''{j}''),
     op_parse := (\<lambda>s. if s = ''{a}'' then Some (AddFriend ''bob'' ''x'' 2) else if s = ''{c}'' then Some (CreateChannel ''c'')
       else if s = ''{j}'' then Some (JoinChannel ''c'' ''bob'') else None) \<rparr>"

lemma trio_ok: "op_json_ok trio_wal (AddFriend ''bob'' ''x'' 2)" "op_json_ok trio_wal (CreateChannel ''c'')"
  "op_json_ok trio_wal (JoinChannel ''c'' ''bob'')"
  by (auto simp: op_json_ok_def trio_wal_def str_bytes_def utf8_valid_ascii less_Suc_eq numeral_3_eq_3)

definition demo_io :: wal_io where
  "demo_io = \<lparr> io_ts = 1, io_now = 5, io_append = AppendOk, io_ckpt = CkptOk \<rparr>"

definition demo_ops :: "(wal_io \<times> social_op) list" where
  "demo_ops = [(demo_io, DoAdd [7] ''bob'' ''x'' 2), (demo_io, DoCreate ''c''), (demo_io, DoJoin ''c'' [''bob'', ''eve''])]"

abbreviation demo_start :: F2fDcNetBridge where
  "demo_start \<equiv> attach_wal (WalStore_open 0 [] None 100) (F2fDcNetBridge_new ''ann'')"

lemma demo_log: "run_log toy_prims trio_wal demo_ops demo_start =
  [(1, AddFriend ''bob'' ''x'' 2), (1, CreateChannel ''c''), (1, JoinChannel ''c'' ''bob'')]"
  by (simp add: demo_ops_def add_friend_def create_channel_def create_channel_no_log_def joinable_def has_key_def
      attach_wal_def F2fDcNetBridge_new_def demo_io_def Let_def)


section \<open>What a crash loses\<close>

lemma restore_friends_keys:
  "has_key (br_friends (fold (\<lambda>f. restore_friend P (rnd (fr_uid f)) f) fs b)) u \<longleftrightarrow>
    u \<in> fr_uid ` set fs \<or> has_key (br_friends b) u"
  by (induction fs arbitrary: b) (auto simp: restore_friend_def Let_def)

lemma restore_channel_friends: "br_friends (fold (restore_channel P) cs b) = br_friends b"
  by (induction cs arbitrary: b) (simp_all add: restore_channel_def create_channel_no_log_def Let_def)

lemma apply_snapshot_keys: "has_key (br_friends (apply_snapshot P rnd snap b)) u \<longleftrightarrow> u \<in> fr_uid ` set (sn_friends snap)"
  by (simp add: apply_snapshot_def restore_channel_friends restore_friends_keys) (simp add: has_key_def)

lemma snapshot_keys: "u \<in> fr_uid ` set (sn_friends (snapshot_bridge b)) \<longleftrightarrow> has_key (br_friends b) u"
  by (force simp: snapshot_bridge_def has_key_iff hkeys_def)

text \<open>The operation that triggers a checkpoint is lost by a crash. When the append that adds a new friend
  makes a checkpoint due, the snapshot is taken before the friend is in memory and the log is
  emptied; the live state has the friend, the state rebuilt from the files does not.\<close>
theorem checkpoint_drops_operation:
  assumes wal: "br_wal b = Some w" and "io_append io = AppendOk" "io_ckpt io = CkptOk"
    and due: "should_checkpoint (io_now io) (fst (append_op J (io_ts io) AppendOk (AddFriend u addr t) w))"
    and snap: "snap_json_ok J (snapshot_bridge b)"
    and new: "\<not> is_friend b u"
  shows "\<exists>w'. br_wal (add_friend P J io key u addr t b) = Some w' \<and> is_friend (add_friend P J io key u addr t b) u
    \<and> \<not> is_friend (restore_bridge P J rnd rnds my w') u"
proof -
  let ?w = "fst (append_op J (io_ts io) AppendOk (AddFriend u addr t) w)"
  let ?w' = "fst (checkpoint J (io_now io) CkptOk (snapshot_bridge b) ?w)"
  have live: "br_wal (add_friend P J io key u addr t b) = Some ?w'"
    using assms(1-4) by (simp add: add_friend_def log_wal_def Let_def)
  have "load_state J ?w' = Some (snapshot_bridge b)" "replay J ?w' = []"
    using snap by (simp_all add: checkpoint_def load_state_def replay_def map_filter_simps)
  then have "restore_bridge P J rnd rnds my ?w' = attach_wal ?w' (apply_snapshot P rnd (snapshot_bridge b) (F2fDcNetBridge_new my))"
    by (simp add: restore_bridge_def replay_ops_def)
  then have "\<not> is_friend (restore_bridge P J rnd rnds my ?w') u"
    using new by (simp add: is_friend_def attach_wal_def apply_snapshot_keys snapshot_keys)
  moreover have "is_friend (add_friend P J io key u addr t b) u" by (simp add: add_friend_def is_friend_def Let_def)
  ultimately show ?thesis using live by blast
qed

text \<open>Serde on one snapshot.\<close>
definition snap_wal :: wal_json where
  "snap_wal = trio_wal\<lparr> snap_json := (\<lambda>_. ''s''),
     snap_parse := (\<lambda>s. if s = ''s'' then Some (snapshot_bridge (F2fDcNetBridge_new ''ann'')) else None) \<rparr>"

lemma snap_wal_ok: "snap_json_ok snap_wal \<lparr> sn_uid = ''ann'', sn_friends = [], sn_channels = [] \<rparr>"
proof -
  have "str_valid ''s''" unfolding str_valid_def by (rule utf8_valid_ascii) (simp add: str_bytes_def)
  then show ?thesis by (simp add: snap_json_ok_def snap_wal_def snapshot_bridge_def F2fDcNetBridge_new_def)
qed

theorem checkpoint_drops_operation_witness:
  "\<exists>w'. br_wal (add_friend toy_prims snap_wal demo_io [7] ''bob'' ''x'' 2
        (attach_wal (WalStore_open 0 [] None 1) (F2fDcNetBridge_new ''ann''))) = Some w'
    \<and> is_friend (add_friend toy_prims snap_wal demo_io [7] ''bob'' ''x'' 2
        (attach_wal (WalStore_open 0 [] None 1) (F2fDcNetBridge_new ''ann''))) ''bob''
    \<and> \<not> is_friend (restore_bridge toy_prims snap_wal (\<lambda>_. []) (\<lambda>_. []) ''ann'' w') ''bob''"
  by (rule checkpoint_drops_operation [where w = "WalStore_open 0 [] None 1"])
    (simp_all add: attach_wal_def demo_io_def WalStore_open_def append_op_def should_checkpoint_def snap_wal_ok
      snapshot_bridge_def F2fDcNetBridge_new_def is_friend_def has_key_def Let_def)

text \<open>An edge key not set explicitly does not survive a crash. The key generated when a friend is added
  is not in the log, so start-up draws another one: the friend's two ends no longer share it.\<close>
theorem generated_edge_key_lost:
  assumes "op_json_ok J (AddFriend u addr t)" and "length (wal_text J (io_ts io) (AddFriend u addr t)) < MAX_WAL_BYTES"
    and "io_append io = AppendOk" "io_now io - now < 60000" "1 < unat k"
  shows "\<exists>w. br_wal (add_friend P J io key u addr t (attach_wal (WalStore_open now [] None k) (F2fDcNetBridge_new my))) = Some w
    \<and> edge_key_hex (add_friend P J io key u addr t (attach_wal (WalStore_open now [] None k) (F2fDcNetBridge_new my))) u
        = Some (to_hex (EdgeKey_generate key))
    \<and> edge_key_hex (restore_bridge P J rnd rnds my w) u = Some (to_hex (EdgeKey_generate (rnds 0)))"
proof -
  let ?v = "WalStore_open now [] None k" and ?op = "AddFriend u addr t"
  let ?b = "attach_wal ?v (F2fDcNetBridge_new my)" and ?w = "append_all J [(io_ts io, ?op)] ?v"
  have "log_wal J io ?op ?b = ?b\<lparr> br_wal := Some ?w \<rparr>"
    using assms(3-5) by (subst log_wal_quiet [of _ ?v]) (simp_all add: attach_wal_def quiet_def room_def WalStore_open_def)
  then have live: "br_wal (add_friend P J io key u addr t ?b) = Some ?w" by (simp add: add_friend_def Let_def)
  have "replay J ?w = map snd [(io_ts io, ?op)]"
    by (rule replay_append_all) (use assms(1,2) in \<open>simp_all add: append_op_def WalStore_open_def Let_def\<close>)
  moreover have "ws_state ?w = None" by (simp add: append_op_def WalStore_open_def Let_def)
  ultimately have "restore_bridge P J rnd rnds my ?w = attach_wal ?w (apply_op_no_log P (rnds 0) ?op (F2fDcNetBridge_new my))"
    by (simp add: restore_bridge_def load_state_def replay_ops_def)
  then have "edge_key_hex (restore_bridge P J rnd rnds my ?w) u = Some (to_hex (EdgeKey_generate (rnds 0)))"
    by (simp add: edge_key_hex_def attach_wal_def apply_op_no_log_def F2fFriend_new_def)
  moreover have "edge_key_hex (add_friend P J io key u addr t ?b) u = Some (to_hex (EdgeKey_generate key))"
    by (simp add: edge_key_hex_def add_friend_def F2fFriend_new_def Let_def)
  ultimately show ?thesis using live by blast
qed

theorem generated_edge_key_lost_witness:
  "\<exists>w. br_wal (add_friend toy_prims trio_wal demo_io [7] ''bob'' ''x'' 2 demo_start) = Some w
    \<and> edge_key_hex (add_friend toy_prims trio_wal demo_io [7] ''bob'' ''x'' 2 demo_start) ''bob''
      \<noteq> edge_key_hex (restore_bridge toy_prims trio_wal (\<lambda>_. []) (\<lambda>_. [9]) ''ann'' w) ''bob''"
proof -
  have "length (wal_text trio_wal (io_ts demo_io) (AddFriend ''bob'' ''x'' 2)) < MAX_WAL_BYTES"
    by (simp add: wal_text_def trio_wal_def demo_io_def show_nat.simps MAX_WAL_BYTES_def)
  from generated_edge_key_lost [OF trio_ok(1) this, of 0 100 toy_prims "[7]" "''ann''" "\<lambda>_. []" "\<lambda>_. [9]"]
  show ?thesis by (auto simp: demo_io_def to_hex_def EdgeKey_generate_def arr_def)
qed

end
