(* ===== verification/RoundEngine.thy ===== *)
theory RoundEngine
  imports RoundDriver
begin

text \<open>
  \<^verbatim>\<open>round_engine.rs\<close>: the leader-based variant of a round. The leader announces the round, collects
  one share per participant and broadcasts the extracted payload; members answer a start with one
  share and accept a result whose checksum matches.
\<close>

record RoundEngine =
  re_tracker :: RoundTracker
  re_collectors :: "(u64, RoundCollector) hmap"
  re_my_uid :: uid
  re_leader_uid :: "uid option"

datatype RoundEvent =
    MessageReceived string string u64 \<comment> \<open>channel, text, round_id\<close>
  | MessageExtracted string string u64

definition RoundEngine_new :: "nat \<Rightarrow> uid \<Rightarrow> RoundEngine" where
  "RoundEngine_new now my_uid = \<lparr> re_tracker = RoundTracker_new now, re_collectors = [],
     re_my_uid = my_uid, re_leader_uid = None \<rparr>"

definition engine_queue_message :: "string \<Rightarrow> RoundEngine \<Rightarrow> RoundEngine" where
  "engine_queue_message m e = e\<lparr> re_tracker := queue_message m (re_tracker e) \<rparr>"

definition start_round_as_leader ::
  "prims \<Rightarrow> nat \<Rightarrow> string \<Rightarrow> uid list \<Rightarrow> RoundContext \<Rightarrow> RoundEngine \<Rightarrow> RoundEngine \<times> outgoing" where
  "start_round_as_leader P now channel participants ctx e =
     (let (t1, round_id) = next_round (re_tracker e);
          deadline = min 30 MAX_ROUND_DEADLINE_SECS;
          payload_len = DEFAULT_PAYLOAD_LEN;
          collector = RoundCollector_new now channel round_id participants deadline payload_len;
          (t2, message) = dequeue_message t1;
          collector' = (case compute_xor_share_secure P round_id (re_my_uid e) participants
                               (map_option str_bytes message) payload_len (ctx_edge_keys ctx) of
            None \<Rightarrow> collector
          | Some share \<Rightarrow> (case submit_share (re_my_uid e) share collector of
              Inl _ \<Rightarrow> collector | Inr c \<Rightarrow> c));
          e1 = e\<lparr> re_tracker := t2, re_collectors := hput round_id collector' (re_collectors e) \<rparr>;
          start_msg = build_round_start channel round_id (re_my_uid e) participants deadline payload_len
      in (e1, map (\<lambda>p. (p, start_msg)) participants))"

definition handle_round_start :: "prims \<Rightarrow> string \<Rightarrow> u64 \<Rightarrow> uid \<Rightarrow> uid list \<Rightarrow> nat
    \<Rightarrow> RoundContext \<Rightarrow> RoundEngine \<Rightarrow> RoundEngine \<times> RoundEvent option \<times> outgoing" where
  "handle_round_start P channel round_id leader_id participants payload_len ctx e =
     (let (t1, seen) = mark_seen round_id (re_tracker e) in
      if \<not> seen then (e\<lparr> re_tracker := t1 \<rparr>, None, [])
      else let (t2, my_message) = dequeue_message t1;
               e1 = e\<lparr> re_tracker := t2, re_leader_uid := Some leader_id \<rparr> in
        case compute_xor_share_secure P round_id (re_my_uid e) participants
               (map_option str_bytes my_message) payload_len (ctx_edge_keys ctx) of
          None \<Rightarrow> (e1, None, [])
        | Some share \<Rightarrow>
            (let signature = sign_share P (ctx_signing_key ctx) channel round_id share;
                 share_msg = build_round_share channel round_id (re_my_uid e) share signature
             in (e1, None, [(leader_id, share_msg)])))"

definition text_or_binary :: "bytes \<Rightarrow> string" where
  "text_or_binary b = (case from_utf8 b of None \<Rightarrow> ''(binary data)'' | Some t \<Rightarrow> t)"

definition handle_round_share :: "prims \<Rightarrow> nat \<Rightarrow> string \<Rightarrow> u64 \<Rightarrow> uid \<Rightarrow> bytes \<Rightarrow> bytes
    \<Rightarrow> RoundContext \<Rightarrow> RoundEngine \<Rightarrow> RoundEngine \<times> RoundEvent option \<times> outgoing" where
  "handle_round_share P now channel round_id peer_uid xored_payload signature ctx e =
     (if share_refused P ctx channel round_id peer_uid xored_payload signature then (e, None, [])
      else case hget (re_collectors e) round_id of
        None \<Rightarrow> (e, None, [])
      | Some c0 \<Rightarrow> (case submit_share peer_uid xored_payload c0 of
          Inl _ \<Rightarrow> (e, None, [])
        | Inr c \<Rightarrow>
            (let e1 = e\<lparr> re_collectors := hput round_id c (re_collectors e) \<rparr> in
             if \<not> (is_complete c \<or> is_expired now c) then (e1, None, [])
             else case extract_message c of
               Some (Some payload) \<Rightarrow>
                 (let e2 = e1\<lparr> re_collectors := hdel round_id (re_collectors e1) \<rparr> in
                  case unpad_message P payload of
                    None \<Rightarrow> (e2, None, [])
                  | Some b \<Rightarrow> (e2, Some (MessageExtracted channel (text_or_binary b) round_id),
                      map (\<lambda>p. (p, DcRoundResult channel round_id payload [])) (rc_participants c)))
             | _ \<Rightarrow> (e1, None, []))))"

definition handle_round_result ::
  "prims \<Rightarrow> string \<Rightarrow> u64 \<Rightarrow> bytes \<Rightarrow> RoundEngine \<Rightarrow> RoundEngine \<times> RoundEvent option" where
  "handle_round_result P channel round_id extracted_message e =
     (case unpad_message P extracted_message of
        None \<Rightarrow> (e, None)
      | Some b \<Rightarrow> (e\<lparr> re_tracker := fst (mark_seen round_id (re_tracker e)) \<rparr>,
                   Some (MessageReceived channel (text_or_binary b) round_id)))"

text \<open>Only logs.\<close>
definition handle_sync_request :: "uid \<Rightarrow> string \<Rightarrow> RoundEvent option" where
  "handle_sync_request from_uid channel = None"

declare handle_sync_request_def [simp]

fun handle_incoming :: "prims \<Rightarrow> nat \<Rightarrow> PeerMessage \<Rightarrow> RoundContext \<Rightarrow> RoundEngine
    \<Rightarrow> RoundEngine \<times> RoundEvent option \<times> outgoing" where
  "handle_incoming P now (DcRoundStart channel round_id leader_id participants deadline_secs payload_len) ctx e =
     handle_round_start P channel round_id leader_id participants payload_len ctx e"
| "handle_incoming P now (DcRoundShare channel round_id peer_uid xored_payload signature) ctx e =
     handle_round_share P now channel round_id peer_uid xored_payload signature ctx e"
| "handle_incoming P now (DcRoundResult channel round_id extracted_message leader_signature) ctx e =
     (let (e1, ev) = handle_round_result P channel round_id extracted_message e in (e1, ev, []))"
| "handle_incoming P now (RoundSyncRequest from_uid channel) ctx e = (e, handle_sync_request from_uid channel, [])"
| "handle_incoming P now _ ctx e = (e, None, [])"

section \<open>The leader's collectors\<close>

definition engine_ok :: "RoundEngine \<Rightarrow> bool" where
  "engine_ok e \<longleftrightarrow> collectors_ok (re_collectors e)"

datatype engine_op =
    EngineQueue string
  | EngineStart nat string "uid list" RoundContext
  | EngineIncoming nat PeerMessage RoundContext

fun engine_step :: "prims \<Rightarrow> engine_op \<Rightarrow> RoundEngine \<Rightarrow> RoundEngine" where
  "engine_step P (EngineQueue m) e = engine_queue_message m e"
| "engine_step P (EngineStart now ch ps ctx) e = fst (start_round_as_leader P now ch ps ctx e)"
| "engine_step P (EngineIncoming now msg ctx) e = fst (handle_incoming P now msg ctx e)"

lemma submit_or_keep_ok:
  "collector_ok c \<Longrightarrow> collector_ok (case submit_share u x c of Inl _ \<Rightarrow> c | Inr c' \<Rightarrow> c')
    \<and> rc_round_id (case submit_share u x c of Inl _ \<Rightarrow> c | Inr c' \<Rightarrow> c') = rc_round_id c"
  by (auto simp: collector_ok_submit dest: submit_share_frame split: sum.split)

lemma start_round_as_leader_ok: "engine_ok e \<Longrightarrow> engine_ok (fst (start_round_as_leader P now ch ps ctx e))"
  by (auto simp: start_round_as_leader_def engine_ok_def Let_def submit_or_keep_ok split: prod.split option.split)

lemma handle_round_share_ok: "engine_ok e \<Longrightarrow> engine_ok (fst (handle_round_share P now ch r u x sig ctx e))"
proof -
  assume e: "engine_ok e"
  have "collectors_ok (hput r c (re_collectors e))"
    if "hget (re_collectors e) r = Some c1" "submit_share u x c1 = Inr c" for c c1
    using e that collector_ok_submit [of c1 u x c] submit_share_frame [of u x c1 c]
    by (intro collectors_ok_hput) (auto simp: engine_ok_def collectors_ok_def)
  with e show ?thesis
    by (auto simp: handle_round_share_def engine_ok_def Let_def split: option.split sum.split)
qed

lemma handle_incoming_ok: "engine_ok e \<Longrightarrow> engine_ok (fst (handle_incoming P now msg ctx e))"
  using handle_round_share_ok [of e P now]
  by (cases msg) (auto simp: handle_round_start_def handle_round_result_def Let_def
      engine_ok_def split: prod.split option.split)

interpretation engine: op_system "engine_step P" engine_ok for P :: prims
proof unfold_locales
  fix e op
  assume "engine_ok e"
  then show "engine_ok (engine_step P op e)"
    by (cases op) (simp_all add: handle_incoming_ok start_round_as_leader_ok, simp add: engine_ok_def engine_queue_message_def)
qed

section \<open>A leader round delivers\<close>

definition engine_idle :: "u64 \<Rightarrow> uid \<Rightarrow> string list \<Rightarrow> RoundEngine \<Rightarrow> bool" where
  "engine_idle r p queue e \<longleftrightarrow> re_my_uid e = p \<and> rt_current_round_id (re_tracker e) + 1 = r
     \<and> rt_message_queue (re_tracker e) = queue"

definition engine_share :: "prims \<Rightarrow> string \<Rightarrow> u64 \<Rightarrow> uid list \<Rightarrow> uid \<Rightarrow> string \<Rightarrow> (uid \<Rightarrow> bytes)
    \<Rightarrow> (uid \<Rightarrow> (uid, bytes) hmap) \<Rightarrow> uid \<Rightarrow> PeerMessage" where
  "engine_share P ch r ps s tx sk ek q =
     (let x = the (round_share P r ps s (str_bytes tx) DEFAULT_PAYLOAD_LEN ek q)
      in DcRoundShare ch r q x (sign_share P (sk q) ch r x))"

text \<open>Messages fed to an engine one after the other: final state, events and messages sent.\<close>
fun engine_run :: "prims \<Rightarrow> RoundContext \<Rightarrow> (nat \<times> PeerMessage) list \<Rightarrow> RoundEngine
    \<Rightarrow> RoundEngine \<times> RoundEvent list \<times> outgoing" where
  "engine_run P ctx [] e = (e, [], [])"
| "engine_run P ctx ((t, m) # ms) e =
     (let (e1, ev, out) = handle_incoming P t m ctx e; (e2, evs, outs) = engine_run P ctx ms e1
      in (e2, (case ev of None \<Rightarrow> [] | Some v \<Rightarrow> [v]) @ evs, out @ outs))"

lemma engine_share_step:
  assumes "hget (re_collectors e) r = Some c" and "t < rc_deadline c"
    and "\<not> share_refused P ctx ch r q x sig" and "submit_share q x c = Inr c'"
  shows "\<not> is_complete c' \<Longrightarrow> handle_incoming P t (DcRoundShare ch r q x sig) ctx e
      = (e\<lparr> re_collectors := hput r c' (re_collectors e) \<rparr>, None, [])"
    and "is_complete c' \<Longrightarrow> collected_text P c' = Some tx \<Longrightarrow> \<exists>payload e'.
      handle_incoming P t (DcRoundShare ch r q x sig) ctx e = (e', Some (MessageExtracted ch tx r),
        map (\<lambda>p. (p, DcRoundResult ch r payload [])) (rc_participants c))
      \<and> unpad_message P payload = Some (str_bytes tx)"
proof -
  have "\<not> is_expired t c'"
    using assms(2,4) by (auto simp: is_expired_def submit_share_Inr_iff)
  then show "\<not> is_complete c' \<Longrightarrow> handle_incoming P t (DcRoundShare ch r q x sig) ctx e
      = (e\<lparr> re_collectors := hput r c' (re_collectors e) \<rparr>, None, [])"
    using assms by (simp add: handle_round_share_def)
  assume "is_complete c'" "collected_text P c' = Some tx"
  moreover from this obtain payload b where "extract_message c' = Some (Some payload)"
    "unpad_message P payload = Some b" "from_utf8 b = Some tx"
    by (auto simp: collected_text_def split: option.splits)
  moreover from this have "b = str_bytes tx" by (auto simp: from_utf8_def split: if_splits)
  ultimately show "\<exists>payload e'.
      handle_incoming P t (DcRoundShare ch r q x sig) ctx e = (e', Some (MessageExtracted ch tx r),
        map (\<lambda>p. (p, DcRoundResult ch r payload [])) (rc_participants c))
      \<and> unpad_message P payload = Some (str_bytes tx)"
    using assms submit_share_frame [OF assms(4)]
    by (intro exI [of _ payload]) (simp add: handle_round_share_def text_or_binary_def Let_def)
qed

lemma engine_run_collects:
  assumes "hget (re_collectors e) r = Some c" and "collector_ok c"
    and "\<forall>(t, q) \<in> set ts. t < rc_deadline c \<and> \<not> share_refused P ctx ch r q (sh q) (sg q)
      \<and> length (sh q) = rc_payload_len c"
    and "distinct (map snd ts)" and "ts \<noteq> []"
    and "set (map snd ts) = set (missing_participants c)"
    and "collected_text P (c\<lparr> rc_shares_received := rc_shares_received c @ map (\<lambda>(t, q). (q, sh q)) ts \<rparr>) = Some tx"
  shows "\<exists>e' payload. engine_run P ctx (map (\<lambda>(t, q). (t, DcRoundShare ch r q (sh q) (sg q))) ts) e
      = (e', [MessageExtracted ch tx r], map (\<lambda>p. (p, DcRoundResult ch r payload [])) (rc_participants c))
      \<and> unpad_message P payload = Some (str_bytes tx)"
  using assms
proof (induction ts arbitrary: c e)
  case Nil
  then show ?case by simp
next
  case (Cons tq ts)
  obtain t q where tq: "tq = (t, q)" by (cases tq)
  let ?c = "c\<lparr> rc_shares_received := rc_shares_received c @ [(q, sh q)] \<rparr>"
  have sub: "submit_share q (sh q) c = Inr ?c"
    using Cons.prems(3,6) by (auto simp: tq submit_share_Inr_iff missing_participants_def)
  have ok: "collector_ok ?c" using Cons.prems(2) sub by (rule collector_ok_submit)
  have miss: "missing_participants ?c = filter (\<lambda>p. p \<noteq> q) (missing_participants c)"
    using missing_append [of c "[(q, sh q)]"] by simp
  have t: "t < rc_deadline c" "\<not> share_refused P ctx ch r q (sh q) (sg q)"
    using Cons.prems(3) by (auto simp: tq)
  note step = engine_share_step [OF Cons.prems(1) t sub]
  show ?case
  proof (cases "ts = []")
    case True
    then have "missing_participants ?c = []" using Cons.prems(6) by (auto simp: miss tq filter_empty_conv)
    then have "is_complete ?c" using is_complete_iff [OF ok] by simp
    moreover have "collected_text P ?c = Some tx" using Cons.prems(7) True by (simp add: tq)
    ultimately show ?thesis using step(2) [of tx] True by (auto simp: tq)
  next
    case False
    have ms: "set (map snd ts) = set (missing_participants ?c)"
      using Cons.prems(4,6) by (auto simp: miss tq)
    then have "missing_participants ?c \<noteq> []" using False by auto
    then have "\<not> is_complete ?c" using is_complete_iff [OF ok] by simp
    note h = step(1) [OF this]
    have "\<exists>e' payload. engine_run P ctx (map (\<lambda>(t, q). (t, DcRoundShare ch r q (sh q) (sg q))) ts)
          (e\<lparr> re_collectors := hput r ?c (re_collectors e) \<rparr>)
        = (e', [MessageExtracted ch tx r], map (\<lambda>p. (p, DcRoundResult ch r payload [])) (rc_participants ?c))
        \<and> unpad_message P payload = Some (str_bytes tx)"
      using Cons.prems(3,4,7) ok False ms by (intro Cons.IH) (auto simp: tq)
    then show ?thesis using h by (auto simp: tq)
  qed
qed

lemma queued_share:
  assumes "edges_agree key ek ps" and "2 \<le> length ps" and "p \<in> set ps" and "36 + length tx \<le> n"
  shows "compute_xor_share_secure P r p ps (if p = s then Some (str_bytes tx) else None) n (ek p)
      = Some (the (round_share P r ps s (str_bytes tx) n ek p))"
    and "length (the (round_share P r ps s (str_bytes tx) n ek p)) = n"
proof -
  obtain padded where pad: "pad_message P (str_bytes tx) n = Some padded"
    using pad_message_fits [of "str_bytes tx" n P] assms(4) by auto
  have "\<exists>x. round_share P r ps s (str_bytes tx) n ek p = Some x"
    using round_share_closed [OF assms(1-3) pad] by blast
  then show "compute_xor_share_secure P r p ps (if p = s then Some (str_bytes tx) else None) n (ek p)
      = Some (the (round_share P r ps s (str_bytes tx) n ek p))"
    by (auto simp: round_share_def)
  show "length (the (round_share P r ps s (str_bytes tx) n ek p)) = n"
    by (rule length_round_share [OF assms(1-3) pad])
qed

lemma idle_dequeue:
  assumes "engine_idle r p (if p = s then [tx] else []) e"
  shows "snd (dequeue_message ((re_tracker e)\<lparr> rt_current_round_id := i \<rparr>)) = (if p = s then Some tx else None)"
  using assms by (auto simp: engine_idle_def dequeue_message_def)

lemma engine_member_answers:
  assumes "edges_agree key ek ps" and "2 \<le> length ps" and "p \<in> set ps" and "36 + length tx \<le> DEFAULT_PAYLOAD_LEN"
    and "engine_idle r p (if p = s then [tx] else []) e"
  shows "\<exists>e'. handle_incoming P t (DcRoundStart ch r l ps 30 DEFAULT_PAYLOAD_LEN) (member_ctx sk ek kk p) e
      = (e', None, [(l, engine_share P ch r ps s tx sk ek p)])"
proof -
  have i: "re_my_uid e = p" "r = rt_current_round_id (re_tracker e) + 1"
    using assms(5) by (auto simp: engine_idle_def)
  have "map_option str_bytes (snd (dequeue_message (fst (mark_seen r (re_tracker e)))))
      = (if p = s then Some (str_bytes tx) else None)"
    using idle_dequeue [OF assms(5)] i by (simp add: mark_seen_def)
  then show ?thesis
    using queued_share [OF assms(1-4)] i
    by (simp add: handle_round_start_def member_ctx_def build_round_share_def engine_share_def split_beta Let_def)
      (simp add: mark_seen_def)
qed

lemma engine_leader_starts:
  assumes "edges_agree key ek ps" and "2 \<le> length ps" and "l \<in> set ps" and "36 + length tx \<le> DEFAULT_PAYLOAD_LEN"
    and "engine_idle r l (if l = s then [tx] else []) e"
  shows "\<exists>e'. start_round_as_leader P t ch ps (member_ctx sk ek kk l) e
        = (e', map (\<lambda>p. (p, DcRoundStart ch r l ps 30 DEFAULT_PAYLOAD_LEN)) ps)
    \<and> hget (re_collectors e') r = Some ((RoundCollector_new t ch r ps 30 DEFAULT_PAYLOAD_LEN)
        \<lparr> rc_shares_received := [(l, the (round_share P r ps s (str_bytes tx) DEFAULT_PAYLOAD_LEN ek l))] \<rparr>)"
proof -
  let ?new = "RoundCollector_new t ch r ps 30 DEFAULT_PAYLOAD_LEN"
  let ?x = "the (round_share P r ps s (str_bytes tx) DEFAULT_PAYLOAD_LEN ek l)"
  have i: "re_my_uid e = l" "r = rt_current_round_id (re_tracker e) + 1"
    using assms(5) by (auto simp: engine_idle_def)
  have "map_option str_bytes (snd (dequeue_message (fst (next_round (re_tracker e)))))
      = (if l = s then Some (str_bytes tx) else None)"
    using idle_dequeue [OF assms(5)] by (simp add: next_round_def Let_def)
  moreover have "submit_share l ?x ?new = Inr (?new\<lparr> rc_shares_received := [(l, ?x)] \<rparr>)"
    using assms(3) queued_share(2) [OF assms(1-4)]
    by (simp add: submit_share_Inr_iff has_key_def DEFAULT_PAYLOAD_LEN_def)
  ultimately show ?thesis
    using queued_share(1) [OF assms(1-4)] i
    by (simp add: start_round_as_leader_def member_ctx_def build_round_start_def MAX_ROUND_DEADLINE_SECS_def
        split_beta Let_def) (simp add: next_round_def Let_def)
qed

lemma engine_leader_extracts:
  assumes "sig_law P" and "keys_law P" and "directory_ok P sk kk"
    and "edges_agree key ek ps" and "2 \<le> length ps" and "distinct ps" and "s \<in> set ps" and "l \<in> set ps"
    and "36 + length tx \<le> DEFAULT_PAYLOAD_LEN" and "str_valid tx"
    and "mset (map snd ts) = mset (filter (\<lambda>q. q \<noteq> l) ps)" and "\<forall>(u, q) \<in> set ts. u < t + 30000"
    and "hget (re_collectors e) r = Some ((RoundCollector_new t ch r ps 30 DEFAULT_PAYLOAD_LEN)
        \<lparr> rc_shares_received := [(l, the (round_share P r ps s (str_bytes tx) DEFAULT_PAYLOAD_LEN ek l))] \<rparr>)"
  shows "\<exists>e' payload. engine_run P (member_ctx sk ek kk l)
        (map (\<lambda>(t, q). (t, engine_share P ch r ps s tx sk ek q)) ts) e
      = (e', [MessageExtracted ch tx r], map (\<lambda>p. (p, DcRoundResult ch r payload [])) ps)
    \<and> unpad_message P payload = Some (str_bytes tx)"
proof -
  let ?n = DEFAULT_PAYLOAD_LEN
  let ?sh = "\<lambda>q. the (round_share P r ps s (str_bytes tx) ?n ek q)"
  let ?new = "RoundCollector_new t ch r ps 30 ?n"
  let ?c = "?new\<lparr> rc_shares_received := [(l, ?sh l)] \<rparr>"
  have fields: "rc_participants ?c = ps" "rc_payload_len ?c = ?n" "rc_deadline ?c = t + 30000"
    using assms(6) by (simp_all add: distinct_remdups_id DEFAULT_PAYLOAD_LEN_def)
      (simp add: RoundCollector_new_def MAX_ROUND_DEADLINE_SECS_def)
  have "submit_share l (?sh l) ?new = Inr ?c"
    using assms(8) queued_share(2) [OF assms(4,5,8,9)]
    by (simp add: submit_share_Inr_iff has_key_def DEFAULT_PAYLOAD_LEN_def)
  then have ok: "collector_ok ?c" by (rule collector_ok_submit [OF collector_ok_new])
  have others: "set (map snd ts) = {q \<in> set ps. q \<noteq> l}" using assms(11) by (metis mset_eq_setD set_filter)
  have dist: "distinct (map snd ts)" using assms(6,11) by (metis distinct_filter mset_eq_imp_distinct_iff)
  have ne: "ts \<noteq> []"
    using assms(11) others_nonempty [OF assms(5,6)] by (metis list.simps(8) mset_zero_iff_right mset.simps(1))
  have miss: "set (map snd ts) = set (missing_participants ?c)"
    using others fields by (auto simp: missing_participants_def has_key_iff hkeys_def)
  have us: "mset (l # map snd ts) = mset ps"
    using mset_filter_ne [OF assms(6,8)] by (simp only: mset.simps assms(11))
  have col: "collected_text P (?c\<lparr> rc_shares_received := rc_shares_received ?c @ map (\<lambda>(t, q). (q, ?sh q)) ts \<rparr>)
      = Some tx"
    by (rule collected_round_text [OF assms(4-7,9) _ assms(10) us])
      (use fields in \<open>auto simp: DEFAULT_PAYLOAD_LEN_def comp_def split_beta\<close>)
  have "\<forall>(u, q) \<in> set ts. u < rc_deadline ?c
      \<and> \<not> share_refused P (member_ctx sk ek kk l) ch r q (?sh q) (sign_share P (sk q) ch r (?sh q))
      \<and> length (?sh q) = rc_payload_len ?c"
    unfolding fields using assms(12) others queued_share(2) [OF assms(4,5) _ assms(9)]
      honest_share_accepted [OF assms(1-3)] by fastforce
  from engine_run_collects [OF assms(13) ok this dist ne miss col] show ?thesis
    unfolding fields by (simp add: engine_share_def Let_def)
qed

text \<open>C28: A leader-based round delivers. In a group with matching edge keys, let one member (possibly the
  leader) have a text queued and the others nothing. The leader's start makes every other member
  answer with one signed share; once all of these have reached the leader, in any order and before
  the deadline, it reports the text and sends every participant a result from which each of them
  reports the same text.\<close>
theorem leader_round_delivers:
  assumes "sig_law P" and "keys_law P" and "directory_ok P sk kk"
    and "edges_agree key ek ps" and "2 \<le> length ps" and "distinct ps" and "s \<in> set ps" and "l \<in> set ps"
    and "36 + length tx \<le> DEFAULT_PAYLOAD_LEN" and "str_valid tx"
    and "\<forall>p \<in> set ps. engine_idle r p (if p = s then [tx] else []) (eng p)"
    and "mset (map snd ts) = mset (filter (\<lambda>q. q \<noteq> l) ps)" and "\<forall>(u, q) \<in> set ts. u < t + 30000"
  shows "(\<forall>p \<in> set ps - {l}. \<exists>e'. handle_incoming P t (DcRoundStart ch r l ps 30 DEFAULT_PAYLOAD_LEN)
        (member_ctx sk ek kk p) (eng p) = (e', None, [(l, engine_share P ch r ps s tx sk ek p)]))
    \<and> (\<exists>e1 e2 payload. start_round_as_leader P t ch ps (member_ctx sk ek kk l) (eng l)
        = (e1, map (\<lambda>p. (p, DcRoundStart ch r l ps 30 DEFAULT_PAYLOAD_LEN)) ps)
      \<and> engine_run P (member_ctx sk ek kk l) (map (\<lambda>(t, q). (t, engine_share P ch r ps s tx sk ek q)) ts) e1
        = (e2, [MessageExtracted ch tx r], map (\<lambda>p. (p, DcRoundResult ch r payload [])) ps)
      \<and> (\<forall>t' ctx sg e. fst (snd (handle_incoming P t' (DcRoundResult ch r payload sg) ctx e))
          = Some (MessageReceived ch tx r)))"
proof -
  have "\<exists>e'. handle_incoming P t (DcRoundStart ch r l ps 30 DEFAULT_PAYLOAD_LEN) (member_ctx sk ek kk p) (eng p)
      = (e', None, [(l, engine_share P ch r ps s tx sk ek p)])" if "p \<in> set ps" for p
    using assms(11) that by (intro engine_member_answers [OF assms(4,5) that assms(9)]) simp
  moreover obtain e1 where start: "start_round_as_leader P t ch ps (member_ctx sk ek kk l) (eng l)
        = (e1, map (\<lambda>p. (p, DcRoundStart ch r l ps 30 DEFAULT_PAYLOAD_LEN)) ps)"
    and c: "hget (re_collectors e1) r = Some ((RoundCollector_new t ch r ps 30 DEFAULT_PAYLOAD_LEN)
        \<lparr> rc_shares_received := [(l, the (round_share P r ps s (str_bytes tx) DEFAULT_PAYLOAD_LEN ek l))] \<rparr>)"
    using engine_leader_starts [OF assms(4,5,8,9)] assms(8,11) by blast
  moreover obtain e2 payload where "engine_run P (member_ctx sk ek kk l)
        (map (\<lambda>(t, q). (t, engine_share P ch r ps s tx sk ek q)) ts) e1
      = (e2, [MessageExtracted ch tx r], map (\<lambda>p. (p, DcRoundResult ch r payload [])) ps)"
    and pl: "unpad_message P payload = Some (str_bytes tx)"
    using engine_leader_extracts [OF assms(1-10,12,13) c] by blast
  moreover have "fst (snd (handle_incoming P t' (DcRoundResult ch r payload sg) ctx e))
      = Some (MessageReceived ch tx r)" for t' ctx sg e
    using pl assms(10) by (simp add: handle_round_result_def text_or_binary_def)
  ultimately show ?thesis by blast
qed

theorem leader_round_delivers_witness:
  "\<exists>e1 e2 payload. engine_run toy_prims (member_ctx demo_sk demo_keys demo_directory ''alice'')
      (map (\<lambda>(t, q). (t, engine_share toy_prims ''general'' 1 [''alice'', ''bob'', ''carol''] ''bob'' ''hi''
         demo_sk demo_keys q)) [(3, ''carol''), (4, ''bob'')]) e1
    = (e2, [MessageExtracted ''general'' ''hi'' 1],
       map (\<lambda>p. (p, DcRoundResult ''general'' 1 payload [])) [''alice'', ''bob'', ''carol''])"
proof -
  have "36 + length ''hi'' \<le> DEFAULT_PAYLOAD_LEN" by (simp add: DEFAULT_PAYLOAD_LEN_def)
  from leader_round_delivers [OF toy_sig toy_keys demo_setting(1) demo_edges _ _ _ _ this demo_setting(3),
      of "''bob''" "''alice''" 1 "\<lambda>p. if p = ''bob'' then engine_queue_message ''hi'' (RoundEngine_new 0 p)
        else RoundEngine_new 0 p" "[(3, ''carol''), (4, ''bob'')]" 0 "''general''"]
  show ?thesis
    by (auto simp: engine_idle_def RoundEngine_new_def RoundTracker_new_def engine_queue_message_def
        queue_message_def)
qed

text \<open>A round result is not authenticated. Whoever can send a member a result frame with a matching
  checksum, in any channel, for any round and with any leader signature, makes it report the text;
  if the round is the next one the member's counter moves past it, so the leader's genuine start for
  that round is then refused and the member contributes no share.\<close>
theorem forged_result_accepted:
  assumes "36 + length msg \<le> n" and "n \<le> 65536" and "r = rt_current_round_id (re_tracker e) + 1"
  shows "\<exists>payload e'. pad_message P msg n = Some payload
    \<and> handle_incoming P now (DcRoundResult ch r payload forged) ctx e
        = (e', Some (MessageReceived ch (text_or_binary msg) r), [])
    \<and> handle_incoming P now' (DcRoundStart ch r leader ps dl len) ctx e' = (e', None, [])"
proof -
  obtain payload where pad: "pad_message P msg n = Some payload" using pad_message_fits assms(1) by blast
  then have "unpad_message P payload = Some msg" by (rule unpad_pad) (use assms(1,2) in simp)
  with pad assms(3) show ?thesis
    by (simp add: handle_round_result_def handle_round_start_def mark_seen_def)
qed

theorem forged_result_accepted_witness:
  "\<exists>payload e'. pad_message toy_prims [104, 105] 64 = Some payload
    \<and> handle_incoming toy_prims 0 (DcRoundResult ''general'' 1 payload []) demo_ctx (RoundEngine_new 0 ''alice'')
        = (e', Some (MessageReceived ''general'' (text_or_binary [104, 105]) 1), [])
    \<and> handle_incoming toy_prims 1 (DcRoundStart ''general'' 1 ''bob'' [''alice'', ''bob''] 30 64) demo_ctx e'
        = (e', None, [])"
  by (rule forged_result_accepted) (simp_all add: RoundEngine_new_def RoundTracker_new_def)

end
