(* ===== verification/WebOfTrust.thy ===== *)
theory WebOfTrust
  imports Trust
begin

text \<open>
  \<^verbatim>\<open>pgp/web_of_trust.rs\<close>: signed trust statements, the in-place fixpoint that turns them into trust
  levels, the cache in front of it, and the breadth-first search for a trust path. The fixpoint loop
  has no bound in the code; it is a \<^verbatim>\<open>partial_function\<close> whose \<^const>\<open>None\<close> would mean that it never
  returns.
\<close>

section \<open>Data\<close>

record TrustSignature =
  ts_signer :: string
  ts_subject :: string
  ts_level :: u8
  ts_timestamp :: u64
  ts_data :: bytes

record WebOfTrust =
  wot_keys :: "(string, PgpIdentity) hmap"
  wot_signatures :: "TrustSignature list"
  wot_own :: "string list" \<comment> \<open>a hash set\<close>
  wot_introducers :: "string list"
  wot_overrides :: "(string, TrustLevel) hmap"
  wot_cache :: "(string, TrustLevel) hmap"
  wot_cache_valid :: bool

definition signature_message :: "string \<Rightarrow> u8 \<Rightarrow> u64 \<Rightarrow> bytes" where
  "signature_message subject_fp level timestamp =
     str_bytes ''chrono-wot-sign-v1'' @ be_bytes 4 (length subject_fp) @ str_bytes subject_fp
       @ [level] @ be_bytes 8 (unat timestamp)"

definition TrustSignature_create :: "prims \<Rightarrow> bytes \<Rightarrow> string \<Rightarrow> string \<Rightarrow> u8 \<Rightarrow> u64 \<Rightarrow> TrustSignature" where
  "TrustSignature_create P sk signer subject level timestamp =
     \<lparr> ts_signer = signer, ts_subject = subject, ts_level = level, ts_timestamp = timestamp,
       ts_data = ed_sign P sk (signature_message subject level timestamp) \<rparr>"

section \<open>Operations\<close>

definition WebOfTrust_new :: WebOfTrust where
  "WebOfTrust_new = \<lparr> wot_keys = [], wot_signatures = [], wot_own = [], wot_introducers = [],
     wot_overrides = [], wot_cache = [], wot_cache_valid = False \<rparr>"

definition invalidate_cache :: "WebOfTrust \<Rightarrow> WebOfTrust" where
  "invalidate_cache w = w\<lparr> wot_cache_valid := False, wot_cache := [] \<rparr>"

definition add_own_key :: "PgpIdentity \<Rightarrow> WebOfTrust \<Rightarrow> WebOfTrust" where
  "add_own_key ident w = invalidate_cache (w\<lparr> wot_own := List.insert (pgp_fingerprint ident) (wot_own w),
     wot_keys := hput (pgp_fingerprint ident) ident (wot_keys w) \<rparr>)"

definition add_key :: "PgpIdentity \<Rightarrow> WebOfTrust \<Rightarrow> WebOfTrust" where
  "add_key ident w = invalidate_cache (w\<lparr> wot_keys := hput (pgp_fingerprint ident) ident (wot_keys w) \<rparr>)"

definition wot_has_key :: "WebOfTrust \<Rightarrow> string \<Rightarrow> bool" where
  "wot_has_key w fp = has_key (wot_keys w) fp"

definition get_key :: "WebOfTrust \<Rightarrow> string \<Rightarrow> PgpIdentity option" where
  "get_key w fp = hget (wot_keys w) fp"

definition signature_is_valid :: "prims \<Rightarrow> WebOfTrust \<Rightarrow> TrustSignature \<Rightarrow> bool" where
  "signature_is_valid P w sig = (case hget (wot_keys w) (ts_signer sig) of
     None \<Rightarrow> False
   | Some signer \<Rightarrow> (case hex_decode32 (pgp_public_key_hex signer) of
       None \<Rightarrow> False
     | Some vk \<Rightarrow> ed_key_ok P vk \<and> ed_sig_ok P (ts_data sig) \<and>
         ed_verify P vk (signature_message (ts_subject sig) (ts_level sig) (ts_timestamp sig)) (ts_data sig)))"

definition add_signature :: "prims \<Rightarrow> TrustSignature \<Rightarrow> WebOfTrust \<Rightarrow> WebOfTrust \<times> bool" where
  "add_signature P sig w =
     (if \<not> has_key (wot_keys w) (ts_signer sig) \<or> \<not> has_key (wot_keys w) (ts_subject sig) then (w, False)
      else if list_ex (\<lambda>s. ts_signer s = ts_signer sig \<and> ts_subject s = ts_subject sig) (wot_signatures w)
      then (w, False)
      else if \<not> signature_is_valid P w sig then (w, False)
      else (invalidate_cache (w\<lparr> wot_signatures := wot_signatures w @ [sig] \<rparr>), True))"

definition remove_signature :: "string \<Rightarrow> string \<Rightarrow> WebOfTrust \<Rightarrow> WebOfTrust" where
  "remove_signature signer subject w = invalidate_cache (w\<lparr> wot_signatures :=
     filter (\<lambda>s. \<not> (ts_signer s = signer \<and> ts_subject s = subject)) (wot_signatures w) \<rparr>)"

definition set_manual_trust :: "string \<Rightarrow> TrustLevel \<Rightarrow> WebOfTrust \<Rightarrow> WebOfTrust" where
  "set_manual_trust fp level w = invalidate_cache (w\<lparr> wot_overrides := hput fp level (wot_overrides w) \<rparr>)"

section \<open>The trust computation\<close>

type_synonym trust_map = "(string, TrustLevel) hmap"

definition level_in :: "trust_map \<Rightarrow> string \<Rightarrow> TrustLevel" where
  "level_in t fp = (case hget t fp of None \<Rightarrow> Unknown | Some l \<Rightarrow> l)"

definition sig_level :: "TrustSignature \<Rightarrow> TrustLevel" where
  "sig_level s = from_i32 (uint (ts_level s))"

definition contribution :: "(string \<Rightarrow> TrustLevel) \<Rightarrow> TrustSignature \<Rightarrow> TrustLevel" where
  "contribution lev s = min (lev (ts_signer s)) (sig_level s)"

definition new_level :: "TrustSignature list \<Rightarrow> (string \<Rightarrow> TrustLevel) \<Rightarrow> string \<Rightarrow> TrustLevel" where
  "new_level sigs lev fp =
     (let cs = map (contribution lev) (filter (\<lambda>s. ts_subject s = fp) sigs);
          full = length (filter (\<lambda>c. c \<ge> Full) cs);
          marginal = length (filter (\<lambda>c. \<not> c \<ge> Full \<and> c \<ge> Marginal) cs) in
      if full \<ge> 1 \<or> marginal \<ge> 2 then Full else if marginal \<ge> 1 then Marginal else Unknown)"

definition pinned :: "WebOfTrust \<Rightarrow> string \<Rightarrow> bool" where
  "pinned w fp \<longleftrightarrow> List.member (wot_own w) fp \<or> has_key (wot_overrides w) fp"

text \<open>The body of \<^verbatim>\<open>for fp in self.keys.keys()\<close> and one pass of the outer loop.\<close>
definition trust_step ::
  "WebOfTrust \<Rightarrow> TrustSignature list \<Rightarrow> string \<Rightarrow> trust_map \<times> bool \<Rightarrow> trust_map \<times> bool" where
  "trust_step w sigs fp st =
     (if pinned w fp then st
      else let n = new_level sigs (level_in (fst st)) fp in
        if n \<noteq> level_in (fst st) fp then (hput fp n (fst st), True) else st)"

definition trust_pass :: "WebOfTrust \<Rightarrow> TrustSignature list \<Rightarrow> trust_map \<Rightarrow> trust_map \<times> bool" where
  "trust_pass w sigs t = fold (trust_step w sigs) (hkeys (wot_keys w)) (t, False)"

partial_function (option) trust_loop ::
  "WebOfTrust \<Rightarrow> TrustSignature list \<Rightarrow> trust_map \<Rightarrow> trust_map option" where
  "trust_loop w sigs t =
     (if snd (trust_pass w sigs t) then trust_loop w sigs (fst (trust_pass w sigs t))
      else Some (fst (trust_pass w sigs t)))"

declare trust_loop.simps [code]

definition initial_trust :: "WebOfTrust \<Rightarrow> trust_map" where
  "initial_trust w = fold (\<lambda>(fp, lv) t. hput fp lv t) (wot_overrides w)
     (fold (\<lambda>fp t. hput fp Ultimate t) (wot_own w) [])"

definition compute_trust_map :: "prims \<Rightarrow> WebOfTrust \<Rightarrow> trust_map option" where
  "compute_trust_map P w =
     trust_loop w (filter (signature_is_valid P w) (wot_signatures w)) (initial_trust w)"

text \<open>\<^const>\<open>None\<close> only if the fixpoint loop does not return.\<close>
definition calculate_trust :: "prims \<Rightarrow> string \<Rightarrow> WebOfTrust \<Rightarrow> (WebOfTrust \<times> TrustLevel) option" where
  "calculate_trust P fp w = (case hget (wot_overrides w) fp of
     Some level \<Rightarrow> Some (w, level)
   | None \<Rightarrow>
       if List.member (wot_own w) fp then Some (w, Ultimate)
       else if wot_cache_valid w then Some (w, level_in (wot_cache w) fp)
       else (case compute_trust_map P w of
         None \<Rightarrow> None
       | Some t \<Rightarrow> Some (w\<lparr> wot_cache := t, wot_cache_valid := True \<rparr>, level_in t fp)))"

fun keys_at_level_loop ::
  "prims \<Rightarrow> TrustLevel \<Rightarrow> string list \<Rightarrow> WebOfTrust \<Rightarrow> (WebOfTrust \<times> PgpIdentity list) option" where
  "keys_at_level_loop P m [] w = Some (w, [])"
| "keys_at_level_loop P m (fp # fps) w = (case calculate_trust P fp w of
     None \<Rightarrow> None
   | Some (w1, level) \<Rightarrow> (case keys_at_level_loop P m fps w1 of
       None \<Rightarrow> None
     | Some (w2, ids) \<Rightarrow> Some (w2,
         (if level \<ge> m then (case hget (wot_keys w1) fp of None \<Rightarrow> ids | Some k \<Rightarrow> k # ids) else ids))))"

definition keys_at_level :: "prims \<Rightarrow> TrustLevel \<Rightarrow> WebOfTrust \<Rightarrow> (WebOfTrust \<times> PgpIdentity list) option" where
  "keys_at_level P m w = keys_at_level_loop P m (hkeys (wot_keys w)) w"

definition key_count :: "WebOfTrust \<Rightarrow> nat" where "key_count w = length (wot_keys w)"

definition signature_count :: "WebOfTrust \<Rightarrow> nat" where "signature_count w = length (wot_signatures w)"

section \<open>The path search\<close>

text \<open>The inner \<^verbatim>\<open>for sig in &self.signatures\<close>: queue and visited set after it.\<close>
fun scan_signatures :: "prims \<Rightarrow> WebOfTrust \<Rightarrow> string \<Rightarrow> string list \<Rightarrow> TrustSignature list
    \<Rightarrow> (string \<times> string list) list \<Rightarrow> string list \<Rightarrow> (string \<times> string list) list \<times> string list" where
  "scan_signatures P w current path [] queue visited = (queue, visited)"
| "scan_signatures P w current path (s # sigs) queue visited =
     (if ts_signer s = current \<and> \<not> List.member visited (ts_subject s) \<and> signature_is_valid P w s
      then scan_signatures P w current path sigs (queue @ [(ts_subject s, path @ [ts_subject s])])
             (ts_subject s # visited)
      else scan_signatures P w current path sigs queue visited)"

definition subjects :: "WebOfTrust \<Rightarrow> string set" where
  "subjects w = set (map ts_subject (wot_signatures w))"

lemma scan_signatures_measure:
  "set (map ts_subject sigs) \<subseteq> S \<Longrightarrow> finite S \<Longrightarrow>
   scan_signatures P w c p sigs q v = (q', v') \<Longrightarrow> length q' + card (S - set v') \<le> length q + card (S - set v)"
proof (induction P w c p sigs q v rule: scan_signatures.induct)
  case (2 P w c p s sigs q v)
  show ?case
  proof (cases "ts_signer s = c \<and> \<not> List.member v (ts_subject s) \<and> signature_is_valid P w s")
    case True
    then have "ts_subject s \<in> S - set v" using "2.prems"(1) by simp
    moreover have "S - set (ts_subject s # v) = S - set v - {ts_subject s}" by auto
    ultimately have "Suc (card (S - set (ts_subject s # v))) = card (S - set v)"
      using card_Suc_Diff1 [of "S - set v" "ts_subject s"] "2.prems"(2) by simp
    moreover have "length q' + card (S - set v')
        \<le> length (q @ [(ts_subject s, p @ [ts_subject s])]) + card (S - set (ts_subject s # v))"
      by (rule 2(1) [OF True]) (use "2.prems" True in auto)
    ultimately show ?thesis by simp
  next
    case False
    show ?thesis by (rule 2(2) [OF False]) (use "2.prems" False in \<open>auto split: if_splits\<close>)
  qed
qed simp

function path_bfs :: "prims \<Rightarrow> WebOfTrust \<Rightarrow> string \<Rightarrow> (string \<times> string list) list \<Rightarrow> string list
    \<Rightarrow> string list option" where
  "path_bfs P w fp [] visited = None"
| "path_bfs P w fp ((current, path) # queue) visited =
     (if current = fp then Some path
      else case scan_signatures P w current path (wot_signatures w) queue visited of
        (queue', visited') \<Rightarrow> path_bfs P w fp queue' visited')"
  by pat_completeness auto
termination
proof (relation "measure (\<lambda>(P, w, fp, q, v). length q + card (subjects w - set v))", goal_cases)
  case 1
  show ?case by simp
next
  case (2 P w fp current path queue visited x y)
  then have "length x + card (subjects w - set y) \<le> length queue + card (subjects w - set visited)"
    by (intro scan_signatures_measure [of "wot_signatures w" _ P w current path]) (simp_all add: subjects_def)
  then show ?case by simp
qed

text \<open>\<^verbatim>\<open>fingerprint_short\<close> of this module; its slices panic inside a multi-byte character.\<close>
definition fp_short :: "string \<Rightarrow> string option" where
  "fp_short fp = (if length fp \<le> 12 then Some fp else ends_of 6 ''..'' fp)"

text \<open>\<^const>\<open>None\<close> is a panic of the shortening.\<close>
definition trust_path :: "prims \<Rightarrow> WebOfTrust \<Rightarrow> string \<Rightarrow> string list option" where
  "trust_path P w fp =
     (if List.member (wot_own w) fp
      then map_option (\<lambda>s. [''(you) == '' @ s]) (fp_short fp)
      else case path_bfs P w fp (map (\<lambda>o_fp. (o_fp, [o_fp])) (wot_own w)) (wot_own w) of
        Some path \<Rightarrow> those (map fp_short path)
      | None \<Rightarrow> Some [''(no trust path found)''])"

section \<open>Levels only grow\<close>

lemma contribution_mono: "\<forall>x. f x \<le> g x \<Longrightarrow> contribution f s \<le> contribution g s"
  by (auto simp: contribution_def min_le_iff_disj)

abbreviation votes :: "TrustLevel \<Rightarrow> TrustSignature list \<Rightarrow> (string \<Rightarrow> TrustLevel) \<Rightarrow> string \<Rightarrow> nat" where
  "votes l sigs f fp \<equiv> length (filter (\<lambda>s. ts_subject s = fp \<and> l \<le> contribution f s) sigs)"

lemma length_filter_mono: "(\<And>x. x \<in> set xs \<Longrightarrow> P x \<Longrightarrow> Q x) \<Longrightarrow> length (filter P xs) \<le> length (filter Q xs)"
  by (induction xs) (auto intro: le_SucI)

lemma votes_mono: "\<forall>x. f x \<le> g x \<Longrightarrow> votes l sigs f fp \<le> votes l sigs g fp"
  by (intro length_filter_mono) (meson contribution_mono order_trans)

lemma new_level_votes:
  "new_level sigs f fp =
     (if 1 \<le> votes Full sigs f fp \<or> 2 \<le> votes Marginal sigs f fp then Full
      else if 1 \<le> votes Marginal sigs f fp then Marginal else Unknown)"
proof -
  let ?m = "length (filter (\<lambda>s. ts_subject s = fp \<and> \<not> Full \<le> contribution f s \<and> Marginal \<le> contribution f s) sigs)"
  have "votes Marginal sigs f fp = ?m + votes Full sigs f fp"
  proof (induction sigs)
    case (Cons s sigs)
    have "Full \<le> contribution f s \<Longrightarrow> Marginal \<le> contribution f s" by (meson level_le_simps(5) order_trans)
    with Cons show ?case by auto
  qed simp
  then show ?thesis
    by (auto simp: new_level_def Let_def filter_map comp_def conj_commute conj_left_commute)
qed

lemma new_level_mono: "\<forall>x. f x \<le> g x \<Longrightarrow> new_level sigs f fp \<le> new_level sigs g fp"
  using votes_mono [of f g fp Full sigs] votes_mono [of f g fp Marginal sigs]
  by (auto simp: new_level_votes)

lemma new_level_range: "Unknown \<le> new_level sigs f fp \<and> new_level sigs f fp \<le> Full"
  by (simp add: new_level_votes)

section \<open>The loop computes the least fixpoint\<close>

text \<open>An assignment of levels that is stable under the rules and respects the pinned keys.\<close>
definition base_level :: "WebOfTrust \<Rightarrow> string \<Rightarrow> TrustLevel" where
  "base_level w fp = (case hget (wot_overrides w) fp of
     Some l \<Rightarrow> l | None \<Rightarrow> if fp \<in> set (wot_own w) then Ultimate else Unknown)"

definition closed_under :: "WebOfTrust \<Rightarrow> TrustSignature list \<Rightarrow> (string \<Rightarrow> TrustLevel) \<Rightarrow> bool" where
  "closed_under w sigs u \<longleftrightarrow> (\<forall>fp. base_level w fp \<le> u fp) \<and>
     (\<forall>fp. has_key (wot_keys w) fp \<and> \<not> pinned w fp \<longrightarrow> new_level sigs u fp \<le> u fp)"

definition growing :: "WebOfTrust \<Rightarrow> TrustSignature list \<Rightarrow> trust_map \<Rightarrow> bool" where
  "growing w sigs t \<longleftrightarrow>
     (\<forall>fp. if has_key (wot_keys w) fp \<and> \<not> pinned w fp then level_in t fp \<le> new_level sigs (level_in t) fp
          else level_in t fp = base_level w fp)
     \<and> (\<forall>u. closed_under w sigs u \<longrightarrow> (\<forall>fp. level_in t fp \<le> u fp))"

lemma level_in_hput [simp]: "level_in (hput fp l t) q = (if q = fp then l else level_in t q)"
  by (simp add: level_in_def)

lemma trust_step_grows:
  assumes "growing w sigs (fst st)" and "has_key (wot_keys w) fp"
  shows "growing w sigs (fst (trust_step w sigs fp st))
    \<and> (\<forall>q. level_in (fst st) q \<le> level_in (fst (trust_step w sigs fp st)) q)"
proof (cases "pinned w fp \<or> new_level sigs (level_in (fst st)) fp = level_in (fst st) fp")
  case True
  with assms(1) show ?thesis by (auto simp: trust_step_def Let_def)
next
  case False
  let ?t = "fst st" and ?n = "new_level sigs (level_in (fst st)) fp"
  have step: "fst (trust_step w sigs fp st) = hput fp ?n ?t"
    using False by (auto simp: trust_step_def Let_def)
  have le: "\<forall>q. level_in ?t q \<le> level_in (hput fp ?n ?t) q"
    using assms False by (auto simp: growing_def)
  have up: "new_level sigs (level_in ?t) q \<le> new_level sigs (level_in (hput fp ?n ?t)) q" for q
    by (rule new_level_mono [OF le])
  have "level_in (hput fp ?n ?t) q \<le> u q" if u: "closed_under w sigs u" for u q
  proof -
    have below: "\<forall>q. level_in ?t q \<le> u q" using assms(1) u by (simp add: growing_def)
    then have "?n \<le> new_level sigs u fp" by (rule new_level_mono)
    also have "\<dots> \<le> u fp" using u assms(2) False by (simp add: closed_under_def)
    finally show ?thesis using below by simp
  qed
  moreover have "level_in (hput fp ?n ?t) q \<le> new_level sigs (level_in (hput fp ?n ?t)) q"
    if "has_key (wot_keys w) q \<and> \<not> pinned w q" for q
  proof (cases "q = fp")
    case True
    then show ?thesis using up [of fp] by simp
  next
    case q: False
    have "level_in ?t q \<le> new_level sigs (level_in ?t) q" using assms(1) that by (simp add: growing_def)
    also note up [of q]
    finally show ?thesis using q by simp
  qed
  moreover have "level_in (hput fp ?n ?t) q = base_level w q" if "\<not> (has_key (wot_keys w) q \<and> \<not> pinned w q)" for q
    using that assms False by (auto simp: growing_def)
  ultimately show ?thesis unfolding step using le by (auto simp: growing_def)
qed

lemma trust_fold_grows:
  assumes "growing w sigs (fst st)" and "\<forall>fp \<in> set fps. has_key (wot_keys w) fp"
  shows "growing w sigs (fst (fold (trust_step w sigs) fps st))
    \<and> (\<forall>q. level_in (fst st) q \<le> level_in (fst (fold (trust_step w sigs) fps st)) q)"
  using assms
proof (induction fps arbitrary: st)
  case Nil
  then show ?case by simp
next
  case (Cons fp fps)
  have s: "growing w sigs (fst (trust_step w sigs fp st))
      \<and> (\<forall>q. level_in (fst st) q \<le> level_in (fst (trust_step w sigs fp st)) q)"
    using Cons.prems by (intro trust_step_grows) simp_all
  then have "growing w sigs (fst (fold (trust_step w sigs) fps (trust_step w sigs fp st)))
      \<and> (\<forall>q. level_in (fst (trust_step w sigs fp st)) q
          \<le> level_in (fst (fold (trust_step w sigs) fps (trust_step w sigs fp st))) q)"
    using Cons by simp
  with s show ?case by (auto intro: order_trans)
qed

lemma trust_fold_flag: "snd st \<Longrightarrow> snd (fold (trust_step w sigs) fps st)"
proof (induction fps arbitrary: st)
  case (Cons fp fps)
  have "snd (trust_step w sigs fp st)" using Cons.prems by (simp add: trust_step_def Let_def)
  with Cons.IH show ?case by simp
qed simp

lemma trust_fold_stable:
  "\<not> snd (fold (trust_step w sigs) fps st) \<Longrightarrow> fold (trust_step w sigs) fps st = st \<and>
     (\<forall>fp \<in> set fps. \<not> pinned w fp \<longrightarrow> level_in (fst st) fp = new_level sigs (level_in (fst st)) fp)"
proof (induction fps arbitrary: st)
  case Nil
  then show ?case by simp
next
  case (Cons fp fps)
  from Cons.prems have n: "\<not> snd (fold (trust_step w sigs) fps (trust_step w sigs fp st))" by simp
  then have "\<not> snd (trust_step w sigs fp st)" using trust_fold_flag by blast
  then have "trust_step w sigs fp st = st \<and> (\<not> pinned w fp \<longrightarrow> level_in (fst st) fp = new_level sigs (level_in (fst st)) fp)"
    by (auto simp: trust_step_def Let_def split: if_splits)
  with Cons.IH [OF n] show ?case by simp
qed

lemma trust_fold_changed:
  assumes "growing w sigs (fst st)" and "\<forall>fp \<in> set fps. has_key (wot_keys w) fp"
    and "\<not> snd st" and "snd (fold (trust_step w sigs) fps st)"
  shows "\<exists>fp \<in> set fps. level_in (fst st) fp < level_in (fst (fold (trust_step w sigs) fps st)) fp"
  using assms
proof (induction fps arbitrary: st)
  case Nil
  then show ?case by simp
next
  case (Cons fp fps)
  let ?st = "trust_step w sigs fp st"
  have g: "growing w sigs (fst ?st) \<and> (\<forall>q. level_in (fst st) q \<le> level_in (fst ?st) q)"
    using Cons.prems by (intro trust_step_grows) simp_all
  show ?case
  proof (cases "snd ?st")
    case True
    with Cons.prems(3) have "level_in (fst ?st) fp \<noteq> level_in (fst st) fp"
      by (auto simp: trust_step_def Let_def split: if_splits)
    with g have "level_in (fst st) fp < level_in (fst ?st) fp" by (metis order_less_le)
    moreover have "level_in (fst ?st) fp \<le> level_in (fst (fold (trust_step w sigs) fps ?st)) fp"
      using trust_fold_grows [of w sigs ?st fps] g Cons.prems(2) by simp
    ultimately have "level_in (fst st) fp < level_in (fst (fold (trust_step w sigs) fps ?st)) fp"
      by (rule order_less_le_trans)
    then show ?thesis by simp
  next
    case False
    then have "?st = st" by (auto simp: trust_step_def Let_def split: if_splits)
    with Cons False show ?thesis by auto
  qed
qed

fun rank :: "TrustLevel \<Rightarrow> nat" where
  "rank l = nat (to_i32 l + 1)"

lemma rank_mono: "a \<le> b \<Longrightarrow> rank a \<le> rank b" and rank_strict: "a < b \<Longrightarrow> rank a < rank b"
  and rank_bound: "rank a \<le> 4"
  by (cases a; cases b; simp add: level_order)+

definition potential :: "WebOfTrust \<Rightarrow> trust_map \<Rightarrow> nat" where
  "potential w t = (\<Sum>fp \<in> set (hkeys (wot_keys w)). rank (level_in t fp))"

lemma potential_bound: "potential w t \<le> 4 * card (set (hkeys (wot_keys w)))"
  using sum_bounded_above [of "set (hkeys (wot_keys w))" "\<lambda>fp. rank (level_in t fp)" 4] rank_bound
  by (simp add: potential_def mult.commute del: rank.simps)

lemma trust_pass_grows:
  assumes "growing w sigs t"
  shows "growing w sigs (fst (trust_pass w sigs t))"
    and "snd (trust_pass w sigs t) \<Longrightarrow> potential w t < potential w (fst (trust_pass w sigs t))"
    and "\<not> snd (trust_pass w sigs t) \<Longrightarrow> fst (trust_pass w sigs t) = t \<and> (\<forall>fp. has_key (wot_keys w) fp \<longrightarrow>
      \<not> pinned w fp \<longrightarrow> level_in t fp = new_level sigs (level_in t) fp)"
proof -
  let ?ks = "hkeys (wot_keys w)"
  have keys: "\<forall>fp \<in> set ?ks. has_key (wot_keys w) fp" by (simp add: has_key_iff)
  have g: "growing w sigs (fst (trust_pass w sigs t)) \<and> (\<forall>q. level_in t q \<le> level_in (fst (trust_pass w sigs t)) q)"
    unfolding trust_pass_def using trust_fold_grows [of w sigs "(t, False)", OF _ keys] assms by simp
  then show "growing w sigs (fst (trust_pass w sigs t))" by simp
  show "\<not> snd (trust_pass w sigs t) \<Longrightarrow> fst (trust_pass w sigs t) = t \<and> (\<forall>fp. has_key (wot_keys w) fp \<longrightarrow>
      \<not> pinned w fp \<longrightarrow> level_in t fp = new_level sigs (level_in t) fp)"
    unfolding trust_pass_def using trust_fold_stable [of w sigs ?ks "(t, False)"] by (simp add: has_key_iff)
  assume "snd (trust_pass w sigs t)"
  then obtain fp where "fp \<in> set ?ks" "level_in t fp < level_in (fst (trust_pass w sigs t)) fp"
    unfolding trust_pass_def using trust_fold_changed [of w sigs "(t, False)", OF _ keys] assms by auto
  with g show "potential w t < potential w (fst (trust_pass w sigs t))"
    unfolding potential_def by (intro sum_strict_mono_ex1) (auto simp del: rank.simps intro: rank_mono rank_strict)
qed

lemma trust_loop_returns:
  "growing w sigs t \<Longrightarrow> \<exists>t'. trust_loop w sigs t = Some t' \<and> growing w sigs t' \<and>
     (\<forall>fp. has_key (wot_keys w) fp \<longrightarrow> \<not> pinned w fp \<longrightarrow> level_in t' fp = new_level sigs (level_in t') fp)"
proof (induction "4 * card (set (hkeys (wot_keys w))) - potential w t" arbitrary: t rule: less_induct)
  case less
  note pass = trust_pass_grows [OF less.prems]
  show ?case
  proof (cases "snd (trust_pass w sigs t)")
    case True
    let ?t = "fst (trust_pass w sigs t)"
    have "4 * card (set (hkeys (wot_keys w))) - potential w ?t < 4 * card (set (hkeys (wot_keys w))) - potential w t"
      using pass(2) [OF True] potential_bound [of w ?t] by linarith
    from less.hyps [OF this pass(1)] True show ?thesis by (simp add: trust_loop.simps [of w sigs t])
  next
    case False
    with pass show ?thesis by (simp add: trust_loop.simps [of w sigs t])
  qed
qed

lemma fold_hput_const: "hget (fold (\<lambda>fp t. hput fp l t) fps t) q = (if q \<in> set fps then Some l else hget t q)"
  by (induction fps arbitrary: t) auto

lemma fold_hput_pairs:
  "hwf m \<Longrightarrow> hget (fold (\<lambda>(fp, l) t. hput fp l t) m t) q = (case hget m q of Some l \<Rightarrow> Some l | None \<Rightarrow> hget t q)"
proof (induction m arbitrary: t)
  case Nil
  then show ?case by simp
next
  case (Cons kl m)
  then have "hwf m" "fst kl \<notin> fst ` set m" by (auto simp: hwf_def hkeys_def)
  moreover from this have "hget m (fst kl) = None" by (simp add: map_of_eq_None_iff)
  ultimately show ?case using Cons.IH by (auto split: prod.split option.split)
qed

lemma level_initial: "hwf (wot_overrides w) \<Longrightarrow> level_in (initial_trust w) fp = base_level w fp"
  by (simp add: initial_trust_def level_in_def base_level_def fold_hput_pairs fold_hput_const split: option.split)

lemma initial_growing: "hwf (wot_overrides w) \<Longrightarrow> growing w sigs (initial_trust w)"
  using new_level_range
  by (auto simp: growing_def level_initial closed_under_def base_level_def pinned_def has_key_def split: option.splits)

lemma base_le_fixpoint:
  assumes "growing w sigs t"
    and "\<forall>fp. has_key (wot_keys w) fp \<longrightarrow> \<not> pinned w fp \<longrightarrow> level_in t fp = new_level sigs (level_in t) fp"
  shows "closed_under w sigs (level_in t)"
proof -
  have "base_level w fp \<le> level_in t fp" for fp
  proof (cases "has_key (wot_keys w) fp \<and> \<not> pinned w fp")
    case True
    then have "base_level w fp = Unknown" by (auto simp: base_level_def pinned_def has_key_def)
    then show ?thesis using assms(2) True new_level_range by simp
  next
    case False
    then show ?thesis using assms(1) by (auto simp: growing_def)
  qed
  then show ?thesis using assms(2) by (simp add: closed_under_def)
qed

lemma compute_trust_map_least:
  assumes "hwf (wot_overrides w)"
  shows "\<exists>t. compute_trust_map P w = Some t
    \<and> closed_under w (filter (signature_is_valid P w) (wot_signatures w)) (level_in t)
    \<and> (\<forall>u. closed_under w (filter (signature_is_valid P w) (wot_signatures w)) u \<longrightarrow> (\<forall>fp. level_in t fp \<le> u fp))
    \<and> (\<forall>fp. has_key (wot_keys w) fp \<longrightarrow> \<not> pinned w fp \<longrightarrow>
        level_in t fp = new_level (filter (signature_is_valid P w) (wot_signatures w)) (level_in t) fp)
    \<and> (\<forall>fp. pinned w fp \<or> \<not> has_key (wot_keys w) fp \<longrightarrow> level_in t fp = base_level w fp)"
proof -
  let ?sigs = "filter (signature_is_valid P w) (wot_signatures w)"
  obtain t where t: "trust_loop w ?sigs (initial_trust w) = Some t" "growing w ?sigs t"
    "\<forall>fp. has_key (wot_keys w) fp \<longrightarrow> \<not> pinned w fp \<longrightarrow> level_in t fp = new_level ?sigs (level_in t) fp"
    using trust_loop_returns [OF initial_growing [OF assms]] by blast
  moreover from t(2) have "\<forall>u. closed_under w ?sigs u \<longrightarrow> (\<forall>fp. level_in t fp \<le> u fp)"
    and "\<forall>fp. pinned w fp \<or> \<not> has_key (wot_keys w) fp \<longrightarrow> level_in t fp = base_level w fp"
    by (auto simp: growing_def)
  ultimately show ?thesis using base_le_fixpoint [OF t(2,3)] by (auto simp: compute_trust_map_def)
qed

text \<open>C14: The trust computation always returns, and returns the least assignment of levels that respects
  own keys and manual overrides and is closed under the web-of-trust rules over the signatures that
  verify; at every other key the rules hold with equality. Cycles of signatures therefore neither
  loop nor create trust out of nothing.\<close>
theorem trust_map_least_fixpoint:
  assumes "hwf (wot_overrides w)"
  shows "\<exists>t. compute_trust_map P w = Some t
    \<and> closed_under w (filter (signature_is_valid P w) (wot_signatures w)) (level_in t)
    \<and> (\<forall>u. closed_under w (filter (signature_is_valid P w) (wot_signatures w)) u \<longrightarrow> (\<forall>fp. level_in t fp \<le> u fp))
    \<and> (\<forall>fp. has_key (wot_keys w) fp \<and> \<not> pinned w fp \<longrightarrow>
        level_in t fp = new_level (filter (signature_is_valid P w) (wot_signatures w)) (level_in t) fp)"
  using compute_trust_map_least [OF assms, of P] by blast

theorem trust_map_least_fixpoint_witness: "\<exists>t. compute_trust_map toy_prims WebOfTrust_new = Some t"
  using trust_map_least_fixpoint [of WebOfTrust_new toy_prims] by (auto simp: WebOfTrust_new_def)

section \<open>Iteration order is irrelevant\<close>

definition same_web :: "WebOfTrust \<Rightarrow> WebOfTrust \<Rightarrow> bool" where
  "same_web w w' \<longleftrightarrow> map_of (wot_keys w) = map_of (wot_keys w') \<and> map_of (wot_overrides w) = map_of (wot_overrides w')
     \<and> set (wot_own w) = set (wot_own w') \<and> mset (wot_signatures w) = mset (wot_signatures w')"

lemma votes_mset: "mset sigs = mset sigs' \<Longrightarrow> votes l sigs f fp = votes l sigs' f fp"
  by (metis mset_filter size_mset)

lemma same_web_closed:
  assumes "same_web w w'"
  shows "closed_under w (filter (signature_is_valid P w) (wot_signatures w)) u =
    closed_under w' (filter (signature_is_valid P w') (wot_signatures w')) u"
proof -
  have v: "signature_is_valid P w = signature_is_valid P w'"
    using assms by (simp add: fun_eq_iff signature_is_valid_def same_web_def)
  have "mset (filter (signature_is_valid P w) (wot_signatures w)) =
      mset (filter (signature_is_valid P w') (wot_signatures w'))"
    unfolding v using assms by (simp add: same_web_def)
  then have "votes l (filter (signature_is_valid P w) (wot_signatures w)) f fp =
      votes l (filter (signature_is_valid P w') (wot_signatures w')) f fp" for l f fp
    by (rule votes_mset)
  then have "new_level (filter (signature_is_valid P w) (wot_signatures w)) =
      new_level (filter (signature_is_valid P w') (wot_signatures w'))"
    by (intro ext) (simp only: new_level_votes)
  moreover have "base_level w = base_level w'" "pinned w = pinned w'" "has_key (wot_keys w) = has_key (wot_keys w')"
    using assms by (simp_all add: fun_eq_iff base_level_def pinned_def has_key_def same_web_def)
  ultimately show ?thesis by (simp add: closed_under_def)
qed

lemma same_web_levels:
  assumes "same_web w w'" and "hwf (wot_overrides w)" and "hwf (wot_overrides w')"
    and "compute_trust_map P w = Some t" and "compute_trust_map P w' = Some t'"
  shows "level_in t fp = level_in t' fp"
proof -
  let ?C = "\<lambda>w. closed_under w (filter (signature_is_valid P w) (wot_signatures w))"
  have "?C w (level_in t)" "\<forall>u. ?C w u \<longrightarrow> (\<forall>fp. level_in t fp \<le> u fp)"
    using compute_trust_map_least [OF assms(2), of P] assms(4) by auto
  moreover have "?C w' (level_in t')" "\<forall>u. ?C w' u \<longrightarrow> (\<forall>fp. level_in t' fp \<le> u fp)"
    using compute_trust_map_least [OF assms(3), of P] assms(5) by auto
  ultimately show ?thesis
    using same_web_closed [OF assms(1), of P] by (metis order_antisym)
qed

text \<open>C15: Trust does not depend on the order in which hash maps and sets are iterated or signatures were
  added. Two webs with the same keys, overrides, own keys and signatures assign every fingerprint the
  same level.\<close>
theorem trust_order_independent:
  assumes "same_web w w'" and "hwf (wot_overrides w)" and "hwf (wot_overrides w')"
  shows "\<exists>t t'. compute_trust_map P w = Some t \<and> compute_trust_map P w' = Some t'
    \<and> (\<forall>fp. level_in t fp = level_in t' fp)"
  using same_web_levels [OF assms] compute_trust_map_least [OF assms(2), of P]
    compute_trust_map_least [OF assms(3), of P] by blast

definition demo_id :: "string \<Rightarrow> PgpIdentity" where
  "demo_id fp = \<lparr> pgp_user_id = fp, pgp_public_key_hex = hex_encode (arr 32 (str_bytes fp)),
     pgp_fingerprint = fp, pgp_created = 0 \<rparr>"

definition demo_web :: WebOfTrust where
  "demo_web = add_key (demo_id ''K'') (add_own_key (demo_id ''O'') WebOfTrust_new)"

definition demo_web' :: WebOfTrust where
  "demo_web' = add_own_key (demo_id ''O'') (add_key (demo_id ''K'') WebOfTrust_new)"

lemmas demo_web_defs = demo_web_def demo_web'_def add_key_def add_own_key_def invalidate_cache_def
  WebOfTrust_new_def demo_id_def

theorem trust_order_independent_witness:
  "\<exists>t t'. compute_trust_map toy_prims demo_web = Some t \<and> compute_trust_map toy_prims demo_web' = Some t'
     \<and> (\<forall>fp. level_in t fp = level_in t' fp)"
  by (rule trust_order_independent) (auto simp: same_web_def demo_web_defs fun_eq_iff)

section \<open>Trust comes from our own keys\<close>

text \<open>Fingerprints reachable from a root (an own key or a key with a manual override) along verified
  signatures.\<close>
inductive vouched :: "prims \<Rightarrow> WebOfTrust \<Rightarrow> string \<Rightarrow> bool" for P :: prims and w :: WebOfTrust where
  root: "Marginal \<le> base_level w fp \<Longrightarrow> vouched P w fp"
| link: "vouched P w (ts_signer s) \<Longrightarrow> s \<in> set (wot_signatures w) \<Longrightarrow> signature_is_valid P w s
    \<Longrightarrow> Marginal \<le> sig_level s \<Longrightarrow> vouched P w (ts_subject s)"

text \<open>C16: No trust without a chain of verified signatures. A key that is neither our own nor manually
  marked gets at least Marginal trust only if a chain of signatures, each verified under its signer's
  key and each granting at least Marginal, leads to it from an own or manually trusted key; forged or
  altered statements in a stored web grant nothing.\<close>
theorem trust_needs_chain:
  assumes "hwf (wot_overrides w)" and "compute_trust_map P w = Some t" and "Marginal \<le> level_in t fp"
  shows "vouched P w fp"
proof -
  let ?sigs = "filter (signature_is_valid P w) (wot_signatures w)"
  let ?u = "\<lambda>q. if vouched P w q then Ultimate else max Unknown (base_level w q)"
  have low: "max Unknown (base_level w q) = Unknown" if "\<not> vouched P w q" for q
    using that vouched.root [of w q P] by (cases "base_level w q") (auto simp: max_def)
  have "new_level ?sigs ?u q \<le> ?u q" if "\<not> pinned w q" for q
  proof (cases "vouched P w q")
    case False
    have "\<not> Marginal \<le> contribution ?u s" if s: "s \<in> set ?sigs" "ts_subject s = q" for s
    proof
      assume "Marginal \<le> contribution ?u s"
      then have "Marginal \<le> ?u (ts_signer s)" "Marginal \<le> sig_level s" by (simp_all add: contribution_def)
      then have "vouched P w (ts_signer s)" using low by (metis level_le_simps(8))
      with s \<open>Marginal \<le> sig_level s\<close> False show False using vouched.link [of P w s] by auto
    qed
    moreover from this have "\<not> Full \<le> contribution ?u s" if "s \<in> set ?sigs" "ts_subject s = q" for s
      using that full_is_marginal by blast
    ultimately have "votes Marginal ?sigs ?u q = 0" "votes Full ?sigs ?u q = 0" by (auto simp: filter_empty_conv)
    then have "new_level ?sigs ?u q = Unknown" by (simp add: new_level_votes)
    then show ?thesis by simp
  qed simp
  then have cl: "closed_under w ?sigs ?u" by (simp add: closed_under_def)
  have "\<forall>u. closed_under w ?sigs u \<longrightarrow> (\<forall>fp. level_in t fp \<le> u fp)"
    using compute_trust_map_least [OF assms(1), of P] assms(2) by auto
  from this [rule_format, OF cl, of fp] have "level_in t fp \<le> ?u fp" .
  then have "Marginal \<le> ?u fp" using assms(3) by (rule order_trans [rotated])
  then show ?thesis using low [of fp] by (auto split: if_splits)
qed

theorem trust_needs_chain_witness:
  "\<exists>t. compute_trust_map toy_prims demo_web = Some t \<and> Marginal \<le> level_in t ''O'' \<and> vouched toy_prims demo_web ''O''"
proof -
  have wf: "hwf (wot_overrides demo_web)" by (simp add: demo_web_defs)
  obtain t where t: "compute_trust_map toy_prims demo_web = Some t" "level_in t ''O'' = base_level demo_web ''O''"
    using compute_trust_map_least [OF wf, of toy_prims] by (auto simp: pinned_def demo_web_defs)
  then have "Marginal \<le> level_in t ''O''" by (simp add: base_level_def demo_web_defs)
  with t trust_needs_chain [OF wf t(1) this] show ?thesis by blast
qed

section \<open>A key can raise itself\<close>

lemma two_votes:
  assumes "s1 \<in> set sigs" and "s2 \<in> set sigs" and "s1 \<noteq> s2" and "P s1" and "P s2"
  shows "2 \<le> length (filter P sigs)"
proof -
  have "{s1, s2} \<subseteq> set (filter P sigs)" using assms by auto
  then have "card {s1, s2} \<le> card (set (filter P sigs))" by (rule card_mono [OF finite_set])
  also have "\<dots> \<le> length (filter P sigs)" by (rule card_length)
  finally show ?thesis using assms(3) by simp
qed

text \<open>A self-signature counts as a second introducer. If a known key has one verified signature
  granting it Marginal trust from a signer of at least Marginal trust, and also carries a verified
  signature by itself granting at least Marginal, then it is computed as Full, although only one other
  key vouches for it.\<close>
theorem self_signature_raises:
  assumes "hwf (wot_overrides w)" and "compute_trust_map P w = Some t"
    and "has_key (wot_keys w) k" and "\<not> pinned w k"
    and "s1 \<in> set (wot_signatures w)" and "signature_is_valid P w s1" and "ts_subject s1 = k" and "ts_signer s1 \<noteq> k"
    and "Marginal \<le> level_in t (ts_signer s1)" and "Marginal \<le> sig_level s1"
    and "s2 \<in> set (wot_signatures w)" and "signature_is_valid P w s2" and "ts_subject s2 = k" and "ts_signer s2 = k"
    and "Marginal \<le> sig_level s2"
  shows "level_in t k = Full"
proof -
  let ?sigs = "filter (signature_is_valid P w) (wot_signatures w)" and ?f = "level_in t"
  have fix_k: "?f k = new_level ?sigs ?f k"
    using compute_trust_map_least [OF assms(1), of P] assms(2-4) by auto
  have 1: "s1 \<in> set ?sigs" "Marginal \<le> contribution ?f s1"
    using assms by (auto simp: contribution_def)
  then have "votes Marginal ?sigs ?f k \<noteq> 0" using assms(7) by (auto simp: filter_empty_conv)
  then have "Marginal \<le> ?f k" unfolding fix_k by (simp add: new_level_votes del: length_greater_0_conv length_0_conv)
  then have 2: "s2 \<in> set ?sigs" "Marginal \<le> contribution ?f s2"
    using assms by (auto simp: contribution_def)
  have "2 \<le> votes Marginal ?sigs ?f k"
    by (rule two_votes [of s1 _ s2]) (use 1 2 assms in auto)
  then show ?thesis unfolding fix_k by (simp add: new_level_votes)
qed

definition demo_sig :: "string \<Rightarrow> string \<Rightarrow> TrustSignature" where
  "demo_sig signer subject = TrustSignature_create toy_prims (str_bytes signer) signer subject 1 0"

definition boosted_web :: WebOfTrust where
  "boosted_web = demo_web\<lparr> wot_signatures := [demo_sig ''O'' ''K'', demo_sig ''K'' ''K''] \<rparr>"

lemma boosted_valid: "signature_is_valid toy_prims boosted_web (demo_sig ''O'' ''K'')"
  "signature_is_valid toy_prims boosted_web (demo_sig ''K'' ''K'')"
  by (simp_all add: signature_is_valid_def boosted_web_def demo_web_defs demo_sig_def TrustSignature_create_def)
    (simp_all add: toy_prims_def)

theorem self_signature_raises_witness:
  "\<exists>t. compute_trust_map toy_prims boosted_web = Some t \<and> level_in t ''K'' = Full"
proof -
  have wf: "hwf (wot_overrides boosted_web)" by (simp add: boosted_web_def demo_web_defs)
  obtain t where t: "compute_trust_map toy_prims boosted_web = Some t" "level_in t ''O'' = base_level boosted_web ''O''"
    using compute_trust_map_least [OF wf, of toy_prims] by (auto simp: pinned_def boosted_web_def demo_web_defs)
  then have o: "level_in t ''O'' = Ultimate" by (simp add: base_level_def boosted_web_def demo_web_defs)
  have "level_in t ''K'' = Full"
    by (rule self_signature_raises [OF wf t(1), of _ "demo_sig ''O'' ''K''" "demo_sig ''K'' ''K''"])
      (simp_all add: boosted_valid, simp_all add: o boosted_web_def demo_web_defs has_key_def pinned_def demo_sig_def
        TrustSignature_create_def sig_level_def from_i32_def)
  with t show ?thesis by blast
qed

section \<open>The cache\<close>

text \<open>What a query answers without a cache.\<close>
definition trust_spec :: "prims \<Rightarrow> WebOfTrust \<Rightarrow> string \<Rightarrow> TrustLevel" where
  "trust_spec P w fp = (case hget (wot_overrides w) fp of
     Some l \<Rightarrow> l
   | None \<Rightarrow> if fp \<in> set (wot_own w) then Ultimate
       else (case compute_trust_map P w of None \<Rightarrow> Unknown | Some t \<Rightarrow> level_in t fp))"

definition web_ok :: "prims \<Rightarrow> WebOfTrust \<Rightarrow> bool" where
  "web_ok P w \<longleftrightarrow> hwf (wot_keys w) \<and> hwf (wot_overrides w) \<and>
     (wot_cache_valid w \<longrightarrow> (\<forall>t fp. compute_trust_map P w = Some t \<longrightarrow> level_in (wot_cache w) fp = level_in t fp))"

datatype web_op =
    AddOwn PgpIdentity
  | AddKey PgpIdentity
  | AddSignature TrustSignature
  | RemoveSignature string string
  | SetManual string TrustLevel
  | Query string

fun web_step :: "prims \<Rightarrow> web_op \<Rightarrow> WebOfTrust \<Rightarrow> WebOfTrust" where
  "web_step P (AddOwn i) w = add_own_key i w"
| "web_step P (AddKey i) w = add_key i w"
| "web_step P (AddSignature s) w = fst (add_signature P s w)"
| "web_step P (RemoveSignature a b) w = remove_signature a b w"
| "web_step P (SetManual fp l) w = set_manual_trust fp l w"
| "web_step P (Query fp) w = (case calculate_trust P fp w of None \<Rightarrow> w | Some (w', _) \<Rightarrow> w')"

lemma same_web_cache: "same_web w (w\<lparr> wot_cache := c, wot_cache_valid := b \<rparr>)"
  by (simp add: same_web_def)

lemma calculate_trust_spec:
  assumes "web_ok P w"
  shows "\<exists>w'. calculate_trust P fp w = Some (w', trust_spec P w fp) \<and> same_web w w' \<and> web_ok P w'"
proof -
  obtain t where t: "compute_trust_map P w = Some t"
    using compute_trust_map_least [of w P] assms by (auto simp: web_ok_def)
  let ?w = "w\<lparr> wot_cache := t, wot_cache_valid := True \<rparr>"
  have "level_in t q = level_in t' q" if "compute_trust_map P ?w = Some t'" for t' q
    using same_web_levels [OF same_web_cache _ _ t that] assms by (simp add: web_ok_def)
  then have "web_ok P ?w" using assms by (auto simp: web_ok_def)
  moreover have "same_web w w" by (simp add: same_web_def)
  ultimately show ?thesis
    using assms t same_web_cache [of w True t]
    by (auto simp: calculate_trust_def trust_spec_def web_ok_def [of P w] split: option.split)
qed

lemma web_ok_invalidate: "hwf (wot_keys w) \<Longrightarrow> hwf (wot_overrides w) \<Longrightarrow> web_ok P (invalidate_cache w)"
  by (simp add: web_ok_def invalidate_cache_def)

interpretation web: op_system "web_step P" "web_ok P" for P :: prims
proof unfold_locales
  fix w op
  assume w: "web_ok P w"
  then have wf: "hwf (wot_keys w)" "hwf (wot_overrides w)" by (simp_all add: web_ok_def)
  show "web_ok P (web_step P op w)"
  proof (cases op)
    case (Query fp)
    with calculate_trust_spec [OF w, of fp] show ?thesis by auto
  qed (use w wf in \<open>auto simp: add_own_key_def add_key_def add_signature_def remove_signature_def
      set_manual_trust_def intro!: web_ok_invalidate\<close>)
qed

text \<open>The specification: a web that is never asked to remember anything. Its operations are those of the code,
  and a query leaves it alone.\<close>
fun uncached_step :: "prims \<Rightarrow> web_op \<Rightarrow> WebOfTrust \<Rightarrow> WebOfTrust" where
  "uncached_step P (Query fp) w = w"
| "uncached_step P op w = web_step P op w"

definition forget_cache :: "WebOfTrust \<Rightarrow> WebOfTrust" where
  "forget_cache w = w\<lparr> wot_cache := [], wot_cache_valid := False \<rparr>"

lemma forget_cache_fields [simp]: "wot_keys (forget_cache w) = wot_keys w" "wot_own (forget_cache w) = wot_own w"
  "wot_signatures (forget_cache w) = wot_signatures w" "wot_overrides (forget_cache w) = wot_overrides w"
  by (simp_all add: forget_cache_def)

lemma forget_same_web: "same_web w (forget_cache w)"
  by (simp add: same_web_def)

lemma forget_query:
  "forget_cache (web_step P (Query fp) w) = forget_cache w"
  by (simp add: calculate_trust_def forget_cache_def split: option.split)

lemma valid_forget: "signature_is_valid P (forget_cache w) s = signature_is_valid P w s"
  by (simp add: signature_is_valid_def forget_cache_def)

lemma forget_update:
  "uncached_step P op (forget_cache w) = forget_cache (web_step P op w)"
proof (cases op)
  case (AddSignature s)
  then show ?thesis using valid_forget [of P w s]
    by (auto simp: add_signature_def wot_has_key_def) (simp add: forget_cache_def invalidate_cache_def)
next
  case (Query fp)
  then show ?thesis using forget_query by simp
qed (simp_all add: add_own_key_def add_key_def remove_signature_def set_manual_trust_def invalidate_cache_def forget_cache_def)

interpretation uncached: refinement "web_step P" "web_ok P" "\<lambda>_. True" "uncached_step P" forget_cache for P :: prims
  by unfold_locales (simp_all add: web.step_inv forget_update)

lemma trust_spec_forget:
  assumes "web_ok P w"
  shows "trust_spec P (forget_cache w) q = trust_spec P w q"
proof -
  have wf: "hwf (wot_keys w)" "hwf (wot_overrides w)" "hwf (wot_overrides (forget_cache w))"
    using assms by (simp_all add: web_ok_def forget_cache_def)
  obtain t t' where t: "compute_trust_map P w = Some t" "compute_trust_map P (forget_cache w) = Some t'"
    using compute_trust_map_least [OF wf(2), of P] compute_trust_map_least [OF wf(3), of P] by blast
  have "level_in t q = level_in t' q" using same_web_levels [OF forget_same_web _ _ t] wf by simp
  then show ?thesis using t by (simp add: trust_spec_def split: option.split)
qed

text \<open>C33: The cache is invisible. After any sequence of key imports, signatures, removals, manual settings
  and earlier queries, a trust query returns, and its answer is the one computed from scratch in a web
  that went through the same imports, signatures, removals and settings without ever caching
  anything and without any of the queries.\<close>
theorem cache_is_transparent:
  "\<exists>w'. calculate_trust P fp (fold (web_step P) ops WebOfTrust_new)
       = Some (w', trust_spec P (fold (uncached_step P) ops WebOfTrust_new) fp)
     \<and> forget_cache w' = fold (uncached_step P) ops WebOfTrust_new"
proof -
  let ?w = "fold (web_step P) ops WebOfTrust_new"
  have ok: "web_ok P ?w" by (rule web.run_inv) (simp add: web_ok_def WebOfTrust_new_def)
  have new: "web_ok P WebOfTrust_new" "forget_cache WebOfTrust_new = WebOfTrust_new"
    by (simp_all add: web_ok_def WebOfTrust_new_def forget_cache_def)
  have run: "forget_cache ?w = fold (uncached_step P) ops WebOfTrust_new"
    using uncached.run_abs [OF _ new(1), of ops] new(2) by (simp add: list_all_iff)
  obtain w' where w': "calculate_trust P fp ?w = Some (w', trust_spec P ?w fp)" using calculate_trust_spec [OF ok] by blast
  then have "forget_cache w' = forget_cache ?w" using forget_query [of P fp ?w] by simp
  then show ?thesis using w' trust_spec_forget [OF ok, of fp] by (auto simp: run)
qed

section \<open>The path search is sound and complete\<close>

definition signed :: "prims \<Rightarrow> WebOfTrust \<Rightarrow> string \<Rightarrow> string \<Rightarrow> bool" where
  "signed P w a b \<longleftrightarrow> (\<exists>s \<in> set (wot_signatures w). ts_signer s = a \<and> ts_subject s = b \<and> signature_is_valid P w s)"

text \<open>A path from an own key to \<open>b\<close>, each key having signed the next.\<close>
inductive chain :: "prims \<Rightarrow> WebOfTrust \<Rightarrow> string list \<Rightarrow> string \<Rightarrow> bool" for P :: prims and w :: WebOfTrust where
  own: "a \<in> set (wot_own w) \<Longrightarrow> chain P w [a] a"
| step: "chain P w p a \<Longrightarrow> signed P w a b \<Longrightarrow> chain P w (p @ [b]) b"

definition targets :: "prims \<Rightarrow> WebOfTrust \<Rightarrow> string \<Rightarrow> TrustSignature list \<Rightarrow> string set" where
  "targets P w c sigs = ts_subject ` set (filter (\<lambda>s. ts_signer s = c \<and> signature_is_valid P w s) sigs)"

lemma signed_iff: "signed P w a b \<longleftrightarrow> b \<in> targets P w a (wot_signatures w)"
  by (auto simp: signed_def targets_def)

lemma targets_Cons: "targets P w c (s # sigs) =
  (if ts_signer s = c \<and> signature_is_valid P w s then insert (ts_subject s) (targets P w c sigs) else targets P w c sigs)"
  by (simp add: targets_def)

lemma scan_signatures_spec:
  "scan_signatures P w c p sigs q v = (q', v') \<Longrightarrow>
   \<exists>new. q' = q @ new \<and> set v' = set v \<union> targets P w c sigs \<and> (\<forall>(b, pb) \<in> set new. pb = p @ [b])
    \<and> fst ` set new = targets P w c sigs - set v"
proof (induction P w c p sigs q v rule: scan_signatures.induct)
  case (1 P w c p q v)
  then show ?case by (simp add: targets_def)
next
  case (2 P w c p s sigs q v)
  show ?case
  proof (cases "ts_signer s = c \<and> \<not> List.member v (ts_subject s) \<and> signature_is_valid P w s")
    case True
    with "2.prems" have "scan_signatures P w c p sigs (q @ [(ts_subject s, p @ [ts_subject s])]) (ts_subject s # v) = (q', v')"
      by simp
    from 2(1) [OF True this] obtain new where new:
      "q' = (q @ [(ts_subject s, p @ [ts_subject s])]) @ new" "set v' = set (ts_subject s # v) \<union> targets P w c sigs"
      "\<forall>(b, pb) \<in> set new. pb = p @ [b]" "fst ` set new = targets P w c sigs - set (ts_subject s # v)"
      by (elim exE conjE)
    have "fst ` set ((ts_subject s, p @ [ts_subject s]) # new) = targets P w c (s # sigs) - set v"
      using new(4) True by (auto simp: targets_Cons)
    with new(1-3) True show ?thesis
      by (intro exI [of _ "(ts_subject s, p @ [ts_subject s]) # new"]) (auto simp: targets_Cons)
  next
    case False
    with "2.prems" have "scan_signatures P w c p sigs q v = (q', v')" by (auto split: if_splits)
    from 2(2) [OF False this] obtain new where new:
      "q' = q @ new" "set v' = set v \<union> targets P w c sigs" "\<forall>(b, pb) \<in> set new. pb = p @ [b]"
      "fst ` set new = targets P w c sigs - set v" by (elim exE conjE)
    have "targets P w c (s # sigs) - set v = targets P w c sigs - set v"
      and "set v \<union> targets P w c (s # sigs) = set v \<union> targets P w c sigs"
      using False by (auto simp: targets_Cons)
    with new show ?thesis by blast
  qed
qed

lemma path_bfs_sound:
  "path_bfs P w fp q v = Some path \<Longrightarrow> \<forall>(a, p) \<in> set q. chain P w p a \<Longrightarrow> chain P w path fp"
proof (induction P w fp q v rule: path_bfs.induct)
  case (1 P w fp v)
  then show ?case by simp
next
  case (2 P w fp current cpath queue visited)
  show ?case
  proof (cases "current = fp")
    case True
    with "2.prems" show ?thesis by simp
  next
    case False
    obtain q' v' where sc: "scan_signatures P w current cpath (wot_signatures w) queue visited = (q', v')"
      by (metis surj_pair)
    obtain new where new: "q' = queue @ new" "\<forall>(b, pb) \<in> set new. pb = cpath @ [b]"
      "fst ` set new = targets P w current (wot_signatures w) - set visited"
      using scan_signatures_spec [OF sc] by blast
    have "chain P w p a" if "(a, p) \<in> set new" for a p
    proof -
      have "a \<in> fst ` set new" using that by force
      then have "signed P w current a" using new(3) by (simp add: signed_iff)
      moreover have "chain P w cpath current" using "2.prems"(2) by simp
      ultimately show ?thesis using new(2) that chain.step by fastforce
    qed
    then have "\<forall>(a, p) \<in> set q'. chain P w p a" using new(1) "2.prems"(2) by auto
    moreover have "path_bfs P w fp q' v' = Some path" using "2.prems"(1) False sc by simp
    ultimately show ?thesis using "2.IH" [OF False sc [symmetric]] by blast
  qed
qed

lemma path_bfs_complete:
  assumes "path_bfs P w fp q v = None" and "fst ` set q \<subseteq> set v"
    and "\<forall>a \<in> set v - fst ` set q. a \<noteq> fp \<and> (\<forall>b. signed P w a b \<longrightarrow> b \<in> set v)"
  shows "\<exists>V. set v \<subseteq> V \<and> fp \<notin> V \<and> (\<forall>a b. a \<in> V \<and> signed P w a b \<longrightarrow> b \<in> V)"
  using assms
proof (induction P w fp q v rule: path_bfs.induct)
  case (1 P w fp v)
  then show ?case by (intro exI [of _ "set v"]) auto
next
  case (2 P w fp current cpath queue visited)
  from "2.prems"(1) have ne: "current \<noteq> fp" by (auto split: if_splits)
  obtain q' v' where sc: "scan_signatures P w current cpath (wot_signatures w) queue visited = (q', v')"
    by (metis surj_pair)
  obtain new where new: "q' = queue @ new" "set v' = set visited \<union> targets P w current (wot_signatures w)"
    "fst ` set new = targets P w current (wot_signatures w) - set visited"
    using scan_signatures_spec [OF sc] by blast
  have cur: "b \<in> set v'" if "signed P w current b" for b
    using that new by (simp add: signed_iff)
  have "path_bfs P w fp q' v' = None" using "2.prems"(1) ne sc by simp
  moreover have "fst ` set q' \<subseteq> set v'" using "2.prems"(2) new by auto
  moreover have "\<forall>a \<in> set v' - fst ` set q'. a \<noteq> fp \<and> (\<forall>b. signed P w a b \<longrightarrow> b \<in> set v')"
  proof
    fix a
    assume a: "a \<in> set v' - fst ` set q'"
    show "a \<noteq> fp \<and> (\<forall>b. signed P w a b \<longrightarrow> b \<in> set v')"
    proof (cases "a = current")
      case True
      with ne cur show ?thesis by simp
    next
      case False
      with a new have "a \<in> set visited - fst ` set ((current, cpath) # queue)" by auto
      with "2.prems"(3) new(2) show ?thesis by blast
    qed
  qed
  ultimately have "\<exists>V. set v' \<subseteq> V \<and> fp \<notin> V \<and> (\<forall>a b. a \<in> V \<and> signed P w a b \<longrightarrow> b \<in> V)"
    by (rule "2.IH" [OF ne sc [symmetric]])
  then obtain V where "set v' \<subseteq> V" "fp \<notin> V" "\<forall>a b. a \<in> V \<and> signed P w a b \<longrightarrow> b \<in> V" by (elim exE conjE)
  then show ?case using new(2) by (intro exI [of _ V]) simp
qed

lemma chain_closed:
  "chain P w p b \<Longrightarrow> set (wot_own w) \<subseteq> V \<Longrightarrow> \<forall>a b. a \<in> V \<and> signed P w a b \<longrightarrow> b \<in> V \<Longrightarrow> b \<in> V"
  by (induction rule: chain.induct) auto


end
