(* ===== verification/PrivateFiles.thy ===== *)
theory PrivateFiles
  imports Crypto DiskFiles
begin

text \<open>
  The owner-only files of \<^verbatim>\<open>identity.rs\<close>, \<^verbatim>\<open>net/transport.rs\<close> and the legacy part of \<^verbatim>\<open>storage.rs\<close>:
  the identity, the transport configuration and the old social state, each kept in a file of
  \<^verbatim>\<open>DiskFiles\<close>. The JSON encodings (serde_json) are parameters.
\<close>

section \<open>The identity file\<close>

record identity_json =
  ij_to :: "Identity \<Rightarrow> string"
  ij_from :: "string \<Rightarrow> Identity option"

text \<open>The encoding of an identity reads back, and is an object: cut short, it does not parse.\<close>
definition identity_json_ok :: "identity_json \<Rightarrow> Identity \<Rightarrow> bool" where
  "identity_json_ok J i \<longleftrightarrow> str_valid (ij_to J i) \<and> ij_from J (ij_to J i) = Some i
     \<and> (\<forall>n < length (ij_to J i). ij_from J (take n (ij_to J i)) = None)"

definition load_or_generate :: "prims \<Rightarrow> identity_json \<Rightarrow> bytes \<Rightarrow> u64 \<Rightarrow> write_io \<Rightarrow> string \<Rightarrow> disk_file \<Rightarrow> Identity \<times> disk_file" where
  "load_or_generate P J key_bytes now io u f =
     (case read_parsed (ij_from J) f of
        Some ident \<Rightarrow> (ident, f)
      | None \<Rightarrow> (let ident = generate P key_bytes now u
          in (ident, fst (write_private_file io (ij_to J ident) f))))"

definition save :: "identity_json \<Rightarrow> write_io \<Rightarrow> Identity \<Rightarrow> disk_file \<Rightarrow> disk_file" where
  "save J io ident f = fst (write_private_file io (ij_to J ident) f)"

section \<open>The transport configuration\<close>

datatype Transport =
    Direct
  | Tor string \<comment> \<open>socks5_addr\<close>
  | Obfs4 string string \<comment> \<open>bridge_line, socks5_addr\<close>
  | WebTunnel string string \<comment> \<open>url, socks5_addr\<close>

fun transport_name :: "Transport \<Rightarrow> string" where
  "transport_name Direct = ''direct''"
| "transport_name (Tor _) = ''tor''"
| "transport_name (Obfs4 _ _) = ''obfs4''"
| "transport_name (WebTunnel _ _) = ''webtunnel''"

text \<open>The arrow of the source is three bytes of UTF-8.\<close>
fun description :: "Transport \<Rightarrow> string" where
  "description Direct = ''Direct TCP''"
| "description (Tor addr) = ''Tor SOCKS5 '' @ bytes_str [0xE2, 0x86, 0x92] @ '' '' @ addr"
| "description (Obfs4 _ addr) = ''Obfs4 (bridge configured) via '' @ addr"
| "description (WebTunnel _ addr) = ''WebTunnel (url hidden) via '' @ addr"

record TransportConfig =
  tc_transport :: Transport
  tc_data_dir :: string

record transport_json =
  tj_to :: "TransportConfig \<Rightarrow> string"
  tj_from :: "string \<Rightarrow> TransportConfig option"

text \<open>The process-wide configuration is explicit state.\<close>
definition get_transport :: "TransportConfig option \<Rightarrow> Transport" where
  "get_transport global = (case global of None \<Rightarrow> Direct | Some c \<Rightarrow> tc_transport c)"

definition set_transport :: "transport_json \<Rightarrow> write_io \<Rightarrow> Transport \<Rightarrow> string \<Rightarrow> disk_file \<Rightarrow> disk_file \<times> TransportConfig option" where
  "set_transport J io t data_dir f =
     (let config = \<lparr> tc_transport = t, tc_data_dir = data_dir \<rparr>
      in (fst (write_private_file io (tj_to J config) f), Some config))"

definition load_transport :: "transport_json \<Rightarrow> disk_file \<Rightarrow> TransportConfig option \<Rightarrow> Transport \<times> TransportConfig option" where
  "load_transport J f global =
     (case read_parsed (tj_from J) f of
        Some config \<Rightarrow> (tc_transport config, Some config)
      | None \<Rightarrow> (Direct, global))"

section \<open>The legacy social state\<close>

text \<open>\<^verbatim>\<open>storage.rs\<close>, kept there for old installations: one JSON file, written in place.\<close>
record FriendEntry =
  fe_uid :: uid
  fe_addr :: string
  fe_trust_level :: u8

record MessageEntry =
  me_from :: uid
  me_to :: uid
  me_text :: string
  me_ts :: u64

record SocialState =
  ss_uid :: uid
  ss_addr :: string
  ss_friends :: "FriendEntry list"
  ss_messages :: "MessageEntry list"

record social_json =
  sj_to :: "SocialState \<Rightarrow> string"
  sj_from :: "string \<Rightarrow> SocialState option"

definition save_social_state :: "social_json \<Rightarrow> write_io \<Rightarrow> SocialState \<Rightarrow> disk_file \<Rightarrow> disk_file \<times> bool" where
  "save_social_state J io state f = write_private_file io (sj_to J state) f"

definition load_social_state :: "social_json \<Rightarrow> disk_file \<Rightarrow> SocialState option" where
  "load_social_state J f = read_parsed (sj_from J) f"

section \<open>Properties\<close>

interpretation identity_file: object_file "ij_to J" "ij_from J" "identity_json_ok J" for J
  by unfold_locales (simp_all add: identity_json_ok_def)

interpretation transport_file: text_file "tj_to J" "tj_from J"
  "\<lambda>c. str_valid (tj_to J c) \<and> tj_from J (tj_to J c) = Some c" for J
  by unfold_locales simp_all

interpretation social_file: text_file "sj_to J" "sj_from J"
  "\<lambda>st. str_valid (sj_to J st) \<and> sj_from J (sj_to J st) = Some st" for J
  by unfold_locales simp_all

lemma load_saved:
  "identity_json_ok J ident \<Longrightarrow>
     load_or_generate P J key_bytes now io u (save J WriteOk ident f) = (ident, save J WriteOk ident f)"
  by (simp add: load_or_generate_def save_def)

text \<open>An identity survives a restart, and is created only once. The first start generates a key
  pair whose signatures verify under its public key; when its file was written, every later start
  and save, in any order, gives that same identity back and leaves the file as it is.\<close>
theorem identity_persists:
  assumes first: "load_or_generate P J key_bytes now WriteOk u None = (ident, f)"
    and law: "identity_json_ok J ident" "keys_law P" "sig_law P"
  shows "(\<forall>key' now' io' u'. load_or_generate P J key' now' io' u' f = (ident, f)) \<and> save J WriteOk ident f = f
    \<and> (\<forall>m. \<exists>vk sig. public_key P ident = Some vk \<and> sign P ident m = Some sig \<and> ed_verify P vk m sig)"
proof (intro conjI allI)
  have ident: "ident = generate P key_bytes now u" and f: "f = save J WriteOk ident None"
    using first by (auto simp: load_or_generate_def save_def Let_def)
  show "load_or_generate P J key' now' io' u' f = (ident, f)" for key' now' io' u'
    unfolding f by (rule load_saved [OF law(1)])
  show "save J WriteOk ident f = f" by (simp add: f save_def)
  show "\<exists>vk sig. public_key P ident = Some vk \<and> sign P ident m = Some sig \<and> ed_verify P vk m sig" for m
    using law(2,3) by (simp add: ident generate_def public_key_def sign_def signing_key_def keys_law_def sig_law_def)
qed

text \<open>An encoder for one identity, for witnesses.\<close>
definition one_ident_json :: "Identity \<Rightarrow> identity_json" where
  "one_ident_json i = \<lparr> ij_to = (\<lambda>_. ''{}''), ij_from = (\<lambda>s. if s = ''{}'' then Some i else None) \<rparr>"

lemma one_ident_json_ok: "identity_json_ok (one_ident_json i) i"
proof -
  have "str_valid ''{}''" unfolding str_valid_def by (rule utf8_valid_ascii) (simp add: str_bytes_def)
  then show ?thesis
    by (auto simp: identity_json_ok_def one_ident_json_def less_Suc_eq numeral_2_eq_2)
qed

theorem identity_persists_witness:
  "\<forall>key' now' io' u'. load_or_generate toy_prims (one_ident_json (generate toy_prims [3] 7 ''ann'')) key' now' io' u'
    (Some (str_bytes ''{}'')) = (generate toy_prims [3] 7 ''ann'', Some (str_bytes ''{}''))"
  using identity_persists [OF _ one_ident_json_ok toy_keys toy_sig, of "generate toy_prims [3] 7 ''ann''" "[3]" 7 "''ann''"
      "Some (str_bytes ''{}'')"]
  by (simp add: load_or_generate_def one_ident_json_def)

text \<open>A save that stops half-way destroys the identity. Saving truncates the only copy before
  writing it; if the write stops anywhere before the end, the old key is gone, the
  file no longer loads, and the next start silently generates a different key pair.\<close>
theorem torn_save_loses_identity:
  assumes "identity_json_ok J ident" and "n < length (ij_to J ident)"
  shows "\<exists>f'. load_or_generate P J key_bytes now io u (save J (WriteStops n) ident (Some (str_bytes (ij_to J ident))))
    = (generate P key_bytes now u, f')"
proof -
  let ?f = "save J (WriteStops n) ident (Some (str_bytes (ij_to J ident)))"
  have "read_parsed (ij_from J) ?f = None" using assms by (simp add: save_def identity_file.read_torn)
  then show ?thesis by (simp add: load_or_generate_def Let_def)
qed

theorem torn_save_loses_identity_witness:
  "\<exists>f'. load_or_generate toy_prims (one_ident_json (generate toy_prims [3] 7 ''ann'')) [4] 8 WriteOk []
      (save (one_ident_json (generate toy_prims [3] 7 ''ann'')) (WriteStops 1) (generate toy_prims [3] 7 ''ann'') (Some (str_bytes ''{}'')))
    = (generate toy_prims [4] 8 [], f')"
  using torn_save_loses_identity [OF one_ident_json_ok, of 1 "generate toy_prims [3] 7 ''ann''" toy_prims "[4]" 8 WriteOk "[]"]
  by (simp add: one_ident_json_def)

text \<open>A transport that was set is in force at once, and after a restart when its file was written.\<close>
lemma transport_persists:
  assumes "str_valid (tj_to J \<lparr> tc_transport = t, tc_data_dir = d \<rparr>)"
    and "tj_from J (tj_to J \<lparr> tc_transport = t, tc_data_dir = d \<rparr>) = Some \<lparr> tc_transport = t, tc_data_dir = d \<rparr>"
  shows "get_transport (snd (set_transport J io t d f)) = t"
    and "load_transport J (fst (set_transport J WriteOk t d f)) None = (t, Some \<lparr> tc_transport = t, tc_data_dir = d \<rparr>)"
  using assms by (simp_all add: set_transport_def get_transport_def load_transport_def Let_def)

lemma social_state_persists:
  "str_valid (sj_to J st) \<Longrightarrow> sj_from J (sj_to J st) = Some st \<Longrightarrow> save_social_state J WriteOk st f = (f', ok) \<Longrightarrow>
     ok \<and> load_social_state J f' = Some st"
  by (auto simp: save_social_state_def load_social_state_def)

end
