(* ===== verification/App.thy ===== *)
theory App
  imports Relay ConnManager Recovery RoundEngine WebOfTrust PrivateFiles
begin

text \<open>
  \<^verbatim>\<open>app.rs\<close>: the application state, its start-up from disk and its shutdown, the bounded event channel, and the relay
  path (originating, admitting, delivering and forwarding). Channels are lists; \<^verbatim>\<open>SystemTime\<close> in Unix
  seconds and \<^verbatim>\<open>Instant\<close> in milliseconds are arguments. The permission warnings at start-up have no effect and are
  left out.
\<close>

section \<open>State\<close>

definition EVENT_CHANNEL_CAP :: nat where "EVENT_CHANNEL_CAP = 4096"

datatype AppEvent = Info string | Error string

record AppState =
  ap_identity :: Identity
  ap_bridge :: F2fDcNetBridge
  ap_transport :: Transport
  ap_relay :: RelayRouter
  ap_connection_manager :: ConnectionManager
  ap_round_engine :: RoundEngine
  ap_events :: "AppEvent list"
  ap_messages :: "(string \<times> string \<times> string) list"
  ap_outgoing :: outgoing
  ap_outgoing_rx :: bool \<comment> \<open>the receiver has not been taken\<close>
  ap_wot :: WebOfTrust
  ap_relay_verifier :: RelayVerifier
  ap_relay_nonce :: u64
  ap_uid_shared :: uid

text \<open>What start-up finds and draws: the files under the data directory, fresh random bytes, the clocks.\<close>
record startup =
  su_identity_file :: disk_file
  su_identity_io :: write_io
  su_key_bytes :: bytes
  su_now :: u64
  su_instant :: nat
  su_wot_file :: disk_file
  su_wal :: "WalStore option"
  su_friend_keys :: "uid \<Rightarrow> bytes"
  su_replay_keys :: "nat \<Rightarrow> bytes"
  su_transport_file :: disk_file

text \<open>The JSON codecs of the files.\<close>
record codecs =
  cd_identity :: identity_json
  cd_wal :: wal_json
  cd_transport :: transport_json
  cd_wot_to :: "WebOfTrust \<Rightarrow> string"
  cd_wot_from :: "string \<Rightarrow> WebOfTrust option"

definition restore_wot :: "prims \<Rightarrow> codecs \<Rightarrow> u64 \<Rightarrow> Identity \<Rightarrow> disk_file \<Rightarrow> WebOfTrust" where
  "restore_wot P C now ident f =
     (case read_parsed (cd_wot_from C) f of
        None \<Rightarrow> add_own_key (from_identity P now ident) WebOfTrust_new
      | Some saved \<Rightarrow> add_own_key (from_identity P now ident) saved)"

definition new_with_port :: "prims \<Rightarrow> codecs \<Rightarrow> startup \<Rightarrow> u16 \<Rightarrow> AppState" where
  "new_with_port P C w listen_port =
     (let ident = fst (load_or_generate P (cd_identity C) (su_key_bytes w) (su_now w) (su_identity_io w) [] (su_identity_file w));
          u = id_uid ident;
          bridge = (case su_wal w of
             None \<Rightarrow> F2fDcNetBridge_new u
           | Some wal \<Rightarrow> restore_bridge P (cd_wal C) (su_friend_keys w) (su_replay_keys w) u wal)
      in \<lparr> ap_identity = ident, ap_bridge = bridge,
           ap_transport = fst (load_transport (cd_transport C) (su_transport_file w) None),
           ap_relay = RelayRouter_new, ap_connection_manager = ConnectionManager_new listen_port,
           ap_round_engine = RoundEngine_new (su_instant w) u, ap_events = [], ap_messages = [], ap_outgoing = [], ap_outgoing_rx = True,
           ap_wot = restore_wot P C (su_now w) ident (su_wot_file w),
           ap_relay_verifier = RelayVerifier_new, ap_relay_nonce = 0, ap_uid_shared = u \<rparr>)"

definition AppState_new :: "prims \<Rightarrow> codecs \<Rightarrow> startup \<Rightarrow> AppState" where
  "AppState_new P C w = new_with_port P C w 9000"

text \<open>\<^verbatim>\<open>Drop for AppState\<close>: the log is checkpointed, then the identity and the web of trust are written.\<close>
definition app_drop :: "codecs \<Rightarrow> wal_io \<Rightarrow> write_io \<Rightarrow> write_io \<Rightarrow> AppState \<Rightarrow> disk_file \<Rightarrow> disk_file
    \<Rightarrow> WalStore option \<times> disk_file \<times> disk_file" where
  "app_drop C io id_io wot_io s id_file wot_file =
     (br_wal (checkpoint_wal (cd_wal C) io (ap_bridge s)),
      save (cd_identity C) id_io (ap_identity s) id_file,
      fst (write_private_file wot_io (cd_wot_to C (ap_wot s)) wot_file))"

section \<open>Events\<close>

text \<open>\<^verbatim>\<open>SyncSender::send\<close> waits while the channel is full: \<^const>\<open>None\<close> is a caller that does not return.\<close>
definition emit :: "AppEvent \<Rightarrow> AppState \<Rightarrow> AppState option" where
  "emit e s = (if length (ap_events s) \<ge> EVENT_CHANNEL_CAP then None else Some (s\<lparr> ap_events := ap_events s @ [e] \<rparr>))"

definition poll_events :: "AppState \<Rightarrow> AppState \<times> AppEvent list" where
  "poll_events s = (s\<lparr> ap_events := [] \<rparr>, ap_events s)"

section \<open>Relay\<close>

text \<open>The receiving end of the outgoing channel can be taken once; until then it stays in the state, so sending
  into the channel never fails.\<close>
definition take_outgoing_rx :: "AppState \<Rightarrow> AppState \<times> bool" where
  "take_outgoing_rx s = (s\<lparr> ap_outgoing_rx := False \<rparr>, ap_outgoing_rx s)"

definition relay_next_hop :: "AppState \<Rightarrow> uid \<Rightarrow> uid option" where
  "relay_next_hop s to_uid = (if is_connected (ap_connection_manager s) to_uid then Some to_uid else next_hop (ap_relay s) to_uid)"

definition send_relay :: "prims \<Rightarrow> u64 \<Rightarrow> uid \<Rightarrow> bytes \<Rightarrow> AppState \<Rightarrow> AppState \<times> string option" where
  "send_relay P now to_uid payload s = (case signing_key (ap_identity s) of
     None \<Rightarrow> (s, None)
   | Some sk \<Rightarrow>
       (let from_uid = id_uid (ap_identity s);
            s1 = s\<lparr> ap_relay_nonce := ap_relay_nonce s + 1 \<rparr>;
            msg = build_relay_request P \<lparr> ro_signing_key = sk, ro_origin_key_hex = id_public_hex (ap_identity s),
              ro_from_uid = from_uid, ro_to_uid = to_uid, ro_nonce = ap_relay_nonce s1, ro_timestamp = now,
              ro_hops_left = RELAY_MAX_HOPS \<rparr> payload
        in case relay_next_hop s1 to_uid of
             None \<Rightarrow> (s1, None)
           | Some hop \<Rightarrow> (s1\<lparr> ap_outgoing := ap_outgoing s1 @ [(hop, msg)] \<rparr>,
               Some (''[relay] request for '' @ to_uid @ '' routed via '' @ hop))))"

text \<open>Admission: the key to check with, the signature, replay, freshness and rate. The result is the new
  verifier and whether the message may pass.\<close>
definition admit_relay :: "prims \<Rightarrow> u64 \<Rightarrow> uid \<Rightarrow> uid \<Rightarrow> string \<Rightarrow> u64 \<Rightarrow> u64 \<Rightarrow> bytes \<Rightarrow> bytes \<Rightarrow> AppState
    \<Rightarrow> RelayVerifier \<times> bool" where
  "admit_relay P now from_uid to_uid origin_key_hex nonce timestamp signature payload s =
     (let v = ap_relay_verifier s;
          (v1, key) = (case hget (cm_known_peer_keys (ap_connection_manager s)) from_uid of
             Some k \<Rightarrow> (v, Some k)
           | None \<Rightarrow> (case pin_key from_uid origin_key_hex v of
               (v', Inl _) \<Rightarrow> (v', None)
             | (v', Inr _) \<Rightarrow> (v', Some origin_key_hex)))
      in case key of
           None \<Rightarrow> (v1, False)
         | Some key_hex \<Rightarrow> (case parse_verifying_key P key_hex of
             None \<Rightarrow> (v1, False)
           | Some vk \<Rightarrow>
               if \<not> verify_relay P vk from_uid to_uid nonce timestamp payload signature then (v1, False)
               else case check key_hex nonce timestamp now v1 of
                 (v2, Inl _) \<Rightarrow> (v2, False)
               | (v2, Inr _) \<Rightarrow> (v2, True)))"

text \<open>After admission: deliver here, or pass on with one hop less. \<open>mk\<close> rebuilds the message with a new hop count.\<close>
definition route_relay :: "uid \<Rightarrow> uid \<Rightarrow> u8 \<Rightarrow> bytes \<Rightarrow> (u8 \<Rightarrow> PeerMessage) \<Rightarrow> AppState \<Rightarrow> AppState \<times> AppEvent list" where
  "route_relay from_uid to_uid hops_left payload mk s =
     (if to_uid = id_uid (ap_identity s)
      then (s, [Info (''relay from '' @ from_uid @ '': '' @ show_nat (length payload) @ '' bytes'')])
      else if \<not> valid_inbound_hops hops_left then (s, [])
      else if hops_left = 0 then (s, [])
      else case relay_next_hop s to_uid of
        None \<Rightarrow> (s, [])
      | Some hop \<Rightarrow> (s\<lparr> ap_outgoing := ap_outgoing s @ [(hop, mk (hops_left - 1))] \<rparr>, []))"

fun handle_relay_message :: "prims \<Rightarrow> u64 \<Rightarrow> PeerMessage \<Rightarrow> AppState \<Rightarrow> AppState \<times> AppEvent list" where
  "handle_relay_message P now (RelayRequest from_uid to_uid key nonce timestamp hops_left signature payload) s =
     (let (v, ok) = admit_relay P now from_uid to_uid key nonce timestamp signature payload s;
          s1 = s\<lparr> ap_relay_verifier := v \<rparr>
      in if ok then route_relay from_uid to_uid hops_left payload
           (\<lambda>h. RelayRequest from_uid to_uid key nonce timestamp h signature payload) s1
         else (s1, []))"
| "handle_relay_message P now (RelayResponse from_uid to_uid key nonce timestamp hops_left signature payload) s =
     (let (v, ok) = admit_relay P now from_uid to_uid key nonce timestamp signature payload s;
          s1 = s\<lparr> ap_relay_verifier := v \<rparr>
      in if ok then route_relay from_uid to_uid hops_left payload
           (\<lambda>h. RelayResponse from_uid to_uid key nonce timestamp h signature payload) s1
         else (s1, []))"
| "handle_relay_message P now _ s = (s, [])"

section \<open>A message travels\<close>

fun relay_hops :: "PeerMessage \<Rightarrow> nat" where
  "relay_hops (RelayRequest _ _ _ _ _ h _ _) = unat h"
| "relay_hops (RelayResponse _ _ _ _ _ h _ _) = unat h"
| "relay_hops _ = 0"

text \<open>What a call of the handler put into the outgoing channel.\<close>
definition forwarded :: "AppState \<Rightarrow> AppState \<Rightarrow> outgoing" where
  "forwarded s s' = drop (length (ap_outgoing s)) (ap_outgoing s')"

lemma unat_pred: "h \<noteq> 0 \<Longrightarrow> unat (h - 1 :: u8) = unat h - 1"
  by (simp add: unat_minus_one)

lemma route_relay_cases:
  assumes "route_relay f t h p mk s = (s', evs)"
  shows "s' = s \<and> forwarded s s' = []
    \<or> (\<exists>hop. h \<noteq> 0 \<and> h \<le> RELAY_MAX_HOPS \<and> evs = [] \<and> forwarded s s' = [(hop, mk (h - 1))] \<and> relay_next_hop s t = Some hop)"
  using assms by (auto simp: route_relay_def forwarded_def valid_inbound_hops_def split: if_splits option.splits)

lemma handle_relay_forwards:
  assumes "handle_relay_message P now msg s = (s', evs)" and "forwarded s s' = (hop, m) # rest"
  shows "relay_hops msg \<le> 8 \<and> Suc (relay_hops m) = relay_hops msg"
proof -
  have pass: "unat h \<le> 8 \<and> Suc (relay_hops m) = unat h"
    if route: "route_relay f t h p mk (s\<lparr> ap_relay_verifier := v \<rparr>) = (s', evs)" and mk: "\<And>x. relay_hops (mk x) = unat x"
    for f t h p mk v
  proof -
    have "forwarded (s\<lparr> ap_relay_verifier := v \<rparr>) s' = (hop, m) # rest" using assms(2) by (simp add: forwarded_def)
    then have "h \<noteq> 0" "h \<le> RELAY_MAX_HOPS" "m = mk (h - 1)" using route_relay_cases [OF route] by auto
    then show ?thesis using mk unat_pred [of h]
      by (auto simp: RELAY_MAX_HOPS_def word_le_nat_alt unat_gt_0 intro!: Suc_pred)
  qed
  show ?thesis
  proof (cases msg)
    case (RelayRequest f t k n ts h sg p)
    then show ?thesis using assms pass [of f t h p "\<lambda>h. RelayRequest f t k n ts h sg p"]
      by (auto simp: forwarded_def Let_def split: prod.splits if_splits)
  next
    case (RelayResponse f t k n ts h sg p)
    then show ?thesis using assms pass [of f t h p "\<lambda>h. RelayResponse f t k n ts h sg p"]
      by (auto simp: forwarded_def Let_def split: prod.splits if_splits)
  qed (use assms in \<open>auto simp: forwarded_def\<close>)
qed

text \<open>A relay message handed to a node, and then on from node to node as their outgoing pumps send it:
  the states afterwards, and what was visited with what events. It ends because every node that
  passes a message on lowers its hop count.\<close>
function relay_run :: "prims \<Rightarrow> (uid \<Rightarrow> u64) \<Rightarrow> (uid \<Rightarrow> AppState) \<Rightarrow> uid \<Rightarrow> PeerMessage
    \<Rightarrow> (uid \<Rightarrow> AppState) \<times> (uid \<times> AppEvent list) list" where
  "relay_run P clock net node msg =
     (case handle_relay_message P (clock node) msg (net node) of
        (s', evs) \<Rightarrow> (case forwarded (net node) s' of
            [] \<Rightarrow> (net(node := s'), [(node, evs)])
          | (hop, m) # _ \<Rightarrow> (case relay_run P clock (net(node := s')) hop m of
              (net', trace) \<Rightarrow> (net', (node, evs) # trace))))"
  by pat_completeness auto
termination
  by (relation "measure (\<lambda>(P, clock, net, node, msg). relay_hops msg)") (auto dest: handle_relay_forwards [OF sym])

declare relay_run.simps [simp del]

text \<open>C22: A relayed message always stops. Whatever the routing tables say, loops included, and
  whatever hop count a message claims, it visits at most nine nodes.\<close>
theorem relay_terminates:
  "length (snd (relay_run P clock net node msg)) \<le> 9"
proof -
  have "length (snd (relay_run P clock net node msg)) \<le> 1 + (if relay_hops msg \<le> 8 then relay_hops msg else 0)" for net node msg
  proof (induction P clock net node msg rule: relay_run.induct)
    case (1 P clock net node msg)
    obtain s' evs where h: "handle_relay_message P (clock node) msg (net node) = (s', evs)" by fastforce
    show ?case
    proof (cases "forwarded (net node) s'")
      case Nil
      then show ?thesis by (subst relay_run.simps) (simp add: h)
    next
      case (Cons hm rest)
      obtain hop m where hm: "hm = (hop, m)" by (cases hm)
      have hops: "relay_hops msg \<le> 8" "Suc (relay_hops m) = relay_hops msg"
        using handle_relay_forwards [OF h] Cons hm by auto
      have "length (snd (relay_run P clock (net(node := s')) hop m)) \<le> 1 + relay_hops m"
        using "1.IH" [OF h [symmetric] Cons hm [symmetric]] hops unfolding fun_upd_def by (simp split: if_splits)
      then show ?thesis using hops by (subst relay_run.simps) (simp add: h Cons hm fun_upd_def split_beta)
    qed
  qed
  from this [of net node msg] show ?thesis by (simp split: if_splits)
qed

section \<open>Delivery along a path\<close>

text \<open>A node that has nothing against a message of this origin: no other key on record or pinned for it, the nonce
  is new, the clock agrees, the rate is not used up.\<close>
definition welcomes :: "u64 \<Rightarrow> uid \<Rightarrow> string \<Rightarrow> u64 \<Rightarrow> u64 \<Rightarrow> AppState \<Rightarrow> bool" where
  "welcomes now from_uid key nonce ts s \<longleftrightarrow>
     (case hget (cm_known_peer_keys (ap_connection_manager s)) from_uid of Some k \<Rightarrow> k = key
      | None \<Rightarrow> (case hget (rv_key_pins (ap_relay_verifier s)) from_uid of None \<Rightarrow> True | Some k \<Rightarrow> k = key))
     \<and> above_last (ap_relay_verifier s) key nonce \<and> abs_diff now ts \<le> RELAY_MAX_AGE_SECS
     \<and> (length (rv_rate (ap_relay_verifier s)) \<ge> MAX_RELAY_TRACKED
        \<or> (case hget (rv_rate (ap_relay_verifier s)) key of None \<Rightarrow> True
            | Some (st, c) \<Rightarrow> abs_diff now st \<ge> RELAY_RATE_WINDOW_SECS \<or> c < RELAY_MAX_PER_WINDOW))"

lemma abs_diff_self [simp]: "abs_diff a a = 0"
  by (simp add: abs_diff_def)

lemma check_welcome:
  assumes "above_last v key nonce" and "abs_diff now ts \<le> RELAY_MAX_AGE_SECS"
    and "length (rv_rate v) \<ge> MAX_RELAY_TRACKED \<or> (case hget (rv_rate v) key of None \<Rightarrow> True
      | Some (st, c) \<Rightarrow> abs_diff now st \<ge> RELAY_RATE_WINDOW_SECS \<or> c < RELAY_MAX_PER_WINDOW)"
  shows "\<exists>v'. check key nonce ts now v = (v', Inr ())"
proof -
  let ?rate = "if MAX_RELAY_TRACKED \<le> length (rv_rate v) then [] else rv_rate v"
  obtain st c where e: "(case hget ?rate key of None \<Rightarrow> (now, 0) | Some e \<Rightarrow> e) = (st, c)" by fastforce
  have pos: "\<not> RELAY_MAX_PER_WINDOW \<le> 0" "\<not> RELAY_RATE_WINDOW_SECS \<le> 0"
    by (simp_all add: RELAY_MAX_PER_WINDOW_def RELAY_RATE_WINDOW_SECS_def)
  have "abs_diff now st \<ge> RELAY_RATE_WINDOW_SECS \<or> \<not> RELAY_MAX_PER_WINDOW \<le> c"
    using assms(3) e pos by (auto simp: not_le word_gt_0 split: option.splits if_splits)
  moreover have "\<not> (case hget (rv_last_nonce v) key of None \<Rightarrow> False | Some l \<Rightarrow> nonce \<le> l)"
    using assms(1) by (simp add: above_last_def not_le split: option.splits)
  ultimately show ?thesis using assms(2) pos e by (auto simp: check_def Let_def not_less)
qed

lemma admit_welcome:
  assumes laws: "keys_law P" "sig_law P" and key: "key = hex_encode (ed_public P sk)"
    and w: "welcomes now f key n ts s"
  shows "\<exists>v. admit_relay P now f t key n ts (sign_relay P sk f t n ts p) p s = (v, True)"
proof -
  have vk: "parse_verifying_key P key = Some (ed_public P sk)"
    using laws(1) by (simp add: key parse_verifying_key_def keys_law_def)
  have sg: "verify_relay P (ed_public P sk) f t n ts p (sign_relay P sk f t n ts p)"
    using laws(2) by (simp add: verify_relay_def sign_relay_def sig_law_def)
  let ?v = "ap_relay_verifier s"
  obtain v1 where k: "(case hget (cm_known_peer_keys (ap_connection_manager s)) f of
             Some k \<Rightarrow> (?v, Some k)
           | None \<Rightarrow> (case pin_key f key ?v of (v', Inl _) \<Rightarrow> (v', None) | (v', Inr _) \<Rightarrow> (v', Some key))) = (v1, Some key)"
    and same: "rv_last_nonce v1 = rv_last_nonce ?v" "rv_rate v1 = rv_rate ?v"
    using w by (auto simp: welcomes_def pin_key_def Let_def split: option.splits)
  obtain v2 where "check key n ts now v1 = (v2, Inr ())"
    using check_welcome [of v1 key n now ts] w same by (auto simp: welcomes_def above_last_def)
  then show ?thesis using vk sg by (simp add: admit_relay_def k Let_def)
qed

lemma relay_next_hop_verifier [simp]: "relay_next_hop (s\<lparr> ap_relay_verifier := v \<rparr>) = relay_next_hop s"
  by (simp add: relay_next_hop_def fun_eq_iff)

text \<open>The uids between a node and the target, each with the next as its route.\<close>
fun routed :: "(uid \<Rightarrow> AppState) \<Rightarrow> uid \<Rightarrow> uid list \<Rightarrow> bool" where
  "routed net t [] \<longleftrightarrow> True"
| "routed net t (a # as) \<longleftrightarrow> relay_next_hop (net a) t = Some (hd (as @ [t])) \<and> routed net t as"

lemma routed_upd: "b \<notin> set as \<Longrightarrow> routed (net(b := s)) t as = routed net t as"
  by (induction as) auto

lemma relay_run_path:
  assumes laws: "keys_law P" "sig_law P" and key: "key = hex_encode (ed_public P sk)"
    and "distinct (mids @ [t])" and "\<forall>a \<in> set (mids @ [t]). id_uid (ap_identity (net a)) = a \<and> welcomes (clock a) f key n ts (net a)"
    and "routed net t mids" and "length mids \<le> unat h" and "unat h \<le> 8"
  shows "snd (relay_run P clock net (hd (mids @ [t])) (RelayRequest f t key n ts h (sign_relay P sk f t n ts p) p))
    = map (\<lambda>a. (a, [])) mids @ [(t, [Info (''relay from '' @ f @ '': '' @ show_nat (length p) @ '' bytes'')])]"
  using assms(4-)
proof (induction mids arbitrary: net h)
  case Nil
  let ?msg = "RelayRequest f t key n ts h (sign_relay P sk f t n ts p) p"
  obtain v where "admit_relay P (clock t) f t key n ts (sign_relay P sk f t n ts p) p (net t) = (v, True)"
    using admit_welcome [OF laws key] Nil.prems(2) by fastforce
  then have "handle_relay_message P (clock t) ?msg (net t) = ((net t)\<lparr> ap_relay_verifier := v \<rparr>,
      [Info (''relay from '' @ f @ '': '' @ show_nat (length p) @ '' bytes'')])"
    using Nil.prems(2) by (simp add: route_relay_def)
  then show ?case by (subst relay_run.simps) (simp add: forwarded_def)
next
  case (Cons a mids)
  let ?msg = "\<lambda>h. RelayRequest f t key n ts h (sign_relay P sk f t n ts p) p"
  have h: "h \<noteq> 0" "valid_inbound_hops h"
    using Cons.prems(4,5) by (auto simp: valid_inbound_hops_def RELAY_MAX_HOPS_def word_le_nat_alt)
  obtain v where adm: "admit_relay P (clock a) f t key n ts (sign_relay P sk f t n ts p) p (net a) = (v, True)"
    using admit_welcome [OF laws key] Cons.prems(2) by fastforce
  let ?s = "(net a)\<lparr> ap_relay_verifier := v, ap_outgoing := ap_outgoing (net a) @ [(hd (mids @ [t]), ?msg (h - 1))] \<rparr>"
  have ne: "t \<noteq> a" "a \<notin> set (mids @ [t])" using Cons.prems(1) by auto
  have "handle_relay_message P (clock a) (?msg h) (net a) = (?s, [])"
    using adm h ne Cons.prems(2,3) by (simp add: route_relay_def)
  moreover have "forwarded (net a) ?s = [(hd (mids @ [t]), ?msg (h - 1))]" by (simp add: forwarded_def)
  moreover have "snd (relay_run P clock (net(a := ?s)) (hd (mids @ [t])) (?msg (h - 1)))
      = map (\<lambda>a. (a, [])) mids @ [(t, [Info (''relay from '' @ f @ '': '' @ show_nat (length p) @ '' bytes'')])]"
    by (rule Cons.IH) (use Cons.prems ne h routed_upd [of a mids net ?s t] unat_pred [OF h(1)] in \<open>auto simp: fun_upd_def\<close>)
  ultimately show ?case
    by (subst relay_run.simps) (simp add: fun_upd_def split_beta del: handle_relay_message.simps)
qed

text \<open>C21: A relayed message reaches its target. When a node with a usable identity sends to a peer for whom
  it has a route, and each node on the way has the next one as its route and welcomes the message,
  then what it queues travels the whole path, at most eight relays, and the target alone reports the arrival,
  with the sender's name and the payload's size.\<close>
theorem relay_reaches_target:
  assumes laws: "keys_law P" "sig_law P"
    and origin: "signing_key (ap_identity s) = Some sk" "id_public_hex (ap_identity s) = hex_encode (ed_public P sk)"
      "relay_next_hop s t = Some (hd (mids @ [t]))"
    and path: "distinct (mids @ [t])" "length mids \<le> 8" "routed net t mids"
      "\<forall>a \<in> set (mids @ [t]). id_uid (ap_identity (net a)) = a
        \<and> welcomes (clock a) (id_uid (ap_identity s)) (id_public_hex (ap_identity s)) (ap_relay_nonce s + 1) now (net a)"
  shows "\<exists>msg. ap_outgoing (fst (send_relay P now t payload s)) = ap_outgoing s @ [(hd (mids @ [t]), msg)]
    \<and> snd (relay_run P clock net (hd (mids @ [t])) msg) = map (\<lambda>a. (a, [])) mids
      @ [(t, [Info (''relay from '' @ id_uid (ap_identity s) @ '': '' @ show_nat (length payload) @ '' bytes'')])]"
proof -
  let ?f = "id_uid (ap_identity s)" and ?key = "id_public_hex (ap_identity s)" and ?n = "ap_relay_nonce s + 1"
  let ?msg = "RelayRequest ?f t ?key ?n now 8 (sign_relay P sk ?f t ?n now payload) payload"
  have "relay_next_hop (s\<lparr> ap_relay_nonce := ?n \<rparr>) t = Some (hd (mids @ [t]))" using origin(3) by (simp add: relay_next_hop_def split: if_splits)
  then have "ap_outgoing (fst (send_relay P now t payload s)) = ap_outgoing s @ [(hd (mids @ [t]), ?msg)]"
    using origin(1) by (simp add: send_relay_def build_relay_request_def relay_sig_of_def RELAY_MAX_HOPS_def Let_def)
  moreover have "snd (relay_run P clock net (hd (mids @ [t])) ?msg) = map (\<lambda>a. (a, [])) mids
      @ [(t, [Info (''relay from '' @ ?f @ '': '' @ show_nat (length payload) @ '' bytes'')])]"
    by (rule relay_run_path [OF laws origin(2)]) (use path in auto)
  ultimately show ?thesis by blast
qed

text \<open>An unverified message takes a name. The key a relay message carries is pinned before its signature
  is checked: one message with any signature at all, naming a peer that is neither
  on record nor pinned, is dropped, but from then on every genuine message of that peer is dropped too.\<close>
theorem forged_relay_blocks_peer:
  assumes "hget (cm_known_peer_keys (ap_connection_manager s)) victim = None"
    and "hget (rv_key_pins (ap_relay_verifier s)) victim = None" and "key' \<noteq> key"
    and "handle_relay_message P now (RelayRequest victim t' key' n' ts' h' garbage p') s = (s1, evs)"
  shows "handle_relay_message P now' (RelayRequest victim t key n ts h sig p) s1 = (s1, [])"
proof -
  obtain v ok where adm: "admit_relay P now victim t' key' n' ts' garbage p' s = (v, ok)" by fastforce
  have pins: "rv_key_pins (fst (check k a b c w)) = rv_key_pins w" for k a b c w
    by (simp add: check_def Let_def split_beta)
  have "hget (rv_key_pins v) victim = Some key'"
    using adm assms(1,2) pins [of key' n' ts' now]
    by (auto simp: admit_relay_def pin_key_def Let_def prod_eq_iff split: option.splits if_splits prod.splits sum.splits)
  moreover have "ap_relay_verifier s1 = v \<and> ap_connection_manager s1 = ap_connection_manager s"
    using assms(4) adm by (auto simp: route_relay_def Let_def split: if_splits option.splits)
  ultimately show ?thesis using assms(1,3) by (simp add: admit_relay_def pin_key_def)
qed

text \<open>A node by name, with a route.\<close>
definition demo_app :: "uid \<Rightarrow> uid \<Rightarrow> AppState" where
  "demo_app u via = \<lparr> ap_identity = generate toy_prims (str_bytes u) 0 u, ap_bridge = F2fDcNetBridge_new u, ap_transport = Direct,
     ap_relay = add_path ''cat'' via [], ap_connection_manager = ConnectionManager_new 9000, ap_round_engine = RoundEngine_new 0 u,
     ap_events = [], ap_messages = [], ap_outgoing = [], ap_outgoing_rx = True, ap_wot = WebOfTrust_new, ap_relay_verifier = RelayVerifier_new,
     ap_relay_nonce = 0, ap_uid_shared = u \<rparr>"

lemmas demo_app_defs = demo_app_def welcomes_def above_last_def RelayVerifier_new_def ConnectionManager_new_def relay_next_hop_def
  is_connected_def next_hop_def get_paths_def add_path_def generate_def

theorem relay_reaches_target_witness:
  "\<exists>msg. ap_outgoing (fst (send_relay toy_prims 100 ''cat'' [1, 2, 3] (demo_app ''ann'' ''bob''))) = [(''bob'', msg)]
    \<and> snd (relay_run toy_prims (\<lambda>_. 130) (\<lambda>u. demo_app u ''cat'') ''bob'' msg)
      = [(''bob'', []), (''cat'', [Info (''relay from ann: '' @ show_nat (Suc (Suc (Suc 0))) @ '' bytes'')])]"
proof -
  let ?s = "demo_app ''ann'' ''bob''" and ?net = "\<lambda>u. demo_app u ''cat''"
  have key: "signing_key (ap_identity ?s) = Some (arr 32 (str_bytes ''ann''))"
    by (simp add: demo_app_def generate_def signing_key_def)
  have pub: "id_public_hex (ap_identity ?s) = hex_encode (ed_public toy_prims (arr 32 (str_bytes ''ann'')))"
    by (simp add: demo_app_def generate_def toy_prims_def)
  have hop: "relay_next_hop ?s ''cat'' = Some (hd ([''bob''] @ [''cat'']))" by (simp add: demo_app_defs has_key_def)
  have path: "\<forall>a \<in> set ([''bob''] @ [''cat'']). id_uid (ap_identity (?net a)) = a
      \<and> welcomes 130 (id_uid (ap_identity ?s)) (id_public_hex (ap_identity ?s)) (ap_relay_nonce ?s + 1) 100 (?net a)"
    by (simp add: demo_app_defs abs_diff_def RELAY_MAX_AGE_SECS_def MAX_RELAY_TRACKED_def)
  have routed: "routed ?net ''cat'' [''bob'']" by (simp add: demo_app_defs has_key_def)
  have "distinct ([''bob''] @ [''cat''])" "length [''bob''] \<le> 8" by simp_all
  note run = relay_reaches_target [OF toy_keys toy_sig key pub hop this routed path, of "[1, 2, 3]"]
  have "ap_outgoing ?s = []" "id_uid (ap_identity ?s) = ''ann''" by (simp_all add: demo_app_def generate_def)
  with run show ?thesis by simp
qed

theorem forged_relay_blocks_peer_witness:
  "\<exists>s1 evs. handle_relay_message toy_prims 100 (RelayRequest ''ann'' ''x'' ''00'' 1 100 8 [] []) (demo_app ''bob'' ''cat'') = (s1, evs)
    \<and> (\<forall>sig. handle_relay_message toy_prims 101 (RelayRequest ''ann'' ''cat'' ''11'' 1 101 8 sig [7]) s1 = (s1, []))"
proof -
  obtain s1 evs where run: "handle_relay_message toy_prims 100 (RelayRequest ''ann'' ''x'' ''00'' 1 100 8 [] []) (demo_app ''bob'' ''cat'') = (s1, evs)"
    by fastforce
  have "handle_relay_message toy_prims 101 (RelayRequest ''ann'' ''cat'' ''11'' 1 101 8 sig [7]) s1 = (s1, [])" for sig
    by (rule forged_relay_blocks_peer [OF _ _ _ run]) (simp_all add: demo_app_defs)
  with run show ?thesis by blast
qed

text \<open>A restarted node is taken for a replay. A node starts again with nonce zero, but the others
  remember its last nonce: what it sends is dropped by every node that knows it, without a trace, until
  it has sent as many messages as before the restart.\<close>
theorem restarted_origin_dropped:
  assumes sent: "ap_outgoing (fst (send_relay P ts t p s)) = ap_outgoing s @ [(hop, msg)]"
    and seen: "hget (rv_last_nonce (ap_relay_verifier r)) (id_public_hex (ap_identity s)) = Some last_seen"
      "ap_relay_nonce s < last_seen"
    and known: "hget (cm_known_peer_keys (ap_connection_manager r)) (id_uid (ap_identity s)) = Some (id_public_hex (ap_identity s))"
  shows "ap_relay_nonce (new_with_port P' C w port) = 0 \<and> handle_relay_message P now msg r = (r, [])"
proof -
  let ?f = "id_uid (ap_identity s)" and ?key = "id_public_hex (ap_identity s)" and ?n = "ap_relay_nonce s + 1"
  obtain sk h where msg: "msg = RelayRequest ?f t ?key ?n ts h (sign_relay P sk ?f t ?n ts p) p"
    using sent by (auto simp: send_relay_def build_relay_request_def relay_sig_of_def Let_def split: option.splits)
  have "?n \<le> last_seen" using seen(2) by (rule inc_le)
  then have "check ?key ?n ts now (ap_relay_verifier r) = (ap_relay_verifier r, Inl ReplayedNonce)"
    using seen(1) by (simp add: check_def)
  then have "admit_relay P now ?f t ?key ?n ts sig p r = (ap_relay_verifier r, False)" for sig
    using known by (auto simp: admit_relay_def Let_def split: option.split)
  then show ?thesis by (simp add: msg new_with_port_def Let_def)
qed

theorem restarted_origin_dropped_witness:
  "\<exists>msg. ap_outgoing (fst (send_relay toy_prims 100 ''cat'' [1] (demo_app ''ann'' ''cat''))) = [(''cat'', msg)]
    \<and> handle_relay_message toy_prims 100 msg ((demo_app ''cat'' ''cat'')\<lparr>
        ap_relay_verifier := RelayVerifier_new\<lparr> rv_last_nonce := [(id_public_hex (ap_identity (demo_app ''ann'' ''cat'')), 5)] \<rparr>,
        ap_connection_manager := (ConnectionManager_new 9000)\<lparr> cm_known_peer_keys := [(''ann'', id_public_hex (ap_identity (demo_app ''ann'' ''cat'')))] \<rparr> \<rparr>)
      = ((demo_app ''cat'' ''cat'')\<lparr>
        ap_relay_verifier := RelayVerifier_new\<lparr> rv_last_nonce := [(id_public_hex (ap_identity (demo_app ''ann'' ''cat'')), 5)] \<rparr>,
        ap_connection_manager := (ConnectionManager_new 9000)\<lparr> cm_known_peer_keys := [(''ann'', id_public_hex (ap_identity (demo_app ''ann'' ''cat'')))] \<rparr> \<rparr>, [])"
proof -
  let ?s = "demo_app ''ann'' ''cat''"
  have "\<exists>msg. ap_outgoing (fst (send_relay toy_prims 100 ''cat'' [1] ?s)) = ap_outgoing ?s @ [(''cat'', msg)]"
    by (simp add: send_relay_def demo_app_defs signing_key_def Let_def)
  then obtain msg where sent: "ap_outgoing (fst (send_relay toy_prims 100 ''cat'' [1] ?s)) = ap_outgoing ?s @ [(''cat'', msg)]" by blast
  have "ap_outgoing ?s = []" "ap_relay_nonce ?s = 0" "id_uid (ap_identity ?s) = ''ann''" by (simp_all add: demo_app_def generate_def)
  then show ?thesis
    using sent restarted_origin_dropped [OF sent, of "(demo_app ''cat'' ''cat'')\<lparr>
        ap_relay_verifier := RelayVerifier_new\<lparr> rv_last_nonce := [(id_public_hex (ap_identity ?s), 5)] \<rparr>,
        ap_connection_manager := (ConnectionManager_new 9000)\<lparr> cm_known_peer_keys := [(''ann'', id_public_hex (ap_identity ?s))] \<rparr> \<rparr>" 5]
    by simp
qed

text \<open>A freshly installed node has no name. Without an identity file, start-up gives the node the
  empty uid, and every other node refuses to finish a handshake with it, in either direction, whatever it knows of it.\<close>
theorem fresh_node_cannot_connect:
  assumes fresh: "su_identity_file w = None"
    and auth: "sa_uid a = ap_uid_shared (new_with_port P C w port)"
  shows "sa_uid a = [] \<and> (json_ok J (auth_challenge P ea nonce a) \<longrightarrow>
      snd (inbound_handshake P J eb b keys (send_json J [] (auth_challenge P ea nonce a))) = Inl (InvalidData ''invalid challenger uid''))
    \<and> (json_ok J (auth_response P ea eb nonce a) \<longrightarrow>
      snd (outbound_handshake P J ea nonce b keys (send_json J [] (auth_response P ea eb nonce a))) = Inl (InvalidData ''invalid responder uid''))"
proof -
  have empty: "sa_uid a = []"
    using fresh auth by (simp add: new_with_port_def load_or_generate_def read_to_string_def generate_def Let_def)
  have "\<not> validate_uid []" by (simp add: validate_uid_def)
  then show ?thesis
    using recv_send_json [of J "auth_challenge P ea nonce a" "[]"] recv_send_json [of J "auth_response P ea eb nonce a" "[]"] empty
    by (auto simp: inbound_handshake_def outbound_handshake_def auth_challenge_def auth_response_def Let_def)
qed

definition no_codecs :: codecs where
  "no_codecs = \<lparr> cd_identity = one_ident_json (generate toy_prims [3] 7 ''ann''), cd_wal = toy_wal,
     cd_transport = \<lparr> tj_to = (\<lambda>_. []), tj_from = (\<lambda>_. None) \<rparr>, cd_wot_to = (\<lambda>_. []), cd_wot_from = (\<lambda>_. None) \<rparr>"

definition bare_disk :: startup where
  "bare_disk = \<lparr> su_identity_file = None, su_identity_io = WriteOk, su_key_bytes = [3], su_now = 7, su_instant = 0,
     su_wot_file = None, su_wal = None, su_friend_keys = (\<lambda>_. []), su_replay_keys = (\<lambda>_. []), su_transport_file = None \<rparr>"

theorem fresh_node_cannot_connect_witness:
  "snd (inbound_handshake toy_prims (two_json (auth_challenge toy_prims [1] [9] (demo_party [])) (FriendAccept [])) [2] (demo_party ''bob'') (Some [])
      (send_json (two_json (auth_challenge toy_prims [1] [9] (demo_party [])) (FriendAccept [])) [] (auth_challenge toy_prims [1] [9] (demo_party []))))
    = Inl (InvalidData ''invalid challenger uid'')"
proof -
  let ?chal = "auth_challenge toy_prims [1] [9] (demo_party [])"
  have "json_ok (two_json ?chal (FriendAccept [])) ?chal"
    by (simp add: json_ok_def two_json_def MAX_FRAME_def str_valid_def str_bytes_def utf8_valid_ascii)
  moreover have "su_identity_file bare_disk = None" by (simp add: bare_disk_def)
  moreover have "sa_uid (demo_party []) = ap_uid_shared (new_with_port toy_prims no_codecs bare_disk 9000)"
    by (simp add: demo_party_def new_with_port_def bare_disk_def load_or_generate_def read_to_string_def generate_def Let_def)
  ultimately show ?thesis
    using fresh_node_cannot_connect [of bare_disk "demo_party []" toy_prims no_codecs 9000 "two_json ?chal (FriendAccept [])" "[1]" "[9]"
        "[2]" "demo_party ''bob''" "Some []"] by blast
qed

text \<open>\<^verbatim>\<open>emit\<close> waits for ever once 4096 events have not been polled; as it is called with the state locked,
  nobody can poll them.\<close>
lemma emit_blocks: "emit e s = None \<longleftrightarrow> EVENT_CHANNEL_CAP \<le> length (ap_events s)"
  by (simp add: emit_def)

end
