(* ===== verification/Daemon.thy ===== *)
theory Daemon
  imports App
begin

text \<open>
  \<^verbatim>\<open>main.rs\<close>: the daemon, which puts the application state beside the network side and runs the two
  pumps between them. The application's connection manager is the network's (they share one object); here
  the network's copy is the current one and is handed to the application with each batch. The heart-beat task does
  nothing; logging and the terminal are left out.
\<close>

section \<open>The pumps\<close>

text \<open>One turn of \<^verbatim>\<open>outgoing_pump\<close>: a failed send is logged and forgotten.\<close>
definition outgoing_pump :: "json \<Rightarrow> uid \<times> PeerMessage \<Rightarrow> Net \<Rightarrow> Net" where
  "outgoing_pump J out n = n\<lparr> nt_writers := fst (send_to J (fst out) (snd out) (nt_cm n) (nt_writers n)) \<rparr>"

text \<open>Emitting a list of events; \<^const>\<open>None\<close> if one of them has to wait for ever.\<close>
fun emit_all :: "AppEvent list \<Rightarrow> AppState \<Rightarrow> AppState option" where
  "emit_all [] s = Some s"
| "emit_all (e # es) s = (case emit e s of None \<Rightarrow> None | Some s' \<Rightarrow> emit_all es s')"

definition round_context :: "AppState \<Rightarrow> bytes \<Rightarrow> RoundContext" where
  "round_context s sk = \<lparr> ctx_my_uid = id_uid (ap_identity s), ctx_signing_key = sk,
     ctx_edge_keys = edge_key_map (ap_bridge s), ctx_known_keys = cm_known_peer_keys (ap_connection_manager s) \<rparr>"

text \<open>The body of \<^verbatim>\<open>incoming_pump\<close> for one message, at a Unix time and an instant.\<close>
definition pump_message :: "prims \<Rightarrow> u64 \<Rightarrow> nat \<Rightarrow> uid \<times> PeerMessage \<Rightarrow> AppState \<Rightarrow> AppState option" where
  "pump_message P now inst inc s =
     (if is_relay (snd inc)
      then let (s', events) = handle_relay_message P now (snd inc) s in emit_all events s'
      else case signing_key (ap_identity s) of
        None \<Rightarrow> Some s
      | Some sk \<Rightarrow>
          (let (engine, event, out) = handle_incoming P inst (snd inc) (round_context s sk) (ap_round_engine s)
           in Some (s\<lparr> ap_round_engine := engine, ap_outgoing := ap_outgoing s @ out \<rparr>)))"

text \<open>A whole batch at one time, with nothing in between.\<close>
fun incoming_pump :: "prims \<Rightarrow> u64 \<Rightarrow> nat \<Rightarrow> (uid \<times> PeerMessage) list \<Rightarrow> AppState \<Rightarrow> AppState option" where
  "incoming_pump P now inst [] s = Some s"
| "incoming_pump P now inst (m # ms) s = (case pump_message P now inst m s of None \<Rightarrow> None | Some s' \<Rightarrow> incoming_pump P now inst ms s')"

section \<open>The daemon\<close>

record Daemon =
  dm_net :: Net
  dm_app :: AppState
  dm_batch :: "(uid \<times> PeerMessage) list" \<comment> \<open>drained by the incoming pump and not worked off\<close>

definition is_register :: "Net \<Rightarrow> Net \<Rightarrow> bool" where
  "is_register n n' \<longleftrightarrow> (\<exists>now u addr pk. n' = n\<lparr> nt_cm := register_peer now u addr pk (nt_cm n) \<rparr>)"

text \<open>The argument loop: the last \<^verbatim>\<open>--port\<close> with a number that fits wins.\<close>
fun parse_port :: "string list \<Rightarrow> u16 \<Rightarrow> u16" where
  "parse_port (a # v # args) port = (if a = ''--port''
     then parse_port args (case parse_uint (2 ^ 16) v of None \<Rightarrow> port | Some p \<Rightarrow> of_nat p)
     else parse_port (v # args) port)"
| "parse_port _ port = port"

text \<open>\<^verbatim>\<open>main\<close> up to its loop; \<^const>\<open>None\<close> is the exit for want of a usable key.\<close>
definition daemon_boot :: "prims \<Rightarrow> codecs \<Rightarrow> startup \<Rightarrow> string list \<Rightarrow> Daemon option" where
  "daemon_boot P C w args =
     (let port = parse_port args 9000;
          (app, taken) = take_outgoing_rx (new_with_port P C w port);
          d = \<lparr> dm_net = net_new (cm_listen_port (ap_connection_manager app)), dm_app = app, dm_batch = [] \<rparr>
      in if taken then case signing_key (ap_identity app) of None \<Rightarrow> None | Some _ \<Rightarrow> Some d else Some d)"

text \<open>The steps of the running daemon: whatever happens on the network side, except that nothing in it
  calls \<^verbatim>\<open>register_peer\<close>; a turn of the outgoing pump; and the incoming pump, which drains the queue into a batch
  and works it off message by message, each at its own time and with the connections as they are then.\<close>
inductive daemon_step :: "prims \<Rightarrow> json \<Rightarrow> Daemon \<Rightarrow> Daemon \<Rightarrow> bool" for P :: prims and J :: json where
  network: "net_step P J (dm_net d) n \<Longrightarrow> \<not> is_register (dm_net d) n \<Longrightarrow> daemon_step P J d (d\<lparr> dm_net := n \<rparr>)"
| pump_out: "ap_outgoing (dm_app d) = out # rest \<Longrightarrow>
    daemon_step P J d (d\<lparr> dm_net := outgoing_pump J out (dm_net d), dm_app := (dm_app d)\<lparr> ap_outgoing := rest \<rparr> \<rparr>)"
| drain: "dm_batch d = [] \<Longrightarrow>
    daemon_step P J d (d\<lparr> dm_net := (dm_net d)\<lparr> nt_incoming := [] \<rparr>, dm_batch := nt_incoming (dm_net d) \<rparr>)"
| pump_in: "dm_batch d = m # ms \<Longrightarrow>
    pump_message P now inst m ((dm_app d)\<lparr> ap_connection_manager := nt_cm (dm_net d) \<rparr>) = Some s \<Longrightarrow>
    daemon_step P J d (d\<lparr> dm_app := s, dm_batch := ms \<rparr>)"

inductive daemon_reach :: "prims \<Rightarrow> json \<Rightarrow> codecs \<Rightarrow> startup \<Rightarrow> string list \<Rightarrow> Daemon \<Rightarrow> bool"
  for P :: prims and J :: json and C :: codecs and w :: startup and args :: "string list" where
  boot: "daemon_boot P C w args = Some d \<Longrightarrow> daemon_reach P J C w args d"
| run: "daemon_reach P J C w args d \<Longrightarrow> daemon_step P J d d' \<Longrightarrow> daemon_reach P J C w args d'"

lemma parse_port_shown: "n < 2 ^ 16 \<Longrightarrow> parse_port [''--port'', show_nat n] port = of_nat n"
  by (simp add: parse_uint_show_nat)

section \<open>What the wiring allows\<close>

text \<open>No key on record, no authenticated session, nothing but keep-alives waiting.\<close>
definition unknown_net :: "Net \<Rightarrow> bool" where
  "unknown_net n \<longleftrightarrow> cm_known_peer_keys (nt_cm n) = []
     \<and> (\<forall>cid ctx l. hget (nt_readers n) cid = Some (ctx, l) \<longrightarrow> \<not> rx_peer_authenticated ctx)
     \<and> (\<forall>(u, m) \<in> set (nt_incoming n). allowed_unauthenticated m)"

lemma unknown_not_authenticated:
  "inbound_handshake P J eph auth (Some []) input = (out, Inr (K, rest)) \<Longrightarrow> \<not> sk_peer_authenticated K"
  "outbound_handshake P J eph nonce auth (Some []) input = (out, Inr (K, rest)) \<Longrightarrow> \<not> sk_peer_authenticated K"
  using inbound_authenticated_known [of P J eph auth "[]" input out K rest]
    outbound_authenticated_known [of P J eph nonce auth "[]" input out K rest] by auto

lemma unknown_establish:
  assumes "unknown_net n" and "\<not> sk_peer_authenticated K"
  shows "unknown_net (fst (establish addr K n))"
  using assms by (auto simp: unknown_net_def establish_def PeerWriter_new_def pin_identity_def Let_def)

lemma unknown_frames:
  assumes "unknown_net n"
  shows "unknown_net (accept_connection addr auth n)" "unknown_net (abandon_inbound i n)" "unknown_net (release_guard cid n)"
    "unknown_net (reader_ends cid n)" "unknown_net (writer_ends cid n)" "unknown_net (n\<lparr> nt_writers := ws \<rparr>)"
  using assms by (auto simp: unknown_net_def accept_connection_def abandon_inbound_def release_guard_def guard_drop_def
      reader_ends_def writer_ends_def remove_connection_def Let_def split: option.split)

lemma unknown_writer_turn: "unknown_net n \<Longrightarrow> unknown_net (writer_turn P nonce cid n)"
  by (auto simp: writer_turn_def unknown_frames split: option.split list.split prod.split sum.split)

lemma unknown_reader_turn:
  assumes "unknown_net n"
  shows "unknown_net (reader_turn P J stream cid n)"
proof (cases "hget (nt_readers n) cid")
  case (Some r)
  obtain ctx l where r: "r = (ctx, l)" by (cases r)
  have auth: "\<not> rx_peer_authenticated ctx" using assms Some r by (auto simp: unknown_net_def)
  have "\<forall>(u, m) \<in> set (reader_frame J ctx payload (nt_incoming n)). allowed_unauthenticated m" for payload
    using assms auth reader_frame_adds [of J ctx payload "nt_incoming n"]
    by (auto simp: unknown_net_def forwarded_ok_def)
  then have "unknown_net (n\<lparr> nt_readers := hput cid (ctx, seq) (nt_readers n),
      nt_incoming := reader_frame J ctx payload (nt_incoming n) \<rparr>)" for seq payload
    using assms auth by (auto simp: unknown_net_def)
  then show ?thesis using assms Some r
    by (auto simp: reader_turn_def unknown_frames split: prod.split sum.split)
qed (simp add: assms reader_turn_def)

lemma unknown_finish_inbound:
  assumes "unknown_net n" and "\<not> sk_peer_authenticated K"
  shows "unknown_net (finish_inbound i K n)"
  using unknown_establish [OF assms, of "fst (nt_pending n ! i)"]
  by (cases "establish (fst (nt_pending n ! i)) K n") (simp add: finish_inbound_def unknown_net_def)

lemma unknown_connect:
  assumes "unknown_net n"
  shows "unknown_net (fst (connect_to_peer P J eph nonce u addr auth input n))"
proof -
  have "unknown_net (fst (establish addr K n))"
    if "snd (outbound_handshake P J eph nonce auth (Some (cm_known_peer_keys (nt_cm n))) bs) = Inr (K, rest)" for bs K rest
    using that assms unknown_not_authenticated(2) [of P J eph nonce auth bs _ K rest]
    by (intro unknown_establish [OF assms]) (auto simp: unknown_net_def prod_eq_iff)
  then show ?thesis using assms by (auto simp: connect_to_peer_def split: option.split sum.split prod.split)
qed

lemma unknown_step:
  assumes "net_step P J n n'" and "\<not> is_register n n'" and "unknown_net n"
  shows "unknown_net n'"
  using assms
proof (cases rule: net_step.cases)
  case (inbound i eph input out K rest)
  have "\<not> sk_peer_authenticated K"
    using inbound(3) assms(3) unknown_not_authenticated(1) [of P J eph "snd (nt_pending n ! i)" input out K rest]
    by (simp add: unknown_net_def)
  then show ?thesis using unknown_finish_inbound [OF assms(3)] inbound(1) by simp
next
  case register
  then show ?thesis using assms(2) by (auto simp: is_register_def)
next
  case (take_incoming m ms)
  then show ?thesis using assms(3) by (auto simp: unknown_net_def)
qed (simp_all add: assms(3) unknown_frames unknown_connect unknown_writer_turn unknown_reader_turn)

lemma pump_keepalive: "allowed_unauthenticated (snd um) \<Longrightarrow> pump_message P now inst um s = Some s"
  by (cases um, cases "snd um") (auto simp: pump_message_def split: option.split)

text \<open>C23: The daemon as wired never gets beyond keep-alives. Since nothing in it registers a peer, in every state
  it can reach, after any traffic with any peers, the key directory is empty, no
  session is authenticated, only \<^verbatim>\<open>Ping\<close> and \<^verbatim>\<open>Pong\<close> wait in the inbound queue, and the round engine,
  the event channel and the outgoing channel are as at start-up: no round is run and no message relayed.\<close>
theorem daemon_stays_idle:
  assumes "daemon_reach P J C w args d"
  shows "unknown_net (dm_net d) \<and> ap_round_engine (dm_app d) = ap_round_engine (new_with_port P C w (parse_port args 9000))
    \<and> ap_events (dm_app d) = [] \<and> ap_outgoing (dm_app d) = [] \<and> list_all (\<lambda>(u, m). allowed_unauthenticated m) (dm_batch d)"
  using assms
proof (induction rule: daemon_reach.induct)
  case (boot d)
  then have d: "d = \<lparr> dm_net = net_new (parse_port args 9000), dm_app = (new_with_port P C w (parse_port args 9000))\<lparr> ap_outgoing_rx := False \<rparr>,
      dm_batch = [] \<rparr>"
    by (auto simp: daemon_boot_def take_outgoing_rx_def Let_def new_with_port_def ConnectionManager_new_def split: option.splits)
  have "unknown_net (net_new port)" for port by (simp add: unknown_net_def net_new_def ConnectionManager_new_def)
  then show ?case by (simp add: d) (simp add: new_with_port_def Let_def)
next
  case (run d d')
  from run.hyps(2) show ?case
  proof (cases rule: daemon_step.cases)
    case (network n)
    then show ?thesis using run.IH unknown_step by simp
  next
    case (pump_out out rest)
    then show ?thesis using run.IH by simp
  next
    case drain
    then show ?thesis using run.IH by (auto simp: unknown_net_def list_all_iff)
  next
    case (pump_in m ms now inst s)
    then have "s = (dm_app d)\<lparr> ap_connection_manager := nt_cm (dm_net d) \<rparr>"
      using run.IH pump_keepalive [of m P now inst] by (auto simp: split_beta)
    then show ?thesis using pump_in(1,2) run.IH by simp
  qed
qed

theorem daemon_stays_idle_witness:
  "\<exists>d. daemon_reach toy_prims demo_json no_codecs bare_disk [] d \<and> dm_net d = demo_net
    \<and> unknown_net demo_net \<and> ap_round_engine (dm_app d) = ap_round_engine (new_with_port toy_prims no_codecs bare_disk 9000)"
proof -
  let ?app = "new_with_port toy_prims no_codecs bare_disk 9000"
  let ?d = "\<lparr> dm_net = net_new 9000, dm_app = ?app\<lparr> ap_outgoing_rx := False \<rparr>, dm_batch = [] \<rparr>"
  have boot: "daemon_boot toy_prims no_codecs bare_disk [] = Some ?d"
    by (simp add: daemon_boot_def take_outgoing_rx_def new_with_port_def load_or_generate_def no_codecs_def bare_disk_def read_to_string_def
      ConnectionManager_new_def signing_key_def generate_def Let_def split: option.split)
  have step: "net_step toy_prims demo_json (dm_net ?d) demo_net" unfolding demo_net_def Daemon.simps by (rule net_step.outbound)
  have "cm_active_connections (nt_cm demo_net) \<noteq> []" using demo_net_table by auto
  then have "\<not> is_register (dm_net ?d) demo_net"
    by (auto simp: is_register_def register_peer_def net_new_def ConnectionManager_new_def dest: arg_cong [where f = "\<lambda>n. cm_active_connections (nt_cm n)"])
  from daemon_reach.run [OF daemon_reach.boot [OF boot] daemon_step.network [OF step this]]
  have "daemon_reach toy_prims demo_json no_codecs bare_disk [] (?d\<lparr> dm_net := demo_net \<rparr>)" .
  with daemon_stays_idle [OF this] show ?thesis by (intro exI [of _ "?d\<lparr> dm_net := demo_net \<rparr>"]) simp
qed

end
