(* ===== verification/Cluster.thy ===== *)
theory Cluster
  imports Daemon
begin

text \<open>
  Several daemons joined by their connections: what one daemon's writer task puts on the wire is what
  the peer's reader task reads. The operations are those of \<^verbatim>\<open>main.rs\<close> and \<^verbatim>\<open>connection_manager.rs\<close>, put
  one after the other; the theorem at the end takes a leader-based round through all of them. A node
  is found by its uid; \<open>conn p\<close> is the number the leader gave to its connection with \<open>p\<close>, and \<open>back p\<close>
  the number \<open>p\<close> gave to it.
\<close>

section \<open>Operations\<close>

type_synonym cluster = "uid \<Rightarrow> Daemon"

text \<open>The pumps of one node, each until its channel is empty.\<close>
definition run_out :: "json \<Rightarrow> uid \<Rightarrow> cluster \<Rightarrow> cluster" where
  "run_out J p D = D(p := (D p)\<lparr> dm_net := fold (outgoing_pump J) (ap_outgoing (dm_app (D p))) (dm_net (D p)),
     dm_app := (dm_app (D p))\<lparr> ap_outgoing := [] \<rparr> \<rparr>)"

definition run_in :: "prims \<Rightarrow> u64 \<Rightarrow> nat \<Rightarrow> uid \<Rightarrow> cluster \<Rightarrow> cluster option" where
  "run_in P now inst p D = map_option
     (\<lambda>s. D(p := (D p)\<lparr> dm_net := (dm_net (D p))\<lparr> nt_incoming := [] \<rparr>, dm_app := s \<rparr>))
     (incoming_pump P now inst (nt_incoming (dm_net (D p))) ((dm_app (D p))\<lparr> ap_connection_manager := nt_cm (dm_net (D p)) \<rparr>))"

text \<open>One turn of the writer of connection \<open>cid\<close>, then one of the reader of \<open>cid'\<close> at the other end on the
  bytes this added to the wire.\<close>
definition carry :: "prims \<Rightarrow> json \<Rightarrow> bytes \<Rightarrow> u64 \<Rightarrow> u64 \<Rightarrow> Net \<Rightarrow> Net \<Rightarrow> Net \<times> Net" where
  "carry P J nonce cid cid' n n' =
     (let n1 = writer_turn P nonce cid n;
          wire = (\<lambda>m. case hget (nt_writers m) cid of None \<Rightarrow> [] | Some t \<Rightarrow> wt_wire t)
      in (n1, reader_turn P J (drop (length (wire n)) (wire n1)) cid' n'))"

definition pass :: "prims \<Rightarrow> json \<Rightarrow> bytes \<Rightarrow> uid \<times> u64 \<Rightarrow> uid \<times> u64 \<Rightarrow> cluster \<Rightarrow> cluster" where
  "pass P J nonce src dst D =
     (let (n, n') = carry P J nonce (snd src) (snd dst) (dm_net (D (fst src))) (dm_net (D (fst dst)))
      in D(fst src := (D (fst src))\<lparr> dm_net := n \<rparr>, fst dst := (D (fst dst))\<lparr> dm_net := n' \<rparr>))"

text \<open>The leader's part in starting a round.\<close>
definition lead :: "prims \<Rightarrow> nat \<Rightarrow> string \<Rightarrow> uid list \<Rightarrow> bytes \<Rightarrow> uid \<Rightarrow> cluster \<Rightarrow> cluster" where
  "lead P inst ch ps sk l D =
     (let s = (dm_app (D l))\<lparr> ap_connection_manager := nt_cm (dm_net (D l)) \<rparr>;
          (e, out) = start_round_as_leader P inst ch ps (round_context s sk) (ap_round_engine s)
      in D(l := (D l)\<lparr> dm_app := s\<lparr> ap_round_engine := e, ap_outgoing := ap_outgoing s @ out \<rparr> \<rparr>))"

text \<open>What \<open>p\<close> contributes: the start reaches it, its pumps run, its answer reaches the leader, whose
  inbound pump runs at \<open>inst\<close>.\<close>
definition serve :: "prims \<Rightarrow> json \<Rightarrow> (uid \<Rightarrow> bytes) \<Rightarrow> u64 \<Rightarrow> (uid \<Rightarrow> u64) \<Rightarrow> (uid \<Rightarrow> u64) \<Rightarrow> uid \<Rightarrow> nat \<times> uid \<Rightarrow> cluster \<Rightarrow> cluster option" where
  "serve P J nn now conn back l ip D = (case ip of (inst, p) \<Rightarrow>
     (case run_in P now inst p (pass P J (nn p) (l, conn p) (p, back p) D) of
        None \<Rightarrow> None
      | Some D1 \<Rightarrow> run_in P now inst l (pass P J (nn p) (p, back p) (l, conn p) (run_out J p D1))))"

fun serve_all :: "prims \<Rightarrow> json \<Rightarrow> (uid \<Rightarrow> bytes) \<Rightarrow> u64 \<Rightarrow> (uid \<Rightarrow> u64) \<Rightarrow> (uid \<Rightarrow> u64) \<Rightarrow> uid \<Rightarrow> (nat \<times> uid) list \<Rightarrow> cluster \<Rightarrow> cluster option" where
  "serve_all P J nn now conn back l [] D = Some D"
| "serve_all P J nn now conn back l (ip # ips) D =
     (case serve P J nn now conn back l ip D of None \<Rightarrow> None | Some D' \<Rightarrow> serve_all P J nn now conn back l ips D')"

section \<open>They are steps of the daemons\<close>

lemma run_out_steps: "(daemon_step P J)\<^sup>*\<^sup>* (D p) (run_out J p D p)"
proof -
  have "(daemon_step P J)\<^sup>*\<^sup>* d (d\<lparr> dm_net := fold (outgoing_pump J) (ap_outgoing (dm_app d)) (dm_net d),
      dm_app := (dm_app d)\<lparr> ap_outgoing := [] \<rparr> \<rparr>)" for d
  proof (induction "ap_outgoing (dm_app d)" arbitrary: d)
    case Nil
    then have "d\<lparr> dm_net := fold (outgoing_pump J) (ap_outgoing (dm_app d)) (dm_net d), dm_app := (dm_app d)\<lparr> ap_outgoing := [] \<rparr> \<rparr> = d"
      by simp
    then show ?case by simp
  next
    case (Cons out rest)
    let ?d = "d\<lparr> dm_net := outgoing_pump J out (dm_net d), dm_app := (dm_app d)\<lparr> ap_outgoing := rest \<rparr> \<rparr>"
    have "daemon_step P J d ?d" using Cons.hyps(2) by (intro daemon_step.pump_out) simp
    moreover have "(daemon_step P J)\<^sup>*\<^sup>* ?d (?d\<lparr> dm_net := fold (outgoing_pump J) (ap_outgoing (dm_app ?d)) (dm_net ?d),
        dm_app := (dm_app ?d)\<lparr> ap_outgoing := [] \<rparr> \<rparr>)"
      by (rule Cons.hyps(1)) simp
    ultimately show ?case using Cons.hyps(2) [symmetric] by (simp add: converse_rtranclp_into_rtranclp)
  qed
  then show ?thesis by (simp add: run_out_def)
qed

lemma emit_all_keeps: "emit_all es s = Some s' \<Longrightarrow> ap_connection_manager s' = ap_connection_manager s"
  by (induction es arbitrary: s) (auto simp: emit_def split: option.splits if_splits)

lemma relay_keeps_connections:
  "ap_connection_manager (fst (handle_relay_message P now m s)) = ap_connection_manager s"
  by (cases m) (auto simp: route_relay_def Let_def split: prod.split option.split)

lemma pump_keeps_connections:
  "pump_message P now inst m s = Some s' \<Longrightarrow> ap_connection_manager s' = ap_connection_manager s"
  using relay_keeps_connections [of P now "snd m" s]
  by (auto simp: pump_message_def Let_def dest!: emit_all_keeps split: if_splits option.splits prod.splits)

lemma batch_steps:
  assumes "incoming_pump P now inst (dm_batch d) ((dm_app d)\<lparr> ap_connection_manager := nt_cm (dm_net d) \<rparr>) = Some s" and "dm_batch d \<noteq> []"
  shows "(daemon_step P J)\<^sup>*\<^sup>* d (d\<lparr> dm_app := s, dm_batch := [] \<rparr>)"
  using assms
proof (induction "dm_batch d" arbitrary: d)
  case Nil
  then show ?case by simp
next
  case (Cons m ms)
  let ?a = "(dm_app d)\<lparr> ap_connection_manager := nt_cm (dm_net d) \<rparr>"
  obtain s1 where s1: "pump_message P now inst m ?a = Some s1" "incoming_pump P now inst ms s1 = Some s"
    using Cons.prems(1) Cons.hyps(2) [symmetric] by (auto split: option.splits)
  let ?d = "d\<lparr> dm_app := s1, dm_batch := ms \<rparr>"
  have step: "daemon_step P J d ?d" by (rule daemon_step.pump_in [OF Cons.hyps(2) [symmetric] s1(1)])
  show ?case
  proof (cases ms)
    case Nil
    then show ?thesis using step s1(2) by (simp add: r_into_rtranclp)
  next
    case (Cons m' ms')
    have "s1\<lparr> ap_connection_manager := nt_cm (dm_net d) \<rparr> = s1" using pump_keeps_connections [OF s1(1)] by simp
    then have "(daemon_step P J)\<^sup>*\<^sup>* ?d (?d\<lparr> dm_app := s, dm_batch := [] \<rparr>)"
      using Cons.hyps s1(2) Cons by (intro Cons.hyps(1)) simp_all
    then show ?thesis using step by (simp add: converse_rtranclp_into_rtranclp)
  qed
qed

lemma run_in_steps:
  assumes "run_in P now inst p D = Some D'" and "dm_batch (D p) = []" and "nt_incoming (dm_net (D p)) \<noteq> []"
  shows "(daemon_step P J)\<^sup>*\<^sup>* (D p) (D' p)"
proof -
  let ?d = "(D p)\<lparr> dm_net := (dm_net (D p))\<lparr> nt_incoming := [] \<rparr>, dm_batch := nt_incoming (dm_net (D p)) \<rparr>"
  obtain s where s: "incoming_pump P now inst (dm_batch ?d) ((dm_app ?d)\<lparr> ap_connection_manager := nt_cm (dm_net ?d) \<rparr>) = Some s"
    "D' p = ?d\<lparr> dm_app := s, dm_batch := [] \<rparr>"
    using assms(1,2) by (auto simp: run_in_def)
  have "daemon_step P J (D p) ?d" by (rule daemon_step.drain [OF assms(2)])
  moreover have "(daemon_step P J)\<^sup>*\<^sup>* ?d (?d\<lparr> dm_app := s, dm_batch := [] \<rparr>)"
    by (rule batch_steps [OF s(1)]) (use assms(3) in simp)
  ultimately show ?thesis by (simp add: s(2) converse_rtranclp_into_rtranclp)
qed

lemma pass_steps:
  assumes "fst src \<noteq> fst dst"
  shows "net_step P J (dm_net (D (fst src))) (dm_net (pass P J nonce src dst D (fst src)))"
    and "net_step P J (dm_net (D (fst dst))) (dm_net (pass P J nonce src dst D (fst dst)))"
  using assms net_step.writes net_step.reads by (simp_all add: pass_def carry_def Let_def)

section \<open>One message over one connection\<close>

text \<open>A usable direction of a connection: the writer of \<open>cid\<close> has \<open>waiting\<close> in its queue, and the reader of
  \<open>cid'\<close> at the other end has the writer's key and position and knows the writer's node as \<open>u\<close>.\<close>
definition half_link :: "uid \<Rightarrow> bytes list \<Rightarrow> Net \<Rightarrow> u64 \<Rightarrow> Net \<Rightarrow> u64 \<Rightarrow> bool" where
  "half_link u waiting n cid n' cid' \<longleftrightarrow> (\<exists>t ctx. hget (nt_writers n) cid = Some t \<and> wt_rx t = waiting
     \<and> wt_seq t < wt_seq t + 1 \<and> hget (nt_readers n') cid' = Some (ctx, wt_seq t) \<and> rx_recv_key ctx = wt_send_key t
     \<and> rx_peer_uid ctx = u \<and> rx_peer_authenticated ctx)"

text \<open>A message that fits a frame and bears the name \<open>u\<close> wherever it comes from.\<close>
definition sendable :: "json \<Rightarrow> uid \<Rightarrow> PeerMessage \<Rightarrow> bool" where
  "sendable J u m \<longleftrightarrow> json_ok J m \<and> length (to_json J m) \<le> MAX_FRAME - 36 \<and> (\<forall>addr. extract_uid m addr = u)"

text \<open>AES-GCM encrypts whatever fits a frame.\<close>
definition encrypts :: "prims \<Rightarrow> bool" where
  "encrypts P \<longleftrightarrow> (\<forall>nonce plain key. length nonce = 12 \<and> length plain \<le> MAX_FRAME \<longrightarrow> encrypt_e2e P nonce plain key \<noteq> None)"

lemma carry_delivers:
  assumes "aead_law P" "encrypts P" and "length nonce = 12" and "validate_uid u"
    and link: "half_link u [str_bytes (to_json J m)] n cid n' cid'" and m: "sendable J u m"
    and room: "length (nt_incoming n') < INCOMING_CHANNEL_CAP"
  shows "\<exists>t r. carry P J nonce cid cid' n n' = (n\<lparr> nt_writers := hput cid t (nt_writers n) \<rparr>,
      n'\<lparr> nt_readers := hput cid' r (nt_readers n'), nt_incoming := nt_incoming n' @ [(u, m)] \<rparr>)"
proof -
  let ?p = "str_bytes (to_json J m)"
  obtain t ctx where t: "hget (nt_writers n) cid = Some t" "wt_rx t = [?p]" "wt_seq t < wt_seq t + 1"
    and ctx: "hget (nt_readers n') cid' = Some (ctx, wt_seq t)" "rx_recv_key ctx = wt_send_key t" "rx_peer_uid ctx = u"
      "rx_peer_authenticated ctx" using link by (auto simp: half_link_def)
  have size: "length ?p \<le> MAX_FRAME - 36" using m by (simp add: sendable_def)
  then have "length (be_bytes 8 (unat (wt_seq t + 1)) @ ?p) \<le> MAX_FRAME" by (simp add: MAX_FRAME_def)
  then obtain enc where enc: "encrypt_e2e P nonce (be_bytes 8 (unat (wt_seq t + 1)) @ ?p) (wt_send_key t) = Some enc"
    using assms(2,3) unfolding encrypts_def by blast
  have w: "writer_turn P nonce cid n = n\<lparr> nt_writers := hput cid
      (t\<lparr> wt_rx := [], wt_seq := wt_seq t + 1, wt_wire := wt_wire t @ frame_of enc \<rparr>) (nt_writers n) \<rparr>"
    using t enc by (simp add: writer_turn_def send_secure_frame_def frame_of_def Let_def)
  have r: "recv_secure_frame P (frame_of enc) (rx_recv_key ctx) (wt_seq t) = Inr (?p, [], wt_seq t + 1)"
    using recv_one [OF assms(1,3) enc size t(3), of "[]"] by (simp add: ctx(2))
  have "deliverable P J ctx (nonce, m)" using assms(2,3) m ctx(3) by (auto simp: deliverable_def sendable_def encrypts_def)
  then have "reader_frame J ctx ?p (nt_incoming n') = nt_incoming n' @ [(u, m)]"
    using reader_frame_deliverable [of P J ctx nonce m] ctx(3,4) assms(4) room by simp
  then show ?thesis using t(1) ctx(1) r by (auto simp: carry_def w reader_turn_def)
qed

lemma pass_delivers:
  assumes "aead_law P" "encrypts P" and "length nonce = 12" and "validate_uid p" and "p \<noteq> q"
    and "half_link p [str_bytes (to_json J m)] (dm_net (D p)) cid (dm_net (D q)) cid'" and "sendable J p m"
    and "nt_incoming (dm_net (D q)) = []"
  shows "\<exists>t r. pass P J nonce (p, cid) (q, cid') D =
      D(p := (D p)\<lparr> dm_net := (dm_net (D p))\<lparr> nt_writers := hput cid t (nt_writers (dm_net (D p))) \<rparr> \<rparr>,
        q := (D q)\<lparr> dm_net := (dm_net (D q))\<lparr> nt_readers := hput cid' r (nt_readers (dm_net (D q))), nt_incoming := [(p, m)] \<rparr> \<rparr>)"
proof -
  obtain t r where "carry P J nonce cid cid' (dm_net (D p)) (dm_net (D q)) = ((dm_net (D p))\<lparr> nt_writers := hput cid t (nt_writers (dm_net (D p))) \<rparr>,
      (dm_net (D q))\<lparr> nt_readers := hput cid' r (nt_readers (dm_net (D q))), nt_incoming := [(p, m)] \<rparr>)"
    using carry_delivers [OF assms(1-4,6,7)] assms(8) by (auto simp: INCOMING_CHANNEL_CAP_def)
  then show ?thesis by (intro exI [of _ t] exI [of _ r]) (simp add: pass_def)
qed

section \<open>From the handshake to the connection\<close>

lemma establish_links:
  assumes "sk_send_key A = sk_recv_key B" and "sk_peer_uid B = u" and "sk_peer_authenticated B"
  shows "half_link u [] (fst (establish addr A n)) (nt_next_conn_id n) (fst (establish addr' B n')) (nt_next_conn_id n')"
  using assms by (simp add: half_link_def establish_def PeerWriter_new_def Let_def)

lemma establish_active: "hget (cm_active_connections (nt_cm (fst (establish addr K n)))) (sk_peer_uid K) = Some \<lparr> pw_conn_id = nt_next_conn_id n \<rparr>"
  by (simp add: establish_def PeerWriter_new_def Let_def)

lemma finish_inbound_links:
  "half_link u w n cid (finish_inbound i K n') cid' = half_link u w n cid (fst (establish (fst (nt_pending n' ! i)) K n')) cid'"
  "half_link u w (finish_inbound i K n') cid' n cid = half_link u w (fst (establish (fst (nt_pending n' ! i)) K n')) cid' n cid"
  "nt_cm (finish_inbound i K n') = nt_cm (fst (establish (fst (nt_pending n' ! i)) K n'))"
  by (simp_all add: finish_inbound_def half_link_def split_beta)

text \<open>C9: Registered peers get a connection that works. When each of two nodes has the other's key on record and
  one connects to the other, the challenge and the response cross, both sides finish, each has the
  other in its table under the new connection's number, and the connection is usable and
  authenticated in both directions: what either writer sends, the other's reader takes as coming from
  that peer.\<close>
theorem registered_peers_join:
  fixes P :: prims and J :: json
  assumes laws: "sig_law P" "keys_law P" "dh_law P"
    and parties: "party_ok P a" "party_ok P b"
    and known: "knows (cm_known_peer_keys (nt_cm n)) b" "knows (cm_known_peer_keys (nt_cm n')) a"
    and contrib: "x_contributory P (x_dh P ea (x_public P eb))"
    and json: "json_ok J (auth_challenge P ea nonce a)" "json_ok J (auth_response P ea eb nonce b)"
    and pending: "i < length (nt_pending n')" "snd (nt_pending n' ! i) = b"
  shows "\<exists>chal resp K n1 n1'. connect_to_peer P J ea nonce (sa_uid b) addr a (Some resp) n = (n1, Inr ())
    \<and> fst (outbound_handshake P J ea nonce a (Some (cm_known_peer_keys (nt_cm n))) resp) = chal
    \<and> inbound_handshake P J eb b (Some (cm_known_peer_keys (nt_cm n'))) chal = (resp, Inr (K, [])) \<and> n1' = finish_inbound i K n'
    \<and> hget (cm_active_connections (nt_cm n1)) (sa_uid b) = Some \<lparr> pw_conn_id = nt_next_conn_id n \<rparr>
    \<and> hget (cm_active_connections (nt_cm n1')) (sa_uid a) = Some \<lparr> pw_conn_id = nt_next_conn_id n' \<rparr>
    \<and> half_link (sa_uid a) [] n1 (nt_next_conn_id n) n1' (nt_next_conn_id n')
    \<and> half_link (sa_uid b) [] n1' (nt_next_conn_id n') n1 (nt_next_conn_id n)"
proof -
  let ?ka = "cm_known_peer_keys (nt_cm n)" and ?kb = "cm_known_peer_keys (nt_cm n')"
  let ?A = "view_of (fst (keys_of P ea eb)) (snd (keys_of P ea eb)) ?ka b"
  let ?B = "view_of (snd (keys_of P ea eb)) (fst (keys_of P ea eb)) ?kb a"
  have trust: "not_contradicted ?ka b" "not_contradicted ?kb a" using known by (simp_all add: not_contradicted_def)
  have hs: "outbound_handshake P J ea nonce a (Some ?ka) (send_json J [] (auth_response P ea eb nonce b)) =
      (send_json J [] (auth_challenge P ea nonce a), Inr (?A, []))"
    "inbound_handshake P J eb b (Some ?kb) (send_json J [] (auth_challenge P ea nonce a)) =
      (send_json J [] (auth_response P ea eb nonce b), Inr (?B, []))"
    using handshake_outcome [OF laws parties trust contrib json, of "[]"] by simp_all
  have AB: "sk_peer_uid ?A = sa_uid b" "sk_peer_uid ?B = sa_uid a" "sk_peer_authenticated ?A" "sk_peer_authenticated ?B"
    "sk_send_key ?A = sk_recv_key ?B" "sk_send_key ?B = sk_recv_key ?A" using known by (simp_all add: view_of_def)
  let ?n1 = "fst (establish addr ?A n)"
  have "connect_to_peer P J ea nonce (sa_uid b) addr a (Some (send_json J [] (auth_response P ea eb nonce b))) n = (?n1, Inr ())"
    by (simp add: connect_to_peer_def hs(1) AB(1))
  then show ?thesis
    using hs establish_links [OF AB(5,2,4), of addr n "fst (nt_pending n' ! i)" n'] establish_links [OF AB(6,1,3), of "fst (nt_pending n' ! i)" n' addr n]
      establish_active [of addr ?A n] establish_active [of "fst (nt_pending n' ! i)" ?B n'] AB(1,2)
    by (intro exI [of _ "send_json J [] (auth_challenge P ea nonce a)"] exI [of _ "send_json J [] (auth_response P ea eb nonce b)"]
        exI [of _ ?B] exI [of _ ?n1] exI [of _ "finish_inbound i ?B n'"]) (simp add: finish_inbound_links)
qed

theorem registered_peers_join_witness:
  "\<exists>resp n1. connect_to_peer toy_prims demo_json [1] [9] ''bob'' demo_addr (demo_party ''ann'') (Some resp)
      ((net_new 9000)\<lparr> nt_cm := register_peer 0 ''bob'' demo_addr (sa_public_hex (demo_party ''bob'')) (ConnectionManager_new 9000) \<rparr>) = (n1, Inr ())
    \<and> hget (cm_active_connections (nt_cm n1)) ''bob'' = Some \<lparr> pw_conn_id = 1 \<rparr>"
proof -
  let ?n = "(net_new 9000)\<lparr> nt_cm := register_peer 0 ''bob'' demo_addr (sa_public_hex (demo_party ''bob'')) (ConnectionManager_new 9000) \<rparr>"
  let ?m = "accept_connection demo_addr (demo_party ''bob'')
    ((net_new 9000)\<lparr> nt_cm := register_peer 0 ''ann'' demo_addr (sa_public_hex (demo_party ''ann'')) (ConnectionManager_new 9000) \<rparr>)"
  have known: "knows (cm_known_peer_keys (nt_cm ?n)) (demo_party ''bob'')" "knows (cm_known_peer_keys (nt_cm ?m)) (demo_party ''ann'')"
    by (simp_all add: knows_def register_peer_def ConnectionManager_new_def demo_party_def accept_connection_def net_new_def MAX_CONNECTIONS_def)
  have pending: "0 < length (nt_pending ?m)" "snd (nt_pending ?m ! 0) = demo_party ''bob''"
    by (simp_all add: accept_connection_def net_new_def MAX_CONNECTIONS_def)
  from registered_peers_join [OF toy_sig toy_keys toy_dh demo_parties known demo_contributory demo_json_ok [folded demo_json_def] pending, of demo_addr]
  show ?thesis by (auto simp: demo_party_def net_new_def)
qed

section \<open>The pumps of one node\<close>

text \<open>Node \<open>p\<close> has its own name, signing key and edge keys.\<close>
definition node :: "(uid \<Rightarrow> bytes) \<Rightarrow> (uid \<Rightarrow> (uid, bytes) hmap) \<Rightarrow> uid \<Rightarrow> Daemon \<Rightarrow> bool" where
  "node sk ek p d \<longleftrightarrow> id_uid (ap_identity (dm_app d)) = p \<and> signing_key (ap_identity (dm_app d)) = Some (sk p)
     \<and> edge_key_map (ap_bridge (dm_app d)) = ek p"

abbreviation known_keys :: "Daemon \<Rightarrow> (uid, string) hmap" where
  "known_keys d \<equiv> cm_known_peer_keys (nt_cm (dm_net d))"

lemma node_context:
  "node sk ek p d \<Longrightarrow> round_context ((dm_app d)\<lparr> ap_connection_manager := nt_cm (dm_net d) \<rparr>) (sk p) = member_ctx sk ek (known_keys d) p"
  by (simp add: node_def round_context_def member_ctx_def)

lemma run_in_one:
  assumes "node sk ek p (D p)" and "nt_incoming (dm_net (D p)) = [(u, m)]" and "\<not> is_relay m"
    and "handle_incoming P inst m (member_ctx sk ek (known_keys (D p)) p) (ap_round_engine (dm_app (D p))) = (e, ev, out)"
  shows "run_in P now inst p D = Some (D(p := (D p)\<lparr> dm_net := (dm_net (D p))\<lparr> nt_incoming := [] \<rparr>,
      dm_app := (dm_app (D p))\<lparr> ap_connection_manager := nt_cm (dm_net (D p)), ap_round_engine := e,
        ap_outgoing := ap_outgoing (dm_app (D p)) @ out \<rparr> \<rparr>))"
  using assms node_context [OF assms(1)] by (simp add: run_in_def pump_message_def node_def)

lemma run_out_one:
  assumes "ap_outgoing (dm_app (D p)) = [(q, m)]" and "hget (cm_active_connections (nt_cm (dm_net (D p)))) q = Some \<lparr> pw_conn_id = cid \<rparr>"
    and "hget (nt_writers (dm_net (D p))) cid = Some t" and "wt_rx t = []"
  shows "run_out J p D = D(p := (D p)\<lparr> dm_net := (dm_net (D p))\<lparr> nt_writers := hput cid (t\<lparr> wt_rx := [str_bytes (to_json J m)] \<rparr>)
      (nt_writers (dm_net (D p))) \<rparr>, dm_app := (dm_app (D p))\<lparr> ap_outgoing := [] \<rparr> \<rparr>)"
  using assms by (simp add: run_out_def outgoing_pump_def send_to_def try_send_def WRITER_QUEUE_CAP_def)

section \<open>One member's turn\<close>

text \<open>The round: its channel, number, members, sender and text, and the keys of the members.\<close>
record round_setup =
  ru_ch :: string
  ru_r :: u64
  ru_ps :: "uid list"
  ru_s :: uid
  ru_tx :: string
  ru_sk :: "uid \<Rightarrow> bytes"
  ru_ek :: "uid \<Rightarrow> (uid, bytes) hmap"

abbreviation start_of :: "round_setup \<Rightarrow> uid \<Rightarrow> PeerMessage" where
  "start_of R l \<equiv> DcRoundStart (ru_ch R) (ru_r R) l (ru_ps R) 30 DEFAULT_PAYLOAD_LEN"

abbreviation share_of :: "prims \<Rightarrow> round_setup \<Rightarrow> uid \<Rightarrow> PeerMessage" where
  "share_of P R \<equiv> engine_share P (ru_ch R) (ru_r R) (ru_ps R) (ru_s R) (ru_tx R) (ru_sk R) (ru_ek R)"

text \<open>Before member \<open>p\<close> has its turn: its engine waits for the round, both directions of its connection with
  the leader are usable, and \<open>w\<close> is queued for it at the leader.\<close>
definition awaits :: "round_setup \<Rightarrow> (uid \<Rightarrow> u64) \<Rightarrow> (uid \<Rightarrow> u64) \<Rightarrow> uid \<Rightarrow> bytes list \<Rightarrow> uid \<Rightarrow> cluster \<Rightarrow> bool" where
  "awaits R conn back l w p D \<longleftrightarrow> node (ru_sk R) (ru_ek R) p (D p)
     \<and> nt_incoming (dm_net (D p)) = [] \<and> ap_outgoing (dm_app (D p)) = []
     \<and> engine_idle (ru_r R) p (if p = ru_s R then [ru_tx R] else []) (ap_round_engine (dm_app (D p)))
     \<and> hget (cm_active_connections (nt_cm (dm_net (D p)))) l = Some \<lparr> pw_conn_id = back p \<rparr>
     \<and> half_link l w (dm_net (D l)) (conn p) (dm_net (D p)) (back p)
     \<and> half_link p [] (dm_net (D p)) (back p) (dm_net (D l)) (conn p)"

text \<open>What the wiring needs of the members' messages.\<close>
definition wired :: "prims \<Rightarrow> json \<Rightarrow> round_setup \<Rightarrow> uid \<Rightarrow> uid \<Rightarrow> bool" where
  "wired P J R l p \<longleftrightarrow> p \<noteq> l \<and> p \<in> set (ru_ps R) \<and> validate_uid l \<and> validate_uid p
     \<and> sendable J l (start_of R l) \<and> sendable J p (share_of P R p)"

definition setup_ok :: "round_setup \<Rightarrow> (uid set \<Rightarrow> bytes) \<Rightarrow> bool" where
  "setup_ok R key \<longleftrightarrow> edges_agree key (ru_ek R) (ru_ps R) \<and> 2 \<le> length (ru_ps R) \<and> distinct (ru_ps R)
     \<and> ru_s R \<in> set (ru_ps R) \<and> 36 + length (ru_tx R) \<le> DEFAULT_PAYLOAD_LEN \<and> str_valid (ru_tx R)"

text \<open>The start reaches the member, which answers: its share waits in the queue of its connection with the
  leader.\<close>
lemma member_turn:
  assumes "aead_law P" "encrypts P" and nonce: "length (nn p) = 12" and R: "setup_ok R key" and p: "wired P J R l p"
    and ready: "awaits R conn back l [str_bytes (to_json J (start_of R l))] p D"
  shows "\<exists>d t D2. run_in P now inst p (pass P J (nn p) (l, conn p) (p, back p) D) = Some D2
    \<and> run_out J p D2 = D(l := (D l)\<lparr> dm_net := (dm_net (D l))\<lparr> nt_writers := hput (conn p) t (nt_writers (dm_net (D l))) \<rparr> \<rparr>, p := d)
    \<and> half_link p [str_bytes (to_json J (share_of P R p))] (dm_net d) (back p) (dm_net (D l)) (conn p)"
proof -
  note ready = ready [unfolded awaits_def] and p = p [unfolded wired_def]
  obtain t1 r1 where D1: "pass P J (nn p) (l, conn p) (p, back p) D =
      D(l := (D l)\<lparr> dm_net := (dm_net (D l))\<lparr> nt_writers := hput (conn p) t1 (nt_writers (dm_net (D l))) \<rparr> \<rparr>,
        p := (D p)\<lparr> dm_net := (dm_net (D p))\<lparr> nt_readers := hput (back p) r1 (nt_readers (dm_net (D p))), nt_incoming := [(l, start_of R l)] \<rparr> \<rparr>)"
      (is "_ = ?D1")
    using pass_delivers [OF assms(1-3), of l p J "start_of R l" D "conn p" "back p"] p ready by auto
  obtain e1 where "handle_incoming P inst (start_of R l) (member_ctx (ru_sk R) (ru_ek R) (known_keys (?D1 p)) p)
      (ap_round_engine (dm_app (?D1 p))) = (e1, None, [(l, share_of P R p)])"
    using engine_member_answers [of key "ru_ek R" "ru_ps R" p "ru_tx R" "ru_r R" "ru_s R" "ap_round_engine (dm_app (D p))"]
      R p ready by (force simp: setup_ok_def)
  then have D2: "run_in P now inst p ?D1 = Some (?D1(p := (?D1 p)\<lparr> dm_net := (dm_net (?D1 p))\<lparr> nt_incoming := [] \<rparr>,
      dm_app := (dm_app (D p))\<lparr> ap_connection_manager := nt_cm (dm_net (D p)), ap_round_engine := e1, ap_outgoing := [(l, share_of P R p)] \<rparr> \<rparr>))"
      (is "_ = Some ?D2")
    using run_in_one [of "ru_sk R" "ru_ek R" p ?D1 l "start_of R l"] p ready by (simp add: node_def)
  obtain t where t: "hget (nt_writers (dm_net (D p))) (back p) = Some t" "wt_rx t = []"
    and link: "half_link p [] (dm_net (D p)) (back p) (dm_net (D l)) (conn p)" using ready by (auto simp: half_link_def)
  let ?d = "(?D2 p)\<lparr> dm_net := (dm_net (?D2 p))\<lparr> nt_writers := hput (back p) (t\<lparr> wt_rx := [str_bytes (to_json J (share_of P R p))] \<rparr>)
      (nt_writers (dm_net (D p))) \<rparr>, dm_app := (dm_app (?D2 p))\<lparr> ap_outgoing := [] \<rparr> \<rparr>"
  have D3: "run_out J p ?D2 = ?D2(p := ?d)"
    using run_out_one [of ?D2 p l "share_of P R p" "back p" t J] p ready t by auto
  have "half_link p [str_bytes (to_json J (share_of P R p))] (dm_net ?d) (back p) (dm_net (D l)) (conn p)"
    using link t by (auto simp: half_link_def)
  then show ?thesis using D1 D2 D3 by (intro exI [of _ ?d] exI [of _ t1] exI [of _ ?D2]) simp
qed

lemma serve_one:
  assumes "aead_law P" "encrypts P" and nonce: "length (nn p) = 12" and R: "setup_ok R key" and p: "wired P J R l p"
    and leader: "node (ru_sk R) (ru_ek R) l (D l)" "nt_incoming (dm_net (D l)) = []" and ready: "awaits R conn back l [str_bytes (to_json J (start_of R l))] p D"
    and answer: "handle_incoming P inst (share_of P R p) (member_ctx (ru_sk R) (ru_ek R) (known_keys (D l)) l)
      (ap_round_engine (dm_app (D l))) = (e, ev, out)"
  shows "\<exists>d t r. serve P J nn now conn back l (inst, p) D = Some (D(p := d, l := (D l)\<lparr>
      dm_net := (dm_net (D l))\<lparr> nt_writers := hput (conn p) t (nt_writers (dm_net (D l))),
        nt_readers := hput (conn p) r (nt_readers (dm_net (D l))), nt_incoming := [] \<rparr>,
      dm_app := (dm_app (D l))\<lparr> ap_connection_manager := nt_cm (dm_net (D l)), ap_round_engine := e,
        ap_outgoing := ap_outgoing (dm_app (D l)) @ out \<rparr> \<rparr>))"
proof -
  obtain d t D2 where D2: "run_in P now inst p (pass P J (nn p) (l, conn p) (p, back p) D) = Some D2"
    and D3: "run_out J p D2 = D(l := (D l)\<lparr> dm_net := (dm_net (D l))\<lparr> nt_writers := hput (conn p) t (nt_writers (dm_net (D l))) \<rparr> \<rparr>, p := d)"
      (is "_ = ?D3")
    and link: "half_link p [str_bytes (to_json J (share_of P R p))] (dm_net d) (back p) (dm_net (D l)) (conn p)"
    using member_turn [where nn = nn and p = p, OF assms(1-5) ready] by metis
  note p = p [unfolded wired_def]
  have lp: "l \<noteq> p" "p \<noteq> l" using p by auto
  have relay: "\<not> is_relay (share_of P R p)" by (simp add: engine_share_def Let_def)
  have link3: "half_link p [str_bytes (to_json J (share_of P R p))] (dm_net (?D3 p)) (back p) (dm_net (?D3 l)) (conn p)"
    using link p by (auto simp: half_link_def)
  obtain t4 r4 where D4: "pass P J (nn p) (p, back p) (l, conn p) ?D3 =
      ?D3(p := (?D3 p)\<lparr> dm_net := (dm_net (?D3 p))\<lparr> nt_writers := hput (back p) t4 (nt_writers (dm_net (?D3 p))) \<rparr> \<rparr>,
        l := (?D3 l)\<lparr> dm_net := (dm_net (?D3 l))\<lparr> nt_readers := hput (conn p) r4 (nt_readers (dm_net (?D3 l))), nt_incoming := [(p, share_of P R p)] \<rparr> \<rparr>)"
      (is "_ = ?D4")
    using pass_delivers [OF assms(1-3), of p l J "share_of P R p" ?D3 "back p" "conn p"] link3 p leader(2) by auto
  have D5: "run_in P now inst l ?D4 = Some (?D4(l := (?D4 l)\<lparr> dm_net := (dm_net (?D4 l))\<lparr> nt_incoming := [] \<rparr>,
      dm_app := (dm_app (D l))\<lparr> ap_connection_manager := nt_cm (dm_net (D l)), ap_round_engine := e,
        ap_outgoing := ap_outgoing (dm_app (D l)) @ out \<rparr> \<rparr>))"
    using lp run_in_one [of "ru_sk R" "ru_ek R" l ?D4 p "share_of P R p" P inst e ev out now] leader answer relay by (simp add: node_def)
  show ?thesis using lp D2 D3 D4 D5
    by (intro exI [of _ "?D4 p"] exI [of _ t] exI [of _ r4]) (simp add: serve_def)
qed

lemma awaits_frame:
  assumes "awaits R conn back l w q D" and "q \<noteq> p" "q \<noteq> l" and "conn q \<noteq> conn p" and "D' q = D q"
    and "nt_writers (dm_net (D' l)) = hput (conn p) t (nt_writers (dm_net (D l)))"
    and "nt_readers (dm_net (D' l)) = hput (conn p) r (nt_readers (dm_net (D l)))"
  shows "awaits R conn back l w q D'"
  using assms by (auto simp: awaits_def half_link_def)

section \<open>The whole round\<close>

lemma engine_run_out:
  "handle_incoming P t m ctx e = (e', ev, out) \<Longrightarrow>
     snd (snd (engine_run P ctx ((t, m) # ms) e)) = out @ snd (snd (engine_run P ctx ms e'))"
  by (simp add: split_beta Let_def)

lemma serve_all_runs:
  assumes "aead_law P" "encrypts P" and R: "setup_ok R key"
    and members: "\<forall>(u, q) \<in> set ts. length (nn q) = 12 \<and> wired P J R l q \<and> awaits R conn back l [str_bytes (to_json J (start_of R l))] q D"
    and "distinct (map snd ts)" and "inj_on conn (set (map snd ts))"
    and "node (ru_sk R) (ru_ek R) l (D l)" and "nt_incoming (dm_net (D l)) = []"
  shows "\<exists>D'. serve_all P J nn now conn back l ts D = Some D' \<and> ap_outgoing (dm_app (D' l)) = ap_outgoing (dm_app (D l))
    @ snd (snd (engine_run P (member_ctx (ru_sk R) (ru_ek R) (known_keys (D l)) l)
        (map (\<lambda>(t, q). (t, share_of P R q)) ts) (ap_round_engine (dm_app (D l)))))"
  using assms(4-8)
proof (induction ts arbitrary: D)
  case (Cons uq ts)
  obtain u q where uq: "uq = (u, q)" by (cases uq)
  obtain e ev out where answer: "handle_incoming P u (share_of P R q) (member_ctx (ru_sk R) (ru_ek R) (known_keys (D l)) l)
      (ap_round_engine (dm_app (D l))) = (e, ev, out)" by (metis prod_cases3)
  have q: "length (nn q) = 12" "wired P J R l q" "awaits R conn back l [str_bytes (to_json J (start_of R l))] q D"
    using Cons.prems(1) by (auto simp: uq)
  obtain d t r where one: "serve P J nn now conn back l (u, q) D = Some (D(q := d, l := (D l)\<lparr>
      dm_net := (dm_net (D l))\<lparr> nt_writers := hput (conn q) t (nt_writers (dm_net (D l))),
        nt_readers := hput (conn q) r (nt_readers (dm_net (D l))), nt_incoming := [] \<rparr>,
      dm_app := (dm_app (D l))\<lparr> ap_connection_manager := nt_cm (dm_net (D l)), ap_round_engine := e,
        ap_outgoing := ap_outgoing (dm_app (D l)) @ out \<rparr> \<rparr>))" (is "_ = Some ?D")
    using serve_one [where nn = nn and p = q, OF assms(1,2) q(1) R q(2) Cons.prems(4,5) q(3) answer] by blast
  have more: "\<forall>(u', q') \<in> set ts. length (nn q') = 12 \<and> wired P J R l q' \<and> awaits R conn back l [str_bytes (to_json J (start_of R l))] q' ?D"
  proof safe
    fix u' q' assume m: "(u', q') \<in> set ts"
    then show "length (nn q') = 12" "wired P J R l q'" using Cons.prems(1) by auto
    have "q' \<noteq> q" "conn q' \<noteq> conn q" using m Cons.prems(2,3) by (auto simp: uq image_iff inj_on_def)
    moreover have "q' \<noteq> l" using m Cons.prems(1) by (auto simp: wired_def)
    ultimately show "awaits R conn back l [str_bytes (to_json J (start_of R l))] q' ?D"
      using m Cons.prems(1) by (intro awaits_frame [where D = D and D' = ?D and p = q and t = t and r = r]) auto
  qed
  have leader: "node (ru_sk R) (ru_ek R) l (?D l)" "nt_incoming (dm_net (?D l)) = []"
    using Cons.prems(4,5) by (simp_all add: node_def)
  have "distinct (map snd ts)" "inj_on conn (set (map snd ts))" using Cons.prems(2,3) by (simp_all add: uq)
  from Cons.IH [OF more this leader]
  obtain D' where "serve_all P J nn now conn back l ts ?D = Some D'" and "ap_outgoing (dm_app (D' l)) = ap_outgoing (dm_app (?D l))
    @ snd (snd (engine_run P (member_ctx (ru_sk R) (ru_ek R) (known_keys (?D l)) l)
        (map (\<lambda>(t, q). (t, share_of P R q)) ts) (ap_round_engine (dm_app (?D l)))))"
    by blast
  then show ?case using one engine_run_out [OF answer] by (simp add: uq)
qed simp

text \<open>The outgoing pump on one message for every member: it is queued at each connection, and dropped for the
  leader itself, which has none.\<close>
lemma inj_on_head:
  assumes "inj_on f (set (p # ps) - {l})" and "distinct (p # ps)" and "p \<noteq> l"
  shows "f p \<notin> f ` (set ps - {l})"
  using assms by (auto dest: inj_onD)

lemma pump_each:
  assumes "distinct ps" and "inj_on conn (set ps - {l})" and "hget (cm_active_connections (nt_cm n)) l = None"
    and "\<forall>p \<in> set ps - {l}. hget (cm_active_connections (nt_cm n)) p = Some \<lparr> pw_conn_id = conn p \<rparr>
      \<and> (\<exists>t. hget (nt_writers n) (conn p) = Some t \<and> wt_rx t = [])"
  shows "\<exists>ws. fold (outgoing_pump J) (map (\<lambda>p. (p, m)) ps) n = n\<lparr> nt_writers := ws \<rparr>
    \<and> (\<forall>cid. hget ws cid = (if cid \<in> conn ` (set ps - {l})
        then map_option (\<lambda>t. t\<lparr> wt_rx := [str_bytes (to_json J m)] \<rparr>) (hget (nt_writers n) cid) else hget (nt_writers n) cid))"
  using assms
proof (induction ps arbitrary: n)
  case Nil
  then show ?case by (intro exI [of _ "nt_writers n"]) simp
next
  case (Cons p ps)
  show ?case
  proof (cases "p = l")
    case True
    have "outgoing_pump J (p, m) n = n" using Cons.prems(3) True by (simp add: outgoing_pump_def send_to_def)
    then show ?thesis using Cons.IH [of n] Cons.prems True by simp
  next
    case False
    obtain t where t: "hget (nt_writers n) (conn p) = Some t" "wt_rx t = []" using Cons.prems(4) False by auto
    let ?n = "n\<lparr> nt_writers := hput (conn p) (t\<lparr> wt_rx := [str_bytes (to_json J m)] \<rparr>) (nt_writers n) \<rparr>"
    have one: "outgoing_pump J (p, m) n = ?n"
      using Cons.prems(4) False t by (simp add: outgoing_pump_def send_to_def try_send_def WRITER_QUEUE_CAP_def)
    have new: "conn p \<notin> conn ` (set ps - {l})" using Cons.prems(2,1) False by (rule inj_on_head)
    have "\<forall>q \<in> set ps - {l}. hget (cm_active_connections (nt_cm ?n)) q = Some \<lparr> pw_conn_id = conn q \<rparr>
        \<and> (\<exists>t. hget (nt_writers ?n) (conn q) = Some t \<and> wt_rx t = [])"
    proof
      fix q assume "q \<in> set ps - {l}"
      moreover from this have "conn p \<noteq> conn q" using new by blast
      ultimately show "hget (cm_active_connections (nt_cm ?n)) q = Some \<lparr> pw_conn_id = conn q \<rparr>
        \<and> (\<exists>t. hget (nt_writers ?n) (conn q) = Some t \<and> wt_rx t = [])" using Cons.prems(4) by simp
    qed
    moreover have "inj_on conn (set ps - {l})" using Cons.prems(2) by (rule inj_on_subset) auto
    ultimately obtain ws where ws: "fold (outgoing_pump J) (map (\<lambda>p. (p, m)) ps) ?n = ?n\<lparr> nt_writers := ws \<rparr>"
      "\<forall>cid. hget ws cid = (if cid \<in> conn ` (set ps - {l})
        then map_option (\<lambda>t. t\<lparr> wt_rx := [str_bytes (to_json J m)] \<rparr>) (hget (nt_writers ?n) cid) else hget (nt_writers ?n) cid)"
      using Cons.IH [of ?n] Cons.prems(1,3) by auto
    have "conn ` (set (p # ps) - {l}) = insert (conn p) (conn ` (set ps - {l}))" using False by auto
    then have "hget ws cid = (if cid \<in> conn ` (set (p # ps) - {l})
        then map_option (\<lambda>t. t\<lparr> wt_rx := [str_bytes (to_json J m)] \<rparr>) (hget (nt_writers n) cid) else hget (nt_writers n) cid)" for cid
      using ws(2) new t(1) by (cases "conn p = cid") auto
    then show ?thesis using ws(1) one by (intro exI [of _ ws]) simp
  qed
qed

text \<open>The leader's connections: one for each other member, none with itself.\<close>
definition hub :: "round_setup \<Rightarrow> (uid \<Rightarrow> u64) \<Rightarrow> uid \<Rightarrow> Daemon \<Rightarrow> bool" where
  "hub R conn l d \<longleftrightarrow> node (ru_sk R) (ru_ek R) l d \<and> nt_incoming (dm_net d) = [] \<and> ap_outgoing (dm_app d) = []
     \<and> engine_idle (ru_r R) l (if l = ru_s R then [ru_tx R] else []) (ap_round_engine (dm_app d))
     \<and> inj_on conn (set (ru_ps R) - {l}) \<and> hget (cm_active_connections (nt_cm (dm_net d))) l = None
     \<and> (\<forall>p \<in> set (ru_ps R) - {l}. hget (cm_active_connections (nt_cm (dm_net d))) p = Some \<lparr> pw_conn_id = conn p \<rparr>)"

lemma leader_announces:
  assumes R: "setup_ok R key" and l: "l \<in> set (ru_ps R)" and leader: "hub R conn l (D l)"
    and members: "\<forall>p \<in> set (ru_ps R) - {l}. awaits R conn back l [] p D"
    and D1: "D1 = run_out J l (lead P inst (ru_ch R) (ru_ps R) (ru_sk R l) l D)"
  shows "node (ru_sk R) (ru_ek R) l (D1 l)" and "nt_incoming (dm_net (D1 l)) = []" and "ap_outgoing (dm_app (D1 l)) = []"
    and "known_keys (D1 l) = known_keys (D l)"
    and "hget (re_collectors (ap_round_engine (dm_app (D1 l)))) (ru_r R) = Some ((RoundCollector_new inst (ru_ch R) (ru_r R) (ru_ps R) 30 DEFAULT_PAYLOAD_LEN)
        \<lparr> rc_shares_received := [(l, the (round_share P (ru_r R) (ru_ps R) (ru_s R) (str_bytes (ru_tx R)) DEFAULT_PAYLOAD_LEN (ru_ek R) l))] \<rparr>)"
    and "\<forall>p \<in> set (ru_ps R) - {l}. awaits R conn back l [str_bytes (to_json J (start_of R l))] p D1"
proof -
  note R = R [unfolded setup_ok_def] and leader = leader [unfolded hub_def]
  obtain e where start: "start_round_as_leader P inst (ru_ch R) (ru_ps R) (member_ctx (ru_sk R) (ru_ek R) (known_keys (D l)) l)
        (ap_round_engine (dm_app (D l))) = (e, map (\<lambda>p. (p, start_of R l)) (ru_ps R))"
    and c: "hget (re_collectors e) (ru_r R) = Some ((RoundCollector_new inst (ru_ch R) (ru_r R) (ru_ps R) 30 DEFAULT_PAYLOAD_LEN)
        \<lparr> rc_shares_received := [(l, the (round_share P (ru_r R) (ru_ps R) (ru_s R) (str_bytes (ru_tx R)) DEFAULT_PAYLOAD_LEN (ru_ek R) l))] \<rparr>)"
    using engine_leader_starts [of key "ru_ek R" "ru_ps R" l "ru_tx R" "ru_r R" "ru_s R" "ap_round_engine (dm_app (D l))"] R l leader by blast
  have lead: "lead P inst (ru_ch R) (ru_ps R) (ru_sk R l) l D = D(l := (D l)\<lparr> dm_app := (dm_app (D l))\<lparr> ap_connection_manager := nt_cm (dm_net (D l)),
      ap_round_engine := e, ap_outgoing := map (\<lambda>p. (p, start_of R l)) (ru_ps R) \<rparr> \<rparr>)"
    using start node_context [of "ru_sk R" "ru_ek R" l "D l"] leader by (simp add: lead_def)
  have writers: "\<forall>p \<in> set (ru_ps R) - {l}. hget (cm_active_connections (nt_cm (dm_net (D l)))) p = Some \<lparr> pw_conn_id = conn p \<rparr>
      \<and> (\<exists>t. hget (nt_writers (dm_net (D l))) (conn p) = Some t \<and> wt_rx t = [])"
    using leader members by (auto simp: awaits_def half_link_def)
  obtain ws where ws: "fold (outgoing_pump J) (map (\<lambda>p. (p, start_of R l)) (ru_ps R)) (dm_net (D l)) = (dm_net (D l))\<lparr> nt_writers := ws \<rparr>"
    "\<forall>p \<in> set (ru_ps R) - {l}. hget ws (conn p) = map_option (\<lambda>t. t\<lparr> wt_rx := [str_bytes (to_json J (start_of R l))] \<rparr>) (hget (nt_writers (dm_net (D l))) (conn p))"
    using pump_each [OF _ _ _ writers, of J "start_of R l"] R leader by auto
  have D1: "D1 = D(l := (D l)\<lparr> dm_net := (dm_net (D l))\<lparr> nt_writers := ws \<rparr>,
      dm_app := (dm_app (D l))\<lparr> ap_connection_manager := nt_cm (dm_net (D l)), ap_round_engine := e, ap_outgoing := [] \<rparr> \<rparr>)"
    using ws(1) by (simp add: D1 run_out_def lead)
  show "node (ru_sk R) (ru_ek R) l (D1 l)" "nt_incoming (dm_net (D1 l)) = []" "ap_outgoing (dm_app (D1 l)) = []"
    "known_keys (D1 l) = known_keys (D l)" using leader by (simp_all add: D1 node_def)
  show "hget (re_collectors (ap_round_engine (dm_app (D1 l)))) (ru_r R) = Some ((RoundCollector_new inst (ru_ch R) (ru_r R) (ru_ps R) 30 DEFAULT_PAYLOAD_LEN)
        \<lparr> rc_shares_received := [(l, the (round_share P (ru_r R) (ru_ps R) (ru_s R) (str_bytes (ru_tx R)) DEFAULT_PAYLOAD_LEN (ru_ek R) l))] \<rparr>)"
    using c by (simp add: D1)
  show "\<forall>p \<in> set (ru_ps R) - {l}. awaits R conn back l [str_bytes (to_json J (start_of R l))] p D1"
  proof
    fix p assume p: "p \<in> set (ru_ps R) - {l}"
    then have "awaits R conn back l [] p D" using members by blast
    then show "awaits R conn back l [str_bytes (to_json J (start_of R l))] p D1"
      using ws(2) p unfolding D1 awaits_def half_link_def by fastforce
  qed
qed

text \<open>C5: A round goes all the way through the program. Let the members of a group run daemons with matching
  edge keys, each joined with the leader by an authenticated connection, let one member (possibly the
  leader) have a text queued, and let the leader start a round. Its outgoing pump queues the start at
  every connection; each member's reader takes it off the wire, its pumps turn it into a signed share,
  the connection carries that back, and the leader's inbound pump hands it to the engine, for the
  members one after the other in any order, before the deadline. Then the leader's
  outgoing channel holds, for every participant, a result that unpacks to exactly the text.\<close>
theorem daemon_round_delivers:
  assumes "aead_law P" "encrypts P" "sig_law P" "keys_law P" and R: "setup_ok R key" and l: "l \<in> set (ru_ps R)"
    and "directory_ok P (ru_sk R) (known_keys (D l))" and leader: "hub R conn l (D l)"
    and members: "\<forall>p \<in> set (ru_ps R) - {l}. length (nn p) = 12 \<and> wired P J R l p \<and> awaits R conn back l [] p D"
    and ts: "mset (map snd ts) = mset (filter (\<lambda>q. q \<noteq> l) (ru_ps R))" "\<forall>(u, q) \<in> set ts. u < t + 30000"
  shows "\<exists>D' payload. serve_all P J nn now conn back l ts (run_out J l (lead P t (ru_ch R) (ru_ps R) (ru_sk R l) l D)) = Some D'
    \<and> ap_outgoing (dm_app (D' l)) = map (\<lambda>p. (p, DcRoundResult (ru_ch R) (ru_r R) payload [])) (ru_ps R)
    \<and> unpad_message P payload = Some (str_bytes (ru_tx R))"
proof -
  define D1 where "D1 = run_out J l (lead P t (ru_ch R) (ru_ps R) (ru_sk R l) l D)"
  have "\<forall>p \<in> set (ru_ps R) - {l}. awaits R conn back l [] p D" using members by blast
  note d1 = leader_announces [where D = D, OF R l leader this D1_def]
  have who: "set (map snd ts) = set (ru_ps R) - {l}" 
    using mset_eq_setD [OF ts(1)] by auto
  have ts1: "distinct (map snd ts)" using ts(1) R by (metis distinct_filter mset_eq_imp_distinct_iff setup_ok_def)
  have ts2: "inj_on conn (set (map snd ts))" using leader by (simp only: who hub_def)
  have ts3: "\<forall>(u, q) \<in> set ts. length (nn q) = 12 \<and> wired P J R l q \<and> awaits R conn back l [str_bytes (to_json J (start_of R l))] q D1"
  proof clarify
    fix u q assume "(u, q) \<in> set ts"
    then have "q \<in> set (map snd ts)" by force
    then show "length (nn q) = 12 \<and> wired P J R l q \<and> awaits R conn back l [str_bytes (to_json J (start_of R l))] q D1"
      using members d1(6) unfolding who by blast
  qed
  obtain D' where D': "serve_all P J nn now conn back l ts D1 = Some D'"
    and out: "ap_outgoing (dm_app (D' l)) = snd (snd (engine_run P (member_ctx (ru_sk R) (ru_ek R) (known_keys (D l)) l)
        (map (\<lambda>(t, q). (t, share_of P R q)) ts) (ap_round_engine (dm_app (D1 l)))))"
    using serve_all_runs [OF assms(1,2) R ts3 ts1 ts2 d1(1,2)] unfolding d1(3,4) append_Nil by metis
  obtain e payload where "engine_run P (member_ctx (ru_sk R) (ru_ek R) (known_keys (D l)) l)
        (map (\<lambda>(t, q). (t, share_of P R q)) ts) (ap_round_engine (dm_app (D1 l)))
      = (e, [MessageExtracted (ru_ch R) (ru_tx R) (ru_r R)], map (\<lambda>p. (p, DcRoundResult (ru_ch R) (ru_r R) payload [])) (ru_ps R))"
    and "unpad_message P payload = Some (str_bytes (ru_tx R))"
    using engine_leader_extracts [OF assms(3,4,7) _ _ _ _ l _ _ ts d1(5)] R unfolding setup_ok_def by blast
  then show ?thesis using D' out by (auto simp: D1_def)
qed

section \<open>A concrete cluster\<close>

definition duo_round :: round_setup where
  "duo_round = \<lparr> ru_ch = ''c'', ru_r = 1, ru_ps = [''alice'', ''bob''], ru_s = ''bob'', ru_tx = ''hi'',
     ru_sk = (\<lambda>_. arr 32 [3]), ru_ek = (\<lambda>p. [(if p = ''alice'' then ''bob'' else ''alice'', [5])]) \<rparr>"

text \<open>Alice leads and has Bob on her connection 1; Bob has Alice on his connection 2, and a text to send.\<close>
definition duo_node :: "uid \<Rightarrow> uid \<Rightarrow> u64 \<Rightarrow> string list \<Rightarrow> Daemon" where
  "duo_node p q cid queue = \<lparr>
     dm_net = (net_new 9000)\<lparr> nt_cm := (ConnectionManager_new 9000)\<lparr> cm_active_connections := [(q, \<lparr> pw_conn_id = cid \<rparr>)] \<rparr>,
       nt_readers := [(cid, (\<lparr> rx_addr = demo_addr, rx_recv_key = [7], rx_peer_uid = q, rx_peer_authenticated = True, rx_conn_id = cid \<rparr>, 0))],
       nt_writers := [(cid, \<lparr> wt_uid = q, wt_send_key = [7], wt_seq = 0, wt_rx = [], wt_wire = [] \<rparr>)] \<rparr>,
     dm_app = (new_with_port toy_prims no_codecs bare_disk 9000)\<lparr> ap_identity := generate toy_prims [3] 0 p,
       ap_bridge := (F2fDcNetBridge_new p)\<lparr> br_friends := [(q, F2fFriend_new toy_prims [] q [] 0\<lparr> ff_edge_key := [5] \<rparr>)] \<rparr>,
       ap_round_engine := fold engine_queue_message queue (RoundEngine_new 0 p), ap_outgoing := [] \<rparr>, dm_batch = [] \<rparr>"

definition duo :: cluster where
  "duo p = (if p = ''alice'' then duo_node ''alice'' ''bob'' 1 [] else duo_node ''bob'' ''alice'' 2 [''hi''])"

abbreviation duo_json :: json where
  "duo_json \<equiv> two_json (start_of duo_round ''alice'') (share_of toy_prims duo_round ''bob'')"

lemma duo_setup: "setup_ok duo_round (\<lambda>_. [5])"
  by (simp add: setup_ok_def duo_round_def edges_agree_def DEFAULT_PAYLOAD_LEN_def str_valid_def str_bytes_def utf8_valid_ascii)

lemma duo_encrypts: "encrypts toy_prims"
  by (simp add: encrypts_def encrypt_e2e_def toy_prims_def)

lemma duo_wired: "wired toy_prims duo_json duo_round ''alice'' ''bob''"
  by (simp add: wired_def sendable_def json_ok_def two_json_def engine_share_def Let_def duo_round_def MAX_FRAME_def validate_uid_def
      uid_byte_ok_def str_valid_def str_bytes_def utf8_valid_ascii)

lemma duo_nodes: "node (ru_sk duo_round) (ru_ek duo_round) ''alice'' (duo ''alice'')" "node (ru_sk duo_round) (ru_ek duo_round) ''bob'' (duo ''bob'')"
  by (simp_all add: node_def duo_def duo_node_def duo_round_def generate_def signing_key_def edge_key_map_def)

lemmas duo_state = duo_def duo_node_def duo_round_def net_new_def ConnectionManager_new_def engine_idle_def
  RoundEngine_new_def RoundTracker_new_def engine_queue_message_def queue_message_def

lemma duo_hub: "hub duo_round (\<lambda>_. 1) ''alice'' (duo ''alice'')"
  unfolding hub_def using duo_nodes(1) by (simp add: duo_state)

lemma duo_awaits: "awaits duo_round (\<lambda>_. 1) (\<lambda>_. 2) ''alice'' [] ''bob'' duo"
  unfolding awaits_def using duo_nodes(2) by (simp add: duo_state half_link_def)

theorem daemon_round_delivers_witness:
  "\<exists>D' payload. serve_all toy_prims duo_json (\<lambda>_. replicate 12 1) 0 (\<lambda>_. 1) (\<lambda>_. 2) ''alice'' [(3, ''bob'')]
      (run_out duo_json ''alice'' (lead toy_prims 0 ''c'' [''alice'', ''bob''] (arr 32 [3]) ''alice'' duo)) = Some D'
    \<and> ap_outgoing (dm_app (D' ''alice'')) = [(''alice'', DcRoundResult ''c'' 1 payload []), (''bob'', DcRoundResult ''c'' 1 payload [])]
    \<and> unpad_message toy_prims payload = Some (str_bytes ''hi'')"
proof -
  have dir: "directory_ok toy_prims (ru_sk duo_round) (known_keys (duo ''alice''))"
    by (simp add: directory_ok_def duo_state)
  have R: "ru_ch duo_round = ''c''" "ru_ps duo_round = [''alice'', ''bob'']" "ru_sk duo_round ''alice'' = arr 32 [3]"
    "ru_r duo_round = 1" "ru_tx duo_round = ''hi''" by (simp_all add: duo_round_def)
  have members: "\<forall>p \<in> set (ru_ps duo_round) - {''alice''}. length (replicate 12 1 :: bytes) = 12
      \<and> wired toy_prims duo_json duo_round ''alice'' p \<and> awaits duo_round (\<lambda>_. 1) (\<lambda>_. 2) ''alice'' [] p duo"
    using duo_wired duo_awaits by (simp add: R(2))
  have l: "''alice'' \<in> set (ru_ps duo_round)" and ts: "mset (map snd [(3 :: nat, ''bob'')]) = mset (filter (\<lambda>q. q \<noteq> ''alice'') (ru_ps duo_round))"
    "\<forall>(u, q) \<in> set [(3 :: nat, ''bob'')]. u < 0 + 30000" by (simp_all add: R(2))
  show ?thesis
    using daemon_round_delivers [where D = duo and nn = "\<lambda>_. replicate 12 1", OF toy_aead duo_encrypts toy_sig toy_keys duo_setup l dir duo_hub members ts, of 0]
    unfolding R by simp
qed

end
