(* ===== verification/Restart.thy ===== *)
theory Restart
  imports App
begin

text \<open>
  Shutting down and starting again: \<^verbatim>\<open>Drop for AppState\<close> followed by \<^verbatim>\<open>AppState::new_with_port\<close> (\<^verbatim>\<open>app.rs\<close>),
  through the snapshot of \<^verbatim>\<open>f2f.rs\<close>. It needs of the social state that its friends and channels are
  filed under their own names, which every logged operation keeps.
\<close>

section \<open>Well-formed social state\<close>

definition friend_ok :: "prims \<Rightarrow> uid \<Rightarrow> F2fFriend \<Rightarrow> bool" where
  "friend_ok P u f \<longleftrightarrow> ff_uid f = u \<and> ff_peer_id f = sha256 P (str_bytes u) \<and> ff_trust_level f \<le> 2 \<and> length (ff_edge_key f) = 32"

definition bridge_ok :: "prims \<Rightarrow> F2fDcNetBridge \<Rightarrow> bool" where
  "bridge_ok P b \<longleftrightarrow> hwf (br_friends b) \<and> (\<forall>u f. hget (br_friends b) u = Some f \<longrightarrow> friend_ok P u f)
     \<and> hwf (br_channels b) \<and> (\<forall>n c. hget (br_channels b) n = Some c \<longrightarrow> ci_name c = n)"

text \<open>An \<^verbatim>\<open>EdgeKey\<close> is an array of 32 bytes.\<close>
fun social_ok :: "wal_io \<times> social_op \<Rightarrow> bool" where
  "social_ok (io, DoKey u k) = (length k = 32)"
| "social_ok _ = True"

lemma friend_ok_new: "friend_ok P u (F2fFriend_new P rnd u addr t)"
  by (simp add: friend_ok_def F2fFriend_new_def EdgeKey_generate_def min_def)

lemma bridge_ok_cong: "br_friends b' = br_friends b \<Longrightarrow> br_channels b' = br_channels b \<Longrightarrow> bridge_ok P b' = bridge_ok P b"
  by (simp add: bridge_ok_def)

lemma join_step_name: "ci_name (fst (fold (join_step my fr mt) us (ch, g))) = ci_name ch"
  by (induction us arbitrary: ch g) (auto simp: join_step_def split: option.split)

lemma bridge_ok_join: "bridge_ok P b \<Longrightarrow> bridge_ok P (fst (join_channel_no_log c us b))"
  by (auto simp: join_no_log_fold bridge_ok_def join_step_name Let_def split: option.split)

lemma bridge_ok_create: "bridge_ok P b \<Longrightarrow> bridge_ok P (fst (create_channel_no_log Q n b))"
  by (auto simp: create_channel_no_log_def bridge_ok_def Let_def)

lemma bridge_ok_leave: "bridge_ok P b \<Longrightarrow> bridge_ok P (leave_channel_no_log Q n b)"
  by (auto simp: leave_channel_no_log_def bridge_ok_def hwf_hmodify split: if_splits)

lemma bridge_ok_log [simp]: "bridge_ok P (log_wal J io op b) = bridge_ok P b"
  by (rule bridge_ok_cong) simp_all

lemma bridge_ok_joins [simp]: "bridge_ok P (log_joins J ios c us b) = bridge_ok P b"
  by (rule bridge_ok_cong) (metis log_joins_strip strip_fields(1), metis log_joins_strip strip_fields(2))

interpretation social: guarded_system "live_step P J" "bridge_ok P" social_ok for P :: prims and J :: wal_json
proof
  fix op b assume op: "social_ok op" and b: "bridge_ok P b"
  obtain io s where op': "op = (io, s)" by (cases op)
  show "bridge_ok P (live_step P J op b)"
  proof (cases s)
    case (DoAdd rnd u addr t)
    then show ?thesis using b friend_ok_new by (auto simp: op' add_friend_def bridge_ok_def Let_def)
  next
    case (DoRemove u)
    then show ?thesis using b by (auto simp: op' remove_friend_def bridge_ok_def Let_def split: if_splits)
  next
    case (DoTrust u t)
    then show ?thesis using b by (auto simp: op' update_trust_def bridge_ok_def hwf_hmodify friend_ok_def min_def Let_def split: if_splits)
  next
    case (DoKey u k)
    then show ?thesis using b op by (auto simp: op' set_edge_key_def bridge_ok_def hwf_hmodify friend_ok_def Let_def split: if_splits)
  next
    case (DoUid u)
    then show ?thesis using b by (simp add: op' set_my_uid_def bridge_ok_def)
  next
    case (DoCreate n)
    then show ?thesis using b by (simp add: op' create_channel_def bridge_ok_create)
  next
    case (DoJoin c us)
    then show ?thesis using b by (simp add: op' join_channel_def bridge_ok_join)
  next
    case (DoLeave c)
    then show ?thesis using b by (simp add: op' leave_channel_def bridge_ok_leave)
  qed
qed

section \<open>The snapshot\<close>

lemma from_to_hex: "length k = 32 \<Longrightarrow> from_hex (to_hex k) = Some k"
  by (simp add: from_hex_def to_hex_def)

lemma restored_friend:
  "friend_ok P u f \<Longrightarrow> with_edge_key P rnd u (ff_transport_address f) (ff_trust_level f) (ff_edge_key f) = f"
  by (cases f) (simp add: friend_ok_def with_edge_key_def F2fFriend_new_def min_def)

lemma restore_friends:
  assumes "distinct (map fst fs)" and "\<forall>(u, f) \<in> set fs. friend_ok P u f \<and> \<not> has_key (br_friends b) u"
  shows "fold (\<lambda>f. restore_friend P (rnd (fr_uid f)) f) (map (\<lambda>(u, f). \<lparr> fr_uid = u, fr_addr = ff_transport_address f,
      fr_trust = ff_trust_level f, fr_edge_key_hex = Some (to_hex (ff_edge_key f)) \<rparr>) fs) b = b\<lparr> br_friends := br_friends b @ fs \<rparr>"
  using assms
proof (induction fs arbitrary: b)
  case (Cons uf fs)
  obtain u f where uf: "uf = (u, f)" by (cases uf)
  have f: "friend_ok P u f" "\<not> has_key (br_friends b) u" using Cons.prems(2) by (simp_all add: uf)
  then have "length (ff_edge_key f) = 32" by (simp add: friend_ok_def)
  then have "restore_friend P (rnd u) \<lparr> fr_uid = u, fr_addr = ff_transport_address f, fr_trust = ff_trust_level f,
      fr_edge_key_hex = Some (to_hex (ff_edge_key f)) \<rparr> b = b\<lparr> br_friends := br_friends b @ [(u, f)] \<rparr>"
    using f by (simp add: restore_friend_def from_to_hex restored_friend hput_fresh)
  moreover have "\<forall>(v, g) \<in> set fs. friend_ok P v g \<and> \<not> has_key (br_friends b @ [(u, f)]) v"
    using Cons.prems by (force simp: uf has_key_def map_add_def split: option.split)
  ultimately show ?case using Cons.IH [of "b\<lparr> br_friends := br_friends b @ [(u, f)] \<rparr>"] Cons.prems(1) by (simp add: uf)
qed simp

text \<open>What a channel keeps over a restart.\<close>
definition rested :: "ChannelInfo \<Rightarrow> ChannelInfo" where
  "rested c = c\<lparr> ci_round_id := 0, ci_running := False \<rparr>"

lemma restore_channels:
  assumes "distinct (map fst cs)" and "\<forall>(n, c) \<in> set cs. ci_name c = n \<and> \<not> has_key (br_channels b) n"
  shows "br_channels (fold (restore_channel P) (map (\<lambda>(_, c). \<lparr> cr_name = ci_name c, cr_topic = ci_topic c,
      cr_participants = ci_participants c \<rparr>) cs) b) = br_channels b @ map (\<lambda>(n, c). (n, rested c)) cs"
  using assms
proof (induction cs arbitrary: b)
  case (Cons nc cs)
  obtain n c where nc: "nc = (n, c)" by (cases nc)
  have c: "ci_name c = n" "\<not> has_key (br_channels b) n" using Cons.prems(2) by (simp_all add: nc)
  let ?b = "restore_channel P \<lparr> cr_name = ci_name c, cr_topic = ci_topic c, cr_participants = ci_participants c \<rparr> b"
  have b: "br_channels ?b = br_channels b @ [(n, rested c)]"
  proof -
    have "br_channels ?b = hput n (rested c) (br_channels b)"
      using c by (cases c) (simp add: restore_channel_def create_channel_no_log_def hmodify_def rested_def Let_def)
    then show ?thesis using c(2) by (simp add: hput_fresh)
  qed
  have "\<forall>(m, d) \<in> set cs. ci_name d = m \<and> \<not> has_key (br_channels ?b) m"
    using Cons.prems by (force simp: nc b has_key_def map_add_def split: option.split)
  then show ?case using Cons.IH [of ?b] Cons.prems(1) by (simp add: nc b)
qed simp

lemma apply_snapshot_bridge:
  assumes "bridge_ok P b"
  shows "br_friends (apply_snapshot P rnd (snapshot_bridge b) (F2fDcNetBridge_new my)) = br_friends b"
    and "br_channels (apply_snapshot P rnd (snapshot_bridge b) (F2fDcNetBridge_new my)) = map (\<lambda>(n, c). (n, rested c)) (br_channels b)"
proof -
  have wf: "distinct (map fst (br_friends b))" "distinct (map fst (br_channels b))"
    using assms by (simp_all add: bridge_ok_def hwf_def hkeys_def)
  have "\<forall>(u, f) \<in> set (br_friends b). friend_ok P u f" "\<forall>(n, c) \<in> set (br_channels b). ci_name c = n"
    using assms by (auto simp: bridge_ok_def hget_eq_Some_iff)
  then show "br_friends (apply_snapshot P rnd (snapshot_bridge b) (F2fDcNetBridge_new my)) = br_friends b"
    "br_channels (apply_snapshot P rnd (snapshot_bridge b) (F2fDcNetBridge_new my)) = map (\<lambda>(n, c). (n, rested c)) (br_channels b)"
    using restore_friends [OF wf(1), of P "(F2fDcNetBridge_new my)\<lparr> br_my_uid := br_my_uid b, br_friends := [], br_channels := [], br_groups := [] \<rparr>" rnd]
    by (auto simp: apply_snapshot_def snapshot_bridge_def restore_channel_friends has_key_def split_beta intro!: restore_channels [OF wf(2), THEN trans])
qed

section \<open>Stopping and starting\<close>

definition wot_json_ok :: "codecs \<Rightarrow> WebOfTrust \<Rightarrow> bool" where
  "wot_json_ok C w \<longleftrightarrow> str_valid (cd_wot_to C w) \<and> cd_wot_from C (cd_wot_to C w) = Some w"

interpretation wot_file: text_file "cd_wot_to C" "cd_wot_from C" "wot_json_ok C" for C
  by unfold_locales (simp_all add: wot_json_ok_def)

lemma checkpointed_wal:
  assumes "br_wal (checkpoint_wal J io b) = Some w" and "io_ckpt io = CkptOk" and "snap_json_ok J (snapshot_bridge b)"
  shows "load_state J (WalStore_open t (ws_log w) (ws_state w) k) = Some (snapshot_bridge b)"
    and "replay J (WalStore_open t (ws_log w) (ws_state w) k) = []"
proof -
  have w: "ws_log w = []" "ws_state w = Some (str_bytes (snap_json J (snapshot_bridge b)))"
    using assms(1,2) by (auto simp: checkpoint_wal_def checkpoint_def split: option.splits)
  then show "load_state J (WalStore_open t (ws_log w) (ws_state w) k) = Some (snapshot_bridge b)"
    using assms(3) by (simp add: load_state_def WalStore_open_def)
  show "replay J (WalStore_open t (ws_log w) (ws_state w) k) = []"
    using w by (simp add: replay_def WalStore_open_def map_filter_simps)
qed

lemma restored_from_snapshot:
  assumes "load_state J w = Some snap" and "replay J w = []"
  shows "restore_bridge P J rnd rnds my w = attach_wal w (apply_snapshot P rnd snap (F2fDcNetBridge_new my))"
  using assms by (simp add: restore_bridge_def replay_ops_def)

lemma apply_snapshot_rest:
  "br_my_uid (apply_snapshot P rnd snap b) = sn_uid snap" "br_reputation (apply_snapshot P rnd snap b) = br_reputation b"
proof -
  have friends: "br_my_uid (fold (\<lambda>f. restore_friend P (rnd (fr_uid f)) f) fs b') = br_my_uid b'
      \<and> br_reputation (fold (\<lambda>f. restore_friend P (rnd (fr_uid f)) f) fs b') = br_reputation b'" for fs b'
    by (induction fs arbitrary: b') (simp_all add: restore_friend_def Let_def)
  have channels: "br_my_uid (fold (restore_channel P) cs b') = br_my_uid b'
      \<and> br_reputation (fold (restore_channel P) cs b') = br_reputation b'" for cs b'
    by (induction cs arbitrary: b') (simp_all add: restore_channel_def create_channel_no_log_def Let_def)
  show "br_my_uid (apply_snapshot P rnd snap b) = sn_uid snap" "br_reputation (apply_snapshot P rnd snap b) = br_reputation b"
    using friends channels by (simp_all add: apply_snapshot_def)
qed

text \<open>C20: A restart keeps who you are and whom you know. Whatever social operations a node went through, when it
  shuts down with its files written and starts again from them, it has the same identity and name,
  the same friends with their addresses, trust levels and edge keys, the same channels with their
  topics and members, and the same web of trust with its own key in it. It does not have the
  reputations, the round numbers of the channels or the relay nonce: these start over.\<close>
theorem restart_restores:
  assumes run: "ap_bridge s = fold (live_step P (cd_wal C)) ops (attach_wal w0 (F2fDcNetBridge_new my))" "list_all social_ok ops"
    and json: "snap_json_ok (cd_wal C) (snapshot_bridge (ap_bridge s))" "identity_json_ok (cd_identity C) (ap_identity s)" "wot_json_ok C (ap_wot s)"
    and stop: "app_drop C io WriteOk WriteOk s f g = (Some w, id_file, wot_file)" "io_ckpt io = CkptOk"
    and start: "su_identity_file u = id_file" "su_wot_file u = wot_file" "su_wal u = Some (WalStore_open t (ws_log w) (ws_state w) k)"
    and s': "s' = new_with_port P C u port"
  shows "ap_identity s' = ap_identity s \<and> br_my_uid (ap_bridge s') = br_my_uid (ap_bridge s)
    \<and> br_friends (ap_bridge s') = br_friends (ap_bridge s)
    \<and> br_channels (ap_bridge s') = map (\<lambda>(n, c). (n, rested c)) (br_channels (ap_bridge s))
    \<and> ap_wot s' = add_own_key (from_identity P (su_now u) (ap_identity s)) (ap_wot s)
    \<and> br_reputation (ap_bridge s') = [] \<and> ap_relay_nonce s' = 0"
proof -
  let ?b = "ap_bridge s"
  have ok: "bridge_ok P ?b" unfolding run(1)
    by (rule social.run_enabled_inv [OF run(2)]) (simp add: bridge_ok_def attach_wal_def F2fDcNetBridge_new_def hwf_def hkeys_def)
  have w: "br_wal (checkpoint_wal (cd_wal C) io ?b) = Some w" and files: "id_file = save (cd_identity C) WriteOk (ap_identity s) f"
    "wot_file = Some (str_bytes (cd_wot_to C (ap_wot s)))" using stop(1) by (auto simp: app_drop_def)
  have ident: "fst (load_or_generate P (cd_identity C) kb now io' [] id_file) = ap_identity s" for kb now io'
    using load_saved [OF json(2)] files(1) by simp
  note wal = checkpointed_wal [OF w stop(2) json(1)]
  have bridge: "ap_bridge s' = attach_wal (WalStore_open t (ws_log w) (ws_state w) k)
      (apply_snapshot P (su_friend_keys u) (snapshot_bridge ?b) (F2fDcNetBridge_new (id_uid (ap_identity s))))"
    using restored_from_snapshot [OF wal] ident by (simp add: s' new_with_port_def start Let_def)
  have "ap_wot s' = add_own_key (from_identity P (su_now u) (ap_identity s)) (ap_wot s)"
    using ident files(2) json(3) by (simp add: s' new_with_port_def restore_wot_def start Let_def)
  moreover have "ap_identity s' = ap_identity s" "ap_relay_nonce s' = 0" using ident by (simp_all add: s' new_with_port_def start Let_def)
  ultimately show ?thesis using apply_snapshot_bridge [OF ok] apply_snapshot_rest [of P "su_friend_keys u" "snapshot_bridge ?b"]
    by (simp add: bridge attach_wal_def) (simp add: snapshot_bridge_def F2fDcNetBridge_new_def)
qed

text \<open>A node with one friend, and codecs for its files.\<close>
definition pal_snap :: SocialSnapshot where
  "pal_snap = \<lparr> sn_uid = ''ann'', sn_friends = [\<lparr> fr_uid = ''bob'', fr_addr = ''x'', fr_trust = 2,
     fr_edge_key_hex = Some (to_hex (arr 32 [7])) \<rparr>], sn_channels = [] \<rparr>"

definition pal_codecs :: codecs where
  "pal_codecs = no_codecs\<lparr> cd_wal := trio_wal\<lparr> snap_json := (\<lambda>_. ''s''), snap_parse := (\<lambda>s. if s = ''s'' then Some pal_snap else None) \<rparr>,
     cd_wot_to := (\<lambda>_. ''w''), cd_wot_from := (\<lambda>_. Some WebOfTrust_new) \<rparr>"

definition pal_ops :: "(wal_io \<times> social_op) list" where
  "pal_ops = [(demo_io, DoAdd [7] ''bob'' ''x'' 2)]"

definition pal_app :: AppState where
  "pal_app = (new_with_port toy_prims no_codecs bare_disk 9000)\<lparr> ap_identity := generate toy_prims [3] 7 ''ann'',
     ap_bridge := fold (live_step toy_prims (cd_wal pal_codecs)) pal_ops demo_start, ap_wot := WebOfTrust_new \<rparr>"

lemma ascii_letter_valid: "str_valid ''s''" "str_valid ''w''"
  unfolding str_valid_def by (rule utf8_valid_ascii, simp add: str_bytes_def)+

lemma pal_fields: "br_friends (ap_bridge pal_app) = [(''bob'', F2fFriend_new toy_prims [7] ''bob'' ''x'' 2)]"
  "br_channels (ap_bridge pal_app) = []" "br_my_uid (ap_bridge pal_app) = ''ann''"
  by (simp_all add: pal_app_def pal_ops_def add_friend_def attach_wal_def F2fDcNetBridge_new_def Let_def)

lemma pal_json: "snap_json_ok (cd_wal pal_codecs) (snapshot_bridge (ap_bridge pal_app))"
  "identity_json_ok (cd_identity pal_codecs) (ap_identity pal_app)" "wot_json_ok pal_codecs (ap_wot pal_app)"
proof -
  have "snapshot_bridge (ap_bridge pal_app) = pal_snap"
    by (simp add: snapshot_bridge_def pal_fields pal_snap_def F2fFriend_new_def EdgeKey_generate_def)
  then show "snap_json_ok (cd_wal pal_codecs) (snapshot_bridge (ap_bridge pal_app))"
    by (simp add: snap_json_ok_def pal_codecs_def ascii_letter_valid)
  show "identity_json_ok (cd_identity pal_codecs) (ap_identity pal_app)" "wot_json_ok pal_codecs (ap_wot pal_app)"
    using one_ident_json_ok by (simp_all add: pal_codecs_def no_codecs_def pal_app_def wot_json_ok_def ascii_letter_valid)
qed

theorem restart_restores_witness:
  "\<exists>w id_file wot_file. app_drop pal_codecs demo_io WriteOk WriteOk pal_app None None = (Some w, id_file, wot_file)
    \<and> br_friends (ap_bridge (new_with_port toy_prims pal_codecs (bare_disk\<lparr> su_identity_file := id_file, su_wot_file := wot_file,
        su_wal := Some (WalStore_open 9 (ws_log w) (ws_state w) 100) \<rparr>) 9000)) = [(''bob'', F2fFriend_new toy_prims [7] ''bob'' ''x'' 2)]"
proof -
  have "br_wal (ap_bridge pal_app) \<noteq> None"
    by (simp add: pal_app_def pal_ops_def add_friend_def log_wal_def attach_wal_def F2fDcNetBridge_new_def Let_def)
  then obtain w id_file wot_file where stop: "app_drop pal_codecs demo_io WriteOk WriteOk pal_app None None = (Some w, id_file, wot_file)"
    by (auto simp: app_drop_def checkpoint_wal_def)
  let ?u = "bare_disk\<lparr> su_identity_file := id_file, su_wot_file := wot_file, su_wal := Some (WalStore_open 9 (ws_log w) (ws_state w) 100) \<rparr>"
  have "ap_bridge pal_app = fold (live_step toy_prims (cd_wal pal_codecs)) pal_ops demo_start" "list_all social_ok pal_ops"
    by (simp_all add: pal_app_def pal_ops_def)
  from restart_restores [OF this pal_json stop _ _ _ _ refl, where u = ?u and t = 9 and k = 100]
  show ?thesis using stop by (simp add: demo_io_def pal_fields)
qed

section \<open>What does not come back\<close>

text \<open>A restart lifts every ban. Reputations are in neither the snapshot nor the log: after any start-up,
  from whatever files, the table is empty, so a peer that was banned is no longer.\<close>
lemma restart_forgets_bans: "br_reputation (restore_bridge P J rnd rnds my w) = []"
proof -
  have "br_reputation (apply_op_no_log P r op b) = br_reputation b" for r op b
    by (simp add: apply_op_no_log_def create_channel_no_log_def join_channel_no_log_def leave_channel_no_log_def Let_def split_beta
        split: WalOperation.split option.split)
  then have "br_reputation (fold (\<lambda>(i, op). apply_op_no_log P (rnds i) op) xs b) = br_reputation b" for xs b
    by (induction xs arbitrary: b) (simp_all add: split_beta)
  then show ?thesis
    by (simp add: restore_bridge_def replay_ops_def attach_wal_def apply_snapshot_rest F2fDcNetBridge_new_def Let_def split: option.split)
qed

text \<open>A node that left a channel is back in its group after a restart. The snapshot's channel is created the
  way a new one is, with the node's own share in the group, and the recorded members, of which it
  is no longer one, only come on top.\<close>
lemma fold_join_keeps: "p \<in> set (gr_participants g) \<Longrightarrow> p \<in> set (gr_participants (fold (\<lambda>u. join (uid_to_peer P u)) us g))"
  by (induction us arbitrary: g) (simp_all add: join_def)

lemma left_channel_rejoined:
  assumes "\<not> has_key (br_channels b) (cr_name c)" and "br_my_uid b \<notin> set (cr_participants c)"
  shows "\<exists>ch g. hget (br_channels (restore_channel P c b)) (cr_name c) = Some ch \<and> br_my_uid b \<notin> set (ci_participants ch)
    \<and> hget (br_groups (restore_channel P c b)) (cr_name c) = Some g \<and> Participant_new (uid_to_peer P (br_my_uid b)) \<in> set (gr_participants g)"
proof -
  have "Participant_new (uid_to_peer P (br_my_uid b)) \<in> set (gr_participants (join (uid_to_peer P (br_my_uid b)) (DcGroup_new i m d)))" for i m d
    by (simp add: join_def DcGroup_new_def)
  then show ?thesis using assms fold_join_keeps
    by (simp add: restore_channel_def create_channel_no_log_def hmodify_def Let_def)
qed

text \<open>A new topic is not logged: start-up after a crash rebuilds the state from files that do not know of it.\<close>
lemma topic_not_logged:
  assumes "br_wal b = Some w" and "hget (br_channels b) c = Some ch"
  shows "br_wal (channel_set_topic c topic b) = Some w \<and> (\<exists>ch'. hget (br_channels (channel_set_topic c topic b)) c = Some ch' \<and> ci_topic ch' = topic)"
  using assms by (simp add: channel_set_topic_def hmodify_def)

end
