(* ===== verification/WebConsole.thy ===== *)
theory WebConsole
  imports ConnManager PrivateFiles
begin

text \<open>
  \<^verbatim>\<open>web.rs\<close>: the HTTP console, from the bytes of a request to the bytes of the response. A request is
  what the client sends before it closes its side or a read times out. The start page is a constant of the build, the JSON functions of serde_json and
  \<^verbatim>\<open>SocketAddr\<close>'s parser are parameters. Binding the port and spawning threads are left out.
\<close>

section \<open>Constants and parameters\<close>

definition MAX_REQUEST_LINE :: nat where "MAX_REQUEST_LINE = 8192"
definition MAX_HEADER_LINE :: nat where "MAX_HEADER_LINE = 2048"
definition MAX_HEADER_BYTES :: nat where "MAX_HEADER_BYTES = 16384"
definition MAX_BODY_BYTES :: nat where "MAX_BODY_BYTES = 65536"
definition REQUEST_TOTAL_TIMEOUT_SECS :: nat where "REQUEST_TOTAL_TIMEOUT_SECS = 30"
definition MAX_WEB_CONNS :: nat where "MAX_WEB_CONNS = 64"

definition crlf :: string where "crlf = [CHR 0x0D, CHR 0x0A]"

text \<open>A double quote.\<close>
abbreviation quote :: char where "quote \<equiv> CHR 0x22"

definition SECURITY_HEADERS :: string where
  "SECURITY_HEADERS = ''X-Content-Type-Options: nosniff'' @ crlf @ ''X-Frame-Options: DENY'' @ crlf
     @ ''Content-Security-Policy: default-src 'self'; script-src 'self' 'unsafe-inline'; style-src 'self' 'unsafe-inline'; img-src 'self' data:'' @ crlf"

record web_env =
  we_index_html :: string
  we_pid :: nat
  we_uptime :: nat
  we_elapsed :: "nat \<Rightarrow> nat" \<comment> \<open>nanoseconds since the request began, when so many bytes of it are left to read\<close>
  we_json_list :: "uid list \<Rightarrow> string" \<comment> \<open>\<^verbatim>\<open>serde_json::to_string\<close>\<close>
  we_connect_request :: "string \<Rightarrow> (string \<times> string) option" \<comment> \<open>the \<^verbatim>\<open>addr\<close> and \<^verbatim>\<open>uid\<close> of a JSON body, with defaults\<close>
  we_parse_addr :: "string \<Rightarrow> string + SocketAddr"

text \<open>The test of \<^verbatim>\<open>request_start.elapsed()\<close> after a line.\<close>
definition out_of_time :: "web_env \<Rightarrow> bytes \<Rightarrow> bool" where
  "out_of_time E rest \<longleftrightarrow> we_elapsed E (length rest) > REQUEST_TOTAL_TIMEOUT_SECS * 10 ^ 9"

section \<open>Parsing\<close>

text \<open>\<^verbatim>\<open>read_until(b'\n')\<close> on at most \<open>n\<close> bytes.\<close>
definition read_until_newline :: "nat \<Rightarrow> bytes \<Rightarrow> bytes" where
  "read_until_newline n r = (let limited = take n r; upto = takeWhile (\<lambda>b. b \<noteq> 10) limited
     in if length upto < length limited then upto @ [10] else upto)"

text \<open>The next line with its terminator and the input after it; no line at the end of the input; an
  error if the line is too long.\<close>
definition read_limited_line :: "bytes \<Rightarrow> nat \<Rightarrow> io_error + (string \<times> bytes) option" where
  "read_limited_line r mx =
     (let buf = read_until_newline (mx + 1) r; n = length buf
      in if n = 0 then Inr None
         else if n > mx then Inl (InvalidData ''line too long'')
         else Inr (Some (from_utf8_lossy buf, drop n r)))"

definition split_first_space :: "string \<Rightarrow> string \<times> string option" where
  "split_first_space s = (let a = takeWhile (\<lambda>c. c \<noteq> CHR '' '') s in
     (a, if length a < length s then Some (drop (Suc (length a)) s) else None))"

definition bearer_token :: "string option \<Rightarrow> string option" where
  "bearer_token authorization = (case authorization of
     None \<Rightarrow> None
   | Some header \<Rightarrow> (case split_first_space (trim header) of
       (scheme, rest) \<Rightarrow> if \<not> eq_ignore_ascii_case scheme ''Bearer'' then None
         else (case rest of
           None \<Rightarrow> None
         | Some t \<Rightarrow> (let tk = trim t in if tk = [] then None else Some tk))))"

definition token_authorized :: "string \<Rightarrow> string option \<Rightarrow> bool" where
  "token_authorized expected authorization = (case bearer_token authorization of
     None \<Rightarrow> False
   | Some provided \<Rightarrow> constant_time_eq (str_bytes expected) (str_bytes provided))"

definition host_allowed :: "string \<Rightarrow> bool" where
  "host_allowed h \<longleftrightarrow> h \<in> set [''127.0.0.1'', ''127.0.0.1:10888'', ''localhost'', ''localhost:10888'', ''[::1]'', ''[::1]:10888'']"

definition origin_allowed :: "string \<Rightarrow> bool" where
  "origin_allowed h \<longleftrightarrow> h \<in> set [''http://127.0.0.1:10888'', ''http://localhost:10888'', ''http://[::1]:10888'']"

definition ct_allows_json :: "string \<Rightarrow> bool" where
  "ct_allows_json ct \<longleftrightarrow> starts_with (to_ascii_lowercase (trim ct)) ''application/json''"

record headers =
  hd_content_length :: nat
  hd_authorization :: "string option"
  hd_host :: "string option"
  hd_origin :: "string option"
  hd_content_type :: "string option"

definition no_headers :: headers where
  "no_headers = \<lparr> hd_content_length = 0, hd_authorization = None, hd_host = None, hd_origin = None, hd_content_type = None \<rparr>"

text \<open>One header line, in lower case. The first prefix that fits decides.\<close>
definition add_header :: "string \<Rightarrow> headers \<Rightarrow> headers" where
  "add_header lower h =
     (case strip_prefix ''content-length:'' lower of
        Some v \<Rightarrow> h\<lparr> hd_content_length := min (case parse_uint (2 ^ 64) (trim v) of None \<Rightarrow> 0 | Some n \<Rightarrow> n) MAX_BODY_BYTES \<rparr>
      | None \<Rightarrow> (case strip_prefix ''authorization:'' lower of
        Some v \<Rightarrow> h\<lparr> hd_authorization := Some (trim v) \<rparr>
      | None \<Rightarrow> (case strip_prefix ''host:'' lower of
        Some v \<Rightarrow> h\<lparr> hd_host := Some (trim v) \<rparr>
      | None \<Rightarrow> (case strip_prefix ''origin:'' lower of
        Some v \<Rightarrow> h\<lparr> hd_origin := Some (trim v) \<rparr>
      | None \<Rightarrow> (case strip_prefix ''content-type:'' lower of
        Some v \<Rightarrow> h\<lparr> hd_content_type := Some (trim v) \<rparr>
      | None \<Rightarrow> h)))))"

lemma read_limited_line_shrinks: "read_limited_line r mx = Inr (Some (line, rest)) \<Longrightarrow> length rest < length r"
  by (cases r) (auto simp: read_limited_line_def read_until_newline_def Let_def split: if_splits)

text \<open>The loop over the header lines: the headers and the input after the empty line, or \<^const>\<open>None\<close> where
  the connection is dropped.\<close>
function read_headers :: "web_env \<Rightarrow> bytes \<Rightarrow> nat \<Rightarrow> headers \<Rightarrow> (headers \<times> bytes) option" where
  "read_headers E r header_bytes h = (case read_limited_line r MAX_HEADER_LINE of
     Inl _ \<Rightarrow> None
   | Inr None \<Rightarrow> None
   | Inr (Some (line, rest)) \<Rightarrow>
       (let total = header_bytes + length line in
        if out_of_time E rest then None
        else if total > MAX_HEADER_BYTES then None
        else let trimmed = trim_end line in
          if trimmed = [] then Some (h, rest)
          else read_headers E rest total (add_header (to_ascii_lowercase trimmed) h)))"
  by pat_completeness auto
termination
  by (relation "measure (\<lambda>(E, r, n, h). length r)") (auto simp: read_limited_line_shrinks)

declare read_headers.simps [simp del]

section \<open>Routing\<close>

text \<open>A response: status, content type, body.\<close>
type_synonym response = "string \<times> string \<times> string"

definition json_error :: "string \<Rightarrow> string" where
  "json_error e = ''{'' @ [quote] @ ''error'' @ [quote] @ '':'' @ [quote] @ e @ [quote] @ ''}''"

definition APP_JSON :: string where "APP_JSON = ''application/json''"

text \<open>The task that \<^verbatim>\<open>POST /api/connect\<close> spawns: at most five attempts, one second apart, the randomness and
  the peer's bytes of each given.\<close>
function connect_attempts :: "prims \<Rightarrow> json \<Rightarrow> (nat \<Rightarrow> bytes \<times> bytes \<times> bytes option) \<Rightarrow> uid \<Rightarrow> SocketAddr \<Rightarrow> SessionAuth
    \<Rightarrow> nat \<Rightarrow> Net \<Rightarrow> Net" where
  "connect_attempts P J io u socket auth attempts s =
     (case io attempts of (eph, nonce, input) \<Rightarrow>
       (case connect_to_peer P J eph nonce u socket auth input s of
          (s', Inr _) \<Rightarrow> s'
        | (s', Inl _) \<Rightarrow> if attempts + 1 \<ge> 5 then s' else connect_attempts P J io u socket auth (attempts + 1) s'))"
  by pat_completeness auto
termination
  by (relation "measure (\<lambda>(P, J, io, u, socket, auth, attempts, s). 5 - attempts)") auto

declare connect_attempts.simps [simp del]

text \<open>\<^verbatim>\<open>POST /api/connect\<close>: the response, and the arguments of the task it spawns. Spawning needs the
  asynchronous runtime of the calling thread (\<open>runtime\<close>).\<close>
definition api_connect :: "web_env \<Rightarrow> bool \<Rightarrow> string \<Rightarrow> Identity \<Rightarrow> response \<times> (uid \<times> SocketAddr \<times> SessionAuth) option" where
  "api_connect E runtime body ident = (case we_connect_request E body of
     None \<Rightarrow> ((''400'', APP_JSON, json_error ''invalid json''), None)
   | Some (addr, u) \<Rightarrow>
       if \<not> validate_uid u then ((''400'', APP_JSON, json_error ''invalid uid''), None)
       else (case we_parse_addr E addr of
         Inl e \<Rightarrow> ((''400'', APP_JSON, json_error e), None)
       | Inr socket \<Rightarrow> (case signing_key ident of
           None \<Rightarrow> ((''500'', APP_JSON, json_error ''no identity key''), None)
         | Some sk \<Rightarrow> if runtime
             then ((''200 OK'', APP_JSON, ''{'' @ [quote] @ ''status'' @ [quote] @ '':'' @ [quote] @ ''connecting'' @ [quote] @ ''}''),
               Some (u, socket, \<lparr> sa_uid = id_uid ident, sa_public_hex = id_public_hex ident, sa_signing_key = sk \<rparr>))
             else ((''500'', APP_JSON, json_error ''no runtime''), None))))"

definition api_status :: "web_env \<Rightarrow> ConnectionManager \<Rightarrow> string" where
  "api_status E cm = ''{'' @ [quote] @ ''pid'' @ [quote] @ '':'' @ show_nat (we_pid E)
     @ '','' @ [quote] @ ''uptime_secs'' @ [quote] @ '':'' @ show_nat (we_uptime E)
     @ '','' @ [quote] @ ''connections'' @ [quote] @ '':'' @ show_nat (connected_count cm)
     @ '','' @ [quote] @ ''version'' @ [quote] @ '':'' @ [quote] @ ''0.0.9'' @ [quote]
     @ '','' @ [quote] @ ''tests'' @ [quote] @ '':164}''"

definition route :: "web_env \<Rightarrow> bool \<Rightarrow> string \<Rightarrow> string \<Rightarrow> string \<Rightarrow> ConnectionManager \<Rightarrow> Identity \<Rightarrow> string \<Rightarrow> string option
    \<Rightarrow> response \<times> (uid \<times> SocketAddr \<times> SessionAuth) option" where
  "route E runtime method path body cm ident token authorization =
     (if starts_with path ''/api/'' \<and> \<not> token_authorized token authorization
      then ((''401 Unauthorized'', APP_JSON, json_error ''unauthorized''), None)
      else if method = ''GET'' \<and> path = ''/'' then ((''200 OK'', ''text/html; charset=utf-8'', we_index_html E), None)
      else if method = ''GET'' \<and> path = ''/api/status'' then ((''200 OK'', APP_JSON, api_status E cm), None)
      else if method = ''GET'' \<and> path = ''/api/peers''
        then ((''200 OK'', APP_JSON, ''{'' @ [quote] @ ''peers'' @ [quote] @ '':'' @ we_json_list E (hkeys (cm_active_connections cm)) @ ''}''), None)
      else if method = ''GET'' \<and> path = ''/api/services''
        then ((''200 OK'', APP_JSON, ''{'' @ [quote] @ ''services'' @ [quote] @ '':[]}''), None)
      else if method = ''POST'' \<and> path = ''/api/connect'' then api_connect E runtime body ident
      else ((''404 Not Found'', ''text/plain'', ''404''), None))"

text \<open>Without a runtime nothing is spawned.\<close>
lemma route_spawns_nothing: "snd (route E False method path body cm ident token authorization) = None"
  by (auto simp: route_def api_connect_def split: option.split sum.split)

section \<open>Requests and responses\<close>

definition write_response :: "string \<Rightarrow> string \<Rightarrow> string \<Rightarrow> string \<Rightarrow> bytes" where
  "write_response status content_type extra body = str_bytes (''HTTP/1.0 '' @ status @ crlf
     @ ''Content-Type: '' @ content_type @ crlf @ ''Content-Length: '' @ show_nat (length body) @ crlf
     @ ''Connection: close'' @ crlf @ SECURITY_HEADERS @ extra @ crlf @ body)"

text \<open>The checks on the headers, the body, the routing: the response, or \<^const>\<open>None\<close> if the body is cut short.
  The extra headers come third. A plain thread has no runtime, so the request spawns no task.\<close>
definition answer :: "web_env \<Rightarrow> string \<Rightarrow> string \<Rightarrow> headers \<Rightarrow> bytes \<Rightarrow> ConnectionManager \<Rightarrow> Identity \<Rightarrow> string
    \<Rightarrow> (string \<times> string \<times> string \<times> string) option" where
  "answer E method path h rest cm ident token =
     (if (case hd_host h of None \<Rightarrow> False | Some x \<Rightarrow> \<not> host_allowed x) then Some (''403 Forbidden'', ''text/plain'', [], ''403'')
      else if (case hd_origin h of None \<Rightarrow> False | Some x \<Rightarrow> \<not> origin_allowed x) then Some (''403 Forbidden'', ''text/plain'', [], ''403'')
      else if method = ''POST'' \<and> path = ''/api/connect'' \<and> \<not> (case hd_content_type h of None \<Rightarrow> False | Some ct \<Rightarrow> ct_allows_json ct)
      then Some (''415 Unsupported Media Type'', APP_JSON, ''Cache-Control: no-store'' @ crlf, json_error ''unsupported media type'')
      else
        let body = (if method = ''POST'' \<and> hd_content_length h > 0
              then (case read_exact (hd_content_length h) rest of Inl _ \<Rightarrow> None | Inr (buf, _) \<Rightarrow> Some (from_utf8_lossy buf))
              else Some []) in
        case body of
          None \<Rightarrow> None
        | Some b \<Rightarrow>
            (let (status, ct, resp) = fst (route E False method path b cm ident token (hd_authorization h));
                 extra = (if starts_with path ''/api/'' then ''Cache-Control: no-store'' @ crlf else [])
                   @ (if status = ''401 Unauthorized'' then ''WWW-Authenticate: Bearer'' @ crlf else [])
             in Some (status, ct, extra, resp)))"

text \<open>The request line and the headers, and the input after them.\<close>
definition parse_request :: "web_env \<Rightarrow> bytes \<Rightarrow> (string \<times> string \<times> headers \<times> bytes) option" where
  "parse_request E input = (case read_limited_line input MAX_REQUEST_LINE of
     Inl _ \<Rightarrow> None
   | Inr None \<Rightarrow> None
   | Inr (Some (request_line, r1)) \<Rightarrow> if out_of_time E r1 then None
       else (case split_whitespace [] request_line of
         method # path # _ \<Rightarrow> (case read_headers E r1 0 no_headers of
           None \<Rightarrow> None
         | Some (h, rest) \<Rightarrow> Some (method, path, h, rest))
       | _ \<Rightarrow> None))"

text \<open>\<^verbatim>\<open>handle_http\<close>. Every connection has a plain thread of its own, outside the asynchronous runtime.\<close>
definition handle_http :: "web_env \<Rightarrow> bytes \<Rightarrow> ConnectionManager \<Rightarrow> Identity \<Rightarrow> string \<Rightarrow> bytes option" where
  "handle_http E input cm ident token = (case parse_request E input of
     None \<Rightarrow> None
   | Some (method, path, h, rest) \<Rightarrow> map_option (\<lambda>(status, ct, extra, body). write_response status ct extra body)
       (answer E method path h rest cm ident token))"

section \<open>Start-up and the limit on connections\<close>

text \<open>The token in force and the token file; fresh random bytes come in.\<close>
definition generate_web_token :: "write_io \<Rightarrow> bytes \<Rightarrow> disk_file \<Rightarrow> string \<times> disk_file" where
  "generate_web_token io rnd f = (let token = hex_encode (arr 32 rnd) in (token, fst (write_private_file io token f)))"

definition web_token :: "write_io \<Rightarrow> bytes \<Rightarrow> disk_file \<Rightarrow> string \<times> disk_file" where
  "web_token io rnd f = (case read_to_string f of
     Some existing \<Rightarrow> (let trimmed = trim existing in if trimmed = [] then generate_web_token io rnd f else (trimmed, f))
   | None \<Rightarrow> generate_web_token io rnd f)"

text \<open>One accepted connection at the current count: served (with the new count), or refused with a fixed
  response. The guard of \<^verbatim>\<open>handle_http\<close> takes one off when it returns.\<close>
definition web_accept :: "nat \<Rightarrow> nat \<times> bytes option" where
  "web_accept active = (if active \<ge> MAX_WEB_CONNS
     then (active, Some (str_bytes (''HTTP/1.0 503 Service Unavailable'' @ crlf @ ''Content-Length: 0'' @ crlf @ ''Connection: close'' @ crlf @ crlf)))
     else (active + 1, None))"

section \<open>Properties\<close>

lemma token_authorized_iff: "token_authorized token a \<longleftrightarrow> bearer_token a = Some token"
  by (auto simp: token_authorized_def constant_time_eq_iff split: option.split)

text \<open>Whether a request carries the token.\<close>
definition carries :: "web_env \<Rightarrow> string \<Rightarrow> bytes \<Rightarrow> bool" where
  "carries E token input = (case parse_request E input of None \<Rightarrow> False
     | Some (m, p, h, rest) \<Rightarrow> bearer_token (hd_authorization h) = Some token)"

lemma answer_blind:
  assumes "bearer_token (hd_authorization h) \<noteq> Some token"
  shows "answer E method path h rest cm ident token = answer E method path h rest cm' ident' token"
proof -
  have "route E r method path b cm ident token (hd_authorization h) = route E r method path b cm' ident' token (hd_authorization h)" for r b
    using assms by (auto simp: route_def token_authorized_iff starts_with_def)
  then show ?thesis by (simp add: answer_def)
qed

lemma handle_blind:
  assumes "\<not> carries E token input"
  shows "handle_http E input cm ident token = handle_http E input cm' ident' token"
proof (cases "parse_request E input")
  case (Some r)
  obtain m p h rest where r: "r = (m, p, h, rest)" by (cases r)
  have "answer E m p h rest cm ident token = answer E m p h rest cm' ident' token"
    using assms Some r by (intro answer_blind) (simp add: carries_def)
  then show ?thesis by (simp add: handle_http_def Some r)
qed (simp add: handle_http_def)

text \<open>C39: Without the token the console tells nothing. For any bytes a client may send, a request that does
  not carry the token gets the very same response, or none, whatever the node's connections and
  identity are.\<close>
theorem console_needs_token:
  assumes "\<not> carries E token input"
  shows "handle_http E input cm ident token = handle_http E input cm' ident' token"
  using assms by (rule handle_blind)

text \<open>A request that names a foreign host is refused, and so is one from a foreign origin, whatever else
  it carries, the token included.\<close>
theorem foreign_request_refused:
  assumes "parse_request E input = Some (m, p, h, rest)"
    and "(\<exists>x. hd_host h = Some x \<and> \<not> host_allowed x) \<or> (\<exists>x. hd_origin h = Some x \<and> \<not> origin_allowed x)"
  shows "handle_http E input cm ident token = Some (write_response ''403 Forbidden'' ''text/plain'' [] ''403'')"
  using assms by (auto simp: handle_http_def answer_def split: option.split)

text \<open>The console never starts a connection: the thread that serves a request has no asynchronous runtime.\<close>
theorem console_never_connects:
  assumes "answer E ''POST'' ''/api/connect'' h rest cm ident token = Some (status, ct, extra, body)"
  shows "status \<noteq> ''200 OK''"
  using assms by (auto simp: answer_def route_def api_connect_def Let_def split: if_splits option.splits prod.splits sum.splits)

subsection \<open>Header values are in lower case\<close>

definition all_lower :: "string \<Rightarrow> bool" where
  "all_lower s \<longleftrightarrow> (\<forall>c \<in> set s. lower_char c = c)"

lemma set_trim_start: "set (trim_start s) \<subseteq> set s"
proof (induction s rule: trim_start.induct)
  case (1 s)
  then show ?case by (subst trim_start.simps) (auto dest: in_set_dropD)
qed

lemma set_trim_end: "set (trim_end s) \<subseteq> set s"
proof (induction s rule: trim_end.induct)
  case (1 s)
  then show ?case by (subst trim_end.simps) (auto dest: in_set_takeD)
qed

lemma all_lower_trim: "all_lower s \<Longrightarrow> all_lower (trim s)"
  using set_trim_start [of s] set_trim_end [of "trim_start s"] by (auto simp: all_lower_def trim_def)

lemma all_lower_lowercase: "all_lower (to_ascii_lowercase s)"
  by (auto simp: all_lower_def to_ascii_lowercase_def)

lemma all_lower_strip: "all_lower s \<Longrightarrow> strip_prefix pre s = Some v \<Longrightarrow> all_lower v"
  by (auto simp: strip_prefix_def all_lower_def dest: in_set_dropD split: if_splits)

definition auth_lower :: "headers \<Rightarrow> bool" where
  "auth_lower h \<longleftrightarrow> (\<forall>a. hd_authorization h = Some a \<longrightarrow> all_lower a)"

lemma auth_lower_add: "auth_lower h \<Longrightarrow> all_lower l \<Longrightarrow> auth_lower (add_header l h)"
  by (auto simp: auth_lower_def add_header_def split: option.split intro: all_lower_trim dest: all_lower_strip)

lemma auth_lower_read: "read_headers E r n h = Some (h', rest) \<Longrightarrow> auth_lower h \<Longrightarrow> auth_lower h'"
proof (induction E r n h rule: read_headers.induct)
  case (1 E r n h)
  from "1.prems" obtain line r1 where line: "read_limited_line r MAX_HEADER_LINE = Inr (Some (line, r1))"
    by (subst (asm) read_headers.simps) (auto split: sum.splits option.splits prod.splits)
  show ?case
  proof (cases "trim_end line = []")
    case True
    then show ?thesis using "1.prems" line by (subst (asm) read_headers.simps) (auto simp: Let_def split: if_splits)
  next
    case False
    let ?h = "add_header (to_ascii_lowercase (trim_end line)) h"
    have "read_headers E r1 (n + length line) ?h = Some (h', rest)" "\<not> out_of_time E r1" "\<not> n + length line > MAX_HEADER_BYTES"
      using "1.prems"(1) line False by (subst (asm) read_headers.simps, auto simp: Let_def split: if_splits)+
    then show ?thesis using "1.IH" [OF line refl refl _ _ _ _ False] "1.prems"(2) auth_lower_add all_lower_lowercase by simp
  qed
qed

lemma split_first_space_lower:
  "split_first_space s = (a, Some b) \<Longrightarrow> all_lower s \<Longrightarrow> all_lower b"
  by (auto simp: split_first_space_def Let_def all_lower_def dest: in_set_dropD split: if_splits)

lemma bearer_token_lower: "bearer_token (Some a) = Some t \<Longrightarrow> all_lower a \<Longrightarrow> all_lower t"
  by (auto simp: bearer_token_def Let_def intro!: all_lower_trim split: prod.splits if_splits option.splits
      dest: split_first_space_lower [OF _ all_lower_trim])

lemma auth_lower_bearer: "auth_lower h \<Longrightarrow> bearer_token (hd_authorization h) = Some t \<Longrightarrow> all_lower t"
  by (cases "hd_authorization h") (auto simp: auth_lower_def bearer_token_def [of None] dest: bearer_token_lower)

text \<open>A token with a capital letter locks everybody out. Header lines are lowered before the token is
  taken from them; if the token file was written by hand with an upper-case letter in it, no request
  at all is authorised, not even one that carries exactly that token.\<close>
theorem uppercase_token_locks_out:
  assumes "\<not> all_lower token"
  shows "handle_http E input cm ident token = handle_http E input cm' ident' token"
proof (rule handle_blind)
  have "auth_lower h" if "read_headers E r 0 no_headers = Some (h, rest)" for r h rest
    by (rule auth_lower_read [OF that]) (simp add: auth_lower_def no_headers_def)
  then show "\<not> carries E token input" using assms
    by (auto simp: carries_def parse_request_def split: option.splits sum.splits list.splits prod.splits dest: auth_lower_bearer)
qed

subsection \<open>A generated token opens the console\<close>

text \<open>Nothing takes longer than the limit.\<close>
definition prompt :: "web_env \<Rightarrow> bool" where
  "prompt E \<longleftrightarrow> (\<forall>n. we_elapsed E n \<le> REQUEST_TOTAL_TIMEOUT_SECS * 10 ^ 9)"

lemma prompt_in_time: "prompt E \<Longrightarrow> \<not> out_of_time E rest"
  by (simp add: prompt_def out_of_time_def leD)

definition plain_line :: "string \<Rightarrow> bool" where
  "plain_line s \<longleftrightarrow> (\<forall>c \<in> set s. (of_char c :: nat) < 128 \<and> (of_char c :: nat) \<noteq> 10)"

lemma str_bytes_eq_Nil [simp]: "str_bytes s = [] \<longleftrightarrow> s = []"
  by (simp add: str_bytes_def)

lemma plain_line_valid: "plain_line s \<Longrightarrow> str_valid (s @ crlf)"
  unfolding str_valid_def
  by (rule utf8_valid_ascii) (auto simp: plain_line_def crlf_def str_bytes_def word_less_nat_alt unat_of_nat)

lemma plain_line_no_newline: "plain_line s \<Longrightarrow> 10 \<notin> set (str_bytes s)"
proof
  assume plain: "plain_line s" and "10 \<in> set (str_bytes s)"
  then obtain c where "c \<in> set s" "(of_nat (of_char c) :: u8) = 10" by (auto simp: str_bytes_def)
  then have "unat (of_nat (of_char c) :: u8) = 10" by simp
  then have "(of_char c :: nat) = 10" by (simp add: unat_of_nat of_char_lt_256)
  then show False using plain \<open>c \<in> set s\<close> by (auto simp: plain_line_def)
qed

lemma read_plain_line:
  assumes "plain_line s" and "length s + 2 \<le> mx"
  shows "read_limited_line (str_bytes (s @ crlf) @ rest) mx = Inr (Some (s @ crlf, rest))"
proof -
  have "takeWhile (\<lambda>b. b \<noteq> 10) (str_bytes s @ 13 # 10 # r) = str_bytes s @ [13]" for r
    using plain_line_no_newline [OF assms(1)] by (subst takeWhile_append2) auto
  moreover have "take (mx + 1) (str_bytes s @ 13 # 10 # rest) = str_bytes s @ 13 # 10 # take (mx - 1 - length s) rest"
    using assms(2) by (simp add: take_Cons' Suc_diff_le numeral_2_eq_2)
  ultimately have "read_until_newline (mx + 1) (str_bytes (s @ crlf) @ rest) = str_bytes (s @ crlf)"
    by (simp add: read_until_newline_def Let_def crlf_def str_bytes_def)
  then show ?thesis using assms(2) plain_line_valid [OF assms(1)]
    by (simp add: read_limited_line_def Let_def crlf_def)
qed

lemma split_word: "visible w \<Longrightarrow> acc @ w \<noteq> [] \<Longrightarrow>
    split_whitespace acc (w @ CHR '' '' # s) = (acc @ w) # split_whitespace [] s"
proof (induction w arbitrary: acc)
  case (Cons c w)
  then show ?case by (subst split_whitespace.simps) simp
qed (simp add: split_whitespace.simps [of _ "CHR '' '' # s"])

lemma hex_encode_visible: "visible (hex_encode bs)" "all_lower (hex_encode bs)"
proof -
  have "33 \<le> (of_char (hex_digit n) :: nat) \<and> (of_char (hex_digit n) :: nat) \<le> 126 \<and> lower_char (hex_digit n) = hex_digit n"
    if "n < 16" for n using that by (simp add: of_char_hex_digit lower_char_def Let_def)
  then show "visible (hex_encode bs)" "all_lower (hex_encode bs)"
    by (auto simp: hex_encode_def visible_def all_lower_def less_mult_imp_div_less unat_u8_lt)
qed

lemma visible_plain: "visible s \<Longrightarrow> plain_line s"
  by (fastforce simp: visible_def plain_line_def)

lemma length_crlf [simp]: "length crlf = 2" "crlf \<noteq> []"
  by (simp_all add: crlf_def)

text \<open>A request with one header.\<close>
definition request_text :: "string \<Rightarrow> string \<Rightarrow> string" where
  "request_text path header = (''GET '' @ path @ '' HTTP/1.1'' @ crlf) @ (header @ crlf) @ ([] @ crlf)"

text \<open>What a client with the token sends.\<close>
definition status_request :: "string \<Rightarrow> string" where
  "status_request token = request_text ''/api/status'' (''Authorization: Bearer '' @ token)"

lemma lowercase_id: "all_lower s \<Longrightarrow> to_ascii_lowercase s = s"
  by (induction s) (auto simp: all_lower_def to_ascii_lowercase_def)

lemma trim_end_only_crlf: "trim_end crlf = []"
  using trim_end_crlf [of "[]"] by (simp add: crlf_def)

lemma read_one_header:
  assumes "plain_line l" and "l \<noteq> []" and "visible [last l]" and "length l \<le> 2000" and t: "prompt E"
  shows "read_headers E (str_bytes ((l @ crlf) @ ([] @ crlf))) 0 no_headers = Some (add_header (to_ascii_lowercase l) no_headers, [])"
proof -
  let ?h = "add_header (to_ascii_lowercase l) no_headers"
  have line1: "read_limited_line (str_bytes ((l @ crlf) @ ([] @ crlf))) MAX_HEADER_LINE = Inr (Some (l @ crlf, str_bytes ([] @ crlf)))"
    using read_plain_line [OF assms(1), of MAX_HEADER_LINE "str_bytes ([] @ crlf)"] assms(4)
    by (simp add: str_bytes_append MAX_HEADER_LINE_def)
  have line2: "read_limited_line (str_bytes ([] @ crlf)) MAX_HEADER_LINE = Inr (Some (crlf, []))"
    using read_plain_line [of "[]" MAX_HEADER_LINE "[]"] by (simp add: plain_line_def MAX_HEADER_LINE_def)
  have trimmed: "trim_end (l @ crlf) = l" unfolding crlf_def by (rule trim_end_crlf) (use assms in auto)
  have "read_headers E (str_bytes ([] @ crlf)) (length (l @ crlf)) ?h = Some (?h, [])"
    using line2 assms(4) by (subst read_headers.simps) (simp add: trim_end_only_crlf MAX_HEADER_BYTES_def prompt_in_time [OF t])
  then show ?thesis using line1 trimmed assms(2,4)
    by (subst read_headers.simps) (simp add: MAX_HEADER_BYTES_def prompt_in_time [OF t])
qed

lemma split_last_word: "visible w \<Longrightarrow> acc @ w \<noteq> [] \<Longrightarrow> split_whitespace acc (w @ crlf) = [acc @ w]"
proof (induction w arbitrary: acc)
  case Nil
  have sp: "space_at [CHR 0x0D, CHR 0x0A] = 1" "space_at [CHR 0x0A] = 1" by (simp_all add: space_at_def white_spaces_def str_bytes_def)
  have "split_whitespace [] [] = []" by (subst split_whitespace.simps) simp
  then have "split_whitespace [] [CHR 0x0A] = []" using sp by (subst split_whitespace.simps) simp
  then show ?case using Nil sp unfolding crlf_def by (subst split_whitespace.simps) simp
next
  case (Cons c w)
  then show ?case by (subst split_whitespace.simps) simp
qed

lemma parse_request_text:
  assumes path: "visible path" "path \<noteq> []" "length path \<le> 2000"
    and header: "plain_line l" "l \<noteq> []" "visible [last l]" "length l \<le> 2000"
    and t: "prompt E"
  shows "parse_request E (str_bytes (request_text path l)) = Some (''GET'', path, add_header (to_ascii_lowercase l) no_headers, [])"
proof -
  let ?l = "''GET '' @ path @ '' HTTP/1.1''" and ?r = "(l @ crlf) @ ([] @ crlf)"
  have "read_limited_line (str_bytes (?l @ crlf) @ str_bytes ?r) MAX_REQUEST_LINE = Inr (Some (?l @ crlf, str_bytes ?r))"
    by (rule read_plain_line) (use visible_plain [OF path(1)] path(3) in \<open>simp_all add: plain_line_def MAX_REQUEST_LINE_def\<close>)
  moreover have "str_bytes (request_text path l) = str_bytes (?l @ crlf) @ str_bytes ?r"
    by (simp add: request_text_def str_bytes_def)
  moreover have "split_whitespace [] (?l @ crlf) = [''GET'', path, ''HTTP/1.1'']"
    using split_word [of "''GET''" "[]" "path @ '' HTTP/1.1'' @ crlf"] split_word [of path "[]" "''HTTP/1.1'' @ crlf"]
      split_last_word [of "''HTTP/1.1''" "[]"] path by simp
  ultimately show ?thesis using read_one_header [OF header t] by (simp add: parse_request_def prompt_in_time [OF t])
qed

lemma parse_status_request:
  assumes "visible token" and "all_lower token" and "token \<noteq> []" and "length token \<le> 1024" and "prompt E"
  shows "parse_request E (str_bytes (status_request token)) = Some (''GET'', ''/api/status'',
    no_headers\<lparr> hd_authorization := Some (''bearer '' @ token) \<rparr>, [])"
proof -
  let ?l = "''Authorization: Bearer '' @ token"
  have low: "to_ascii_lowercase ?l = ''authorization: bearer '' @ token"
    using lowercase_id [OF assms(2)] by (simp add: to_ascii_lowercase_def lower_char_def char_of_def bit_0)
  have "trim ('' bearer '' @ token) = ''bearer '' @ token"
    using assms visible_last by (simp add: trim_def trim_start_space trim_start_visible trim_end_visible)
  then have "add_header (to_ascii_lowercase ?l) no_headers = no_headers\<lparr> hd_authorization := Some (''bearer '' @ token) \<rparr>"
    unfolding low by (simp add: add_header_def strip_prefix_def starts_with_def)
  moreover have "plain_line ?l" "visible [last ?l]" "length ?l \<le> 2000"
    using visible_plain [OF assms(1)] visible_last assms by (auto simp: plain_line_def)
  ultimately show ?thesis using parse_request_text [of "''/api/status''" ?l E] assms(5) by (simp add: status_request_def)
qed

lemma bearer_header:
  assumes "visible t" and "t \<noteq> []"
  shows "bearer_token (Some (''bearer '' @ t)) = Some t"
proof -
  have "takeWhile (\<lambda>c. c \<noteq> CHR '' '') (''bearer '' @ t) = ''bearer''" by simp
  moreover have "trim (''bearer '' @ t) = ''bearer '' @ t"
    using assms visible_last by (simp add: trim_def trim_start_visible trim_end_visible)
  ultimately show ?thesis using assms trim_visible [OF assms(1)]
    by (simp add: bearer_token_def split_first_space_def eq_ignore_ascii_case_def to_ascii_lowercase_def lower_char_def char_of_def bit_0)
qed

text \<open>The generated token opens the console. Whatever random bytes the first start draws, a client
  that sends the token it wrote to the file, in an ordinary request and in time, gets the node's
  status; and the next start takes the same token from the file.\<close>
theorem generated_token_opens:
  assumes "prompt E"
  shows "case web_token WriteOk rnd None of (token, f) \<Rightarrow>
     handle_http E (str_bytes (status_request token)) cm ident token
       = Some (write_response ''200 OK'' APP_JSON (''Cache-Control: no-store'' @ crlf) (api_status E cm))
     \<and> web_token io rnd' f = (token, f)"
proof -
  let ?t = "hex_encode (arr 32 rnd)"
  have tok: "web_token WriteOk rnd None = (?t, Some (str_bytes ?t))"
    by (simp add: web_token_def generate_web_token_def read_to_string_def Let_def)
  have t: "visible ?t" "all_lower ?t" "?t \<noteq> []" "length ?t \<le> 1024"
    using hex_encode_visible by (auto simp flip: length_greater_0_conv)
  have "str_valid ?t" unfolding str_valid_def
    by (rule utf8_valid_ascii) (use visible_plain [OF t(1)] in \<open>auto simp: plain_line_def str_bytes_def word_less_nat_alt unat_of_nat\<close>)
  then have "web_token io rnd' (Some (str_bytes ?t)) = (?t, Some (str_bytes ?t))"
    using t by (simp add: web_token_def read_to_string_def trim_visible Let_def)
  moreover have "handle_http E (str_bytes (status_request ?t)) cm ident ?t
       = Some (write_response ''200 OK'' APP_JSON (''Cache-Control: no-store'' @ crlf) (api_status E cm))"
    using parse_status_request [OF t assms] bearer_header [OF t(1,3)]
    by (simp add: handle_http_def answer_def route_def token_authorized_iff no_headers_def starts_with_def)
  ultimately show ?thesis using tok by simp
qed

definition demo_env :: web_env where
  "demo_env = \<lparr> we_index_html = [], we_pid = 1, we_uptime = 2, we_elapsed = (\<lambda>n. 100), we_json_list = concat, we_connect_request = (\<lambda>_. None),
     we_parse_addr = (\<lambda>_. Inl []) \<rparr>"

lemma demo_prompt: "prompt demo_env"
  by (simp add: prompt_def demo_env_def REQUEST_TOTAL_TIMEOUT_SECS_def)

theorem generated_token_opens_witness:
  "case web_token WriteOk [7] None of (token, f) \<Rightarrow>
     handle_http demo_env (str_bytes (status_request token)) (ConnectionManager_new 1) (generate toy_prims [1] 0 []) token
       = Some (write_response ''200 OK'' APP_JSON (''Cache-Control: no-store'' @ crlf) (api_status demo_env (ConnectionManager_new 1)))
     \<and> web_token WriteOk [8] f = (token, f)"
  using generated_token_opens [OF demo_prompt] .

theorem console_needs_token_witness:
  "handle_http demo_env (str_bytes (status_request ''aa'')) (ConnectionManager_new 1) (generate toy_prims [1] 0 []) ''bb''
    = handle_http demo_env (str_bytes (status_request ''aa'')) (ConnectionManager_new 2) (generate toy_prims [2] 0 ''ann'') ''bb''"
proof (rule console_needs_token)
  have "parse_request demo_env (str_bytes (status_request ''aa'')) = Some (''GET'', ''/api/status'',
      no_headers\<lparr> hd_authorization := Some (''bearer '' @ ''aa'') \<rparr>, [])"
    by (rule parse_status_request) (simp_all add: all_lower_def lower_char_def demo_prompt)
  then show "\<not> carries demo_env ''bb'' (str_bytes (status_request ''aa''))" using bearer_header [of "''aa''"] by (simp add: carries_def)
qed

theorem foreign_request_refused_witness:
  "handle_http demo_env (str_bytes (request_text ''/'' ''Host: evil.com'')) (ConnectionManager_new 1) (generate toy_prims [1] 0 []) ''bb''
    = Some (write_response ''403 Forbidden'' ''text/plain'' [] ''403'')"
proof (rule foreign_request_refused)
  show "parse_request demo_env (str_bytes (request_text ''/'' ''Host: evil.com'')) = Some (''GET'', ''/'',
      add_header (to_ascii_lowercase ''Host: evil.com'') no_headers, [])"
    by (rule parse_request_text) (simp_all add: plain_line_def demo_prompt)
  have "trim '' evil.com'' = ''evil.com''" by (simp add: trim_def trim_start_space trim_start_visible trim_end_visible)
  then have "hd_host (add_header (to_ascii_lowercase ''Host: evil.com'') no_headers) = Some ''evil.com''"
    by (simp add: add_header_def to_ascii_lowercase_def lower_char_def char_of_def bit_0 strip_prefix_def starts_with_def)
  then show "(\<exists>x. hd_host (add_header (to_ascii_lowercase ''Host: evil.com'') no_headers) = Some x \<and> \<not> host_allowed x)
      \<or> (\<exists>x. hd_origin (add_header (to_ascii_lowercase ''Host: evil.com'') no_headers) = Some x \<and> \<not> origin_allowed x)"
    by (auto simp: host_allowed_def)
qed

theorem uppercase_token_locks_out_witness:
  "handle_http demo_env (str_bytes (status_request ''Secret'')) (ConnectionManager_new 1) (generate toy_prims [1] 0 []) ''Secret''
    = handle_http demo_env (str_bytes (status_request ''Secret'')) (ConnectionManager_new 2) (generate toy_prims [2] 0 ''ann'') ''Secret''"
  by (rule uppercase_token_locks_out) (auto simp: all_lower_def lower_char_def char_of_def bit_0)

end
