(* ===== verification/Socks5.thy ===== *)
theory Socks5
  imports Messages
begin

text \<open>
  \<^verbatim>\<open>network.rs\<close>: the SOCKS5 client that reaches hidden services by name. The bytes the proxy sends are
  inputs: what the first \<^verbatim>\<open>read_exact\<close> finds, and what one \<^verbatim>\<open>read\<close> returns for the answer. Resolving and
  connecting to the proxy itself is an input too. A reference parser of the server's side (RFC 1928)
  says what a request means.
\<close>

section \<open>The client\<close>

datatype socks_error = ProxyUnreachable | ReadFailed io_error | AuthFailed | DomainTooLong | ConnectFailed

text \<open>\<^verbatim>\<open>dlen as u8\<close>, \<^verbatim>\<open>(target_port >> 8) as u8\<close> and \<^verbatim>\<open>(target_port & 0xFF) as u8\<close>.\<close>
definition connect_request :: "string \<Rightarrow> u16 \<Rightarrow> bytes" where
  "connect_request domain port = [0x05, 0x01, 0x00, 0x03, of_nat (length domain)] @ str_bytes domain
     @ [ucast (drop_bit 8 port), ucast (port AND 0xFF)]"

text \<open>What the proxy sends: its greeting, and the bytes the single read of the answer returns (at most 262).\<close>
record proxy_io =
  px_reachable :: bool
  px_greeting :: bytes
  px_answer :: "io_error + bytes"

text \<open>The bytes written to the proxy, and the outcome.\<close>
definition connect :: "proxy_io \<Rightarrow> string \<Rightarrow> u16 \<Rightarrow> bytes \<times> (socks_error + unit)" where
  "connect io target_domain target_port =
     (if \<not> px_reachable io then ([], Inl ProxyUnreachable)
      else let w1 = [0x05, 0x01, 0x00] in
        (case read_exact 2 (px_greeting io) of
           Inl e \<Rightarrow> (w1, Inl (ReadFailed e))
         | Inr (resp, _) \<Rightarrow>
             if resp ! 0 \<noteq> 0x05 \<or> resp ! 1 \<noteq> 0x00 then (w1, Inl AuthFailed)
             else if length target_domain > 255 then (w1, Inl DomainTooLong)
             else let w2 = w1 @ connect_request target_domain target_port in
               (case px_answer io of
                  Inl e \<Rightarrow> (w2, Inl (ReadFailed e))
                | Inr bs \<Rightarrow> (let resp2 = take 262 bs in
                    if length resp2 < 10 \<or> resp2 ! 1 \<noteq> 0x00 then (w2, Inl ConnectFailed) else (w2, Inr ())))))"

text \<open>The loop over the attempts, with the proxy's behaviour at each: how many were made, and the outcome.\<close>
fun attempt_loop :: "(nat \<Rightarrow> proxy_io) \<Rightarrow> string \<Rightarrow> u16 \<Rightarrow> nat \<Rightarrow> nat \<Rightarrow> socks_error option \<Rightarrow> nat \<times> (socks_error + unit)" where
  "attempt_loop io domain port i 0 last_err = (i, Inl (case last_err of None \<Rightarrow> ConnectFailed | Some e \<Rightarrow> e))"
| "attempt_loop io domain port i (Suc n) last_err = (case snd (connect (io i) domain port) of
     Inr u \<Rightarrow> (Suc i, Inr u)
   | Inl e \<Rightarrow> attempt_loop io domain port (Suc i) n (Some e))"

definition socks5_connect :: "(nat \<Rightarrow> proxy_io) \<Rightarrow> string \<Rightarrow> u16 \<Rightarrow> u32 \<Rightarrow> nat \<times> (socks_error + unit)" where
  "socks5_connect io domain port retries =
     (let attempts = (if retries = 0 then 1 else retries) in attempt_loop io domain port 0 (unat attempts) None)"

section \<open>The server's side\<close>

text \<open>A CONNECT request by domain name, and the input after it.\<close>
fun parse_connect :: "bytes \<Rightarrow> (bytes \<times> u16 \<times> bytes) option" where
  "parse_connect (ver # cmd # rsv # atyp # len # rest) =
     (if ver = 5 \<and> cmd = 1 \<and> rsv = 0 \<and> atyp = 3 \<and> unat len + 2 \<le> length rest
      then Some (take (unat len) rest, of_nat (from_be (take 2 (drop (unat len) rest))), drop (unat len + 2) rest) else None)"
| "parse_connect _ = None"

text \<open>Tor listens at a fixed address; \<open>net\<close> says what answers at each.\<close>
definition connect_tor :: "(string \<Rightarrow> proxy_io) \<Rightarrow> string \<Rightarrow> u16 \<Rightarrow> bytes \<times> (socks_error + unit)" where
  "connect_tor net onion port = connect (net ''127.0.0.1:9050'') onion port"

section \<open>Properties\<close>

lemma port_bytes: "[ucast (drop_bit 8 port), ucast (port AND 0xFF)] = be_bytes 2 (unat (port :: u16))"
proof -
  have "port AND 0xFF = take_bit 8 port" by (simp add: take_bit_eq_mask mask_eq_exp_minus_1)
  then have low: "unat (port AND 0xFF) = unat port mod 256" by (simp add: take_bit_eq_mod unat_mod)
  have high: "unat (drop_bit 8 port) = unat port div 256" by (simp add: drop_bit_eq_div unat_div)
  have byte: "(ucast x :: u8) = of_nat (unat x)" for x :: u16 by (simp only: of_nat_unat)
  have wrap: "(of_nat (n mod 256) :: u8) = of_nat n" for n by (simp add: word_of_nat_eq_iff take_bit_eq_mod)
  show ?thesis unfolding byte low high numeral_2_eq_2 be_bytes.simps wrap by simp
qed

lemma parse_connect_request:
  assumes "length domain \<le> 255"
  shows "parse_connect (connect_request domain port @ rest) = Some (str_bytes domain, port, rest)"
proof -
  have "unat (of_nat (length domain) :: u8) = length domain" using assms by (simp add: unat_of_nat)
  moreover have "unat port < 256 ^ 2" using unsigned_less [of port, where 'a = nat] by simp
  then have "from_be (be_bytes 2 (unat port)) = unat port" by (simp add: from_be_be_bytes)
  moreover have "length (be_bytes 2 (unat port)) = 2" by simp
  ultimately show ?thesis unfolding connect_request_def port_bytes by (simp add: take_append drop_append)
qed

text \<open>The name goes to the proxy, and nowhere else. A connection that succeeds has sent a greeting that
  offers no authentication and then one CONNECT request, which a SOCKS5 server reads as exactly the domain
  name and the port asked for; the proxy accepted the one and reported success for the other. A name too
  long for the request is refused before anything of it is sent.\<close>
theorem socks_asks_by_name:
  assumes "connect io domain port = (written, res)"
  shows "(res = Inr () \<longrightarrow> (\<exists>req. written = [0x05, 0x01, 0x00] @ req \<and> parse_connect req = Some (str_bytes domain, port, [])
      \<and> take 2 (px_greeting io) = [0x05, 0x00] \<and> (\<exists>bs. px_answer io = Inr bs \<and> bs ! 1 = 0x00)))
    \<and> (length domain > 255 \<longrightarrow> written \<in> {[], [0x05, 0x01, 0x00]} \<and> res \<noteq> Inr ())"
proof (intro conjI impI)
  assume "res = Inr ()"
  then have r: "px_reachable io" "length domain \<le> 255" "written = [0x05, 0x01, 0x00] @ connect_request domain port"
    and greet: "\<exists>resp rest. read_exact 2 (px_greeting io) = Inr (resp, rest) \<and> resp ! 0 = 0x05 \<and> resp ! 1 = 0x00"
    and ans: "\<exists>bs. px_answer io = Inr bs \<and> bs ! 1 = 0x00"
    using assms by (auto simp: connect_def Let_def not_less split: if_splits sum.splits prod.splits)
  obtain resp rest where "read_exact 2 (px_greeting io) = Inr (resp, rest)" "resp ! 0 = 0x05" "resp ! 1 = 0x00" using greet by blast
  then have "take 2 (px_greeting io) = [0x05, 0x00]"
    by (cases "px_greeting io"; cases "tl (px_greeting io)") (auto simp: read_exact_def split: if_splits)
  then show "\<exists>req. written = [0x05, 0x01, 0x00] @ req \<and> parse_connect req = Some (str_bytes domain, port, [])
      \<and> take 2 (px_greeting io) = [0x05, 0x00] \<and> (\<exists>bs. px_answer io = Inr bs \<and> bs ! 1 = 0x00)"
    using r ans parse_connect_request [OF r(2), of port "[]"] by auto
qed (use assms in \<open>auto simp: connect_def Let_def split: if_splits sum.splits prod.splits\<close>)

theorem socks_asks_by_name_witness:
  "\<exists>req. connect \<lparr> px_reachable = True, px_greeting = [5, 0], px_answer = Inr (5 # 0 # replicate 8 0) \<rparr> ''abc.onion'' 80
      = ([5, 1, 0] @ req, Inr ()) \<and> parse_connect req = Some (str_bytes ''abc.onion'', 80, [])"
proof -
  let ?io = "\<lparr> px_reachable = True, px_greeting = [5, 0], px_answer = Inr (5 # 0 # replicate 8 0) \<rparr> :: proxy_io"
  have run: "connect ?io ''abc.onion'' 80 = (fst (connect ?io ''abc.onion'' 80), Inr ())"
    by (simp add: connect_def read_exact_def Let_def)
  from socks_asks_by_name [OF this] run show ?thesis by (metis prod.inject)
qed

lemma attempt_loop_count: "attempt_loop io domain port i n last_err = (k, res) \<Longrightarrow> i \<le> k \<and> k \<le> i + n \<and> (0 < n \<longrightarrow> i < k)"
  by (induction n arbitrary: i last_err) (force split: sum.splits)+

lemma attempt_loop_success:
  "attempt_loop io domain port i n last_err = (k, res) \<Longrightarrow>
     res = Inr () \<longleftrightarrow> (\<exists>j < n. snd (connect (io (i + j)) domain port) = Inr ())"
proof (induction n arbitrary: i last_err)
  case (Suc n)
  show ?case
  proof (cases "snd (connect (io i) domain port)")
    case (Inl e)
    then have "res = Inr () \<longleftrightarrow> (\<exists>j < n. snd (connect (io (Suc i + j)) domain port) = Inr ())" using Suc by simp
    then show ?thesis using Inl by (simp add: Ex_less_Suc2)
  next
    case (Inr u)
    then show ?thesis using Suc.prems by (auto intro!: exI [of _ 0])
  qed
qed auto

lemma attempt_loop_first:
  "attempt_loop io domain port i n last_err = (k, res) \<Longrightarrow> i + j + 1 < k \<Longrightarrow> snd (connect (io (i + j)) domain port) \<noteq> Inr ()"
proof (induction n arbitrary: i j last_err)
  case (Suc n)
  show ?case
  proof (cases "snd (connect (io i) domain port)")
    case (Inl e)
    then show ?thesis using Suc.prems Suc.IH [of "Suc i" "Some e" "j - 1"] by (cases j) auto
  qed (use Suc.prems in auto)
qed simp

text \<open>The retry loop makes at least one attempt, even when asked for none, and never more than asked
  for; it stops at the first success, and it fails exactly when every attempt it may make fails.\<close>
theorem socks_retries:
  assumes "socks5_connect io domain port retries = (k, res)"
  shows "1 \<le> k \<and> k \<le> max 1 (unat retries)
    \<and> (res = Inr () \<longleftrightarrow> (\<exists>j < max 1 (unat retries). snd (connect (io j) domain port) = Inr ()))
    \<and> (\<forall>j. j + 1 < k \<longrightarrow> snd (connect (io j) domain port) \<noteq> Inr ())"
proof -
  let ?n = "unat (if retries = 0 then 1 else retries)"
  have n: "?n = max 1 (unat retries)" by (simp add: unat_eq_zero max_def) (simp add: unat_gt_0 Suc_leI)
  have "attempt_loop io domain port 0 ?n None = (k, res)" using assms by (simp add: socks5_connect_def Let_def)
  from attempt_loop_count [OF this] attempt_loop_success [OF this] attempt_loop_first [OF this] show ?thesis
    unfolding n by auto
qed

text \<open>The answer is taken to be all in one read: a success that arrives in two pieces, the first shorter
  than ten bytes, is reported as a failure.\<close>
lemma split_answer_fails:
  assumes "px_reachable io" and "px_greeting io = [5, 0]" and "length domain \<le> 255" and "px_answer io = Inr (take 9 answer)"
  shows "snd (connect io domain port) = Inl ConnectFailed"
  using assms by (auto simp: connect_def read_exact_def Let_def min_def)

end
