(* ===== verification/Lan.thy ===== *)
theory Lan
  imports Crypto Text
begin

text \<open>
  \<^verbatim>\<open>net/lan.rs\<close>: announcements on the local network and what a node makes of those it hears. The
  datagrams that arrive before the deadline, with their senders' addresses, are an input.
\<close>

section \<open>Announcements\<close>

record LanPeer =
  lp_uid :: uid
  lp_port :: u16
  lp_addr :: string

text \<open>\<^verbatim>\<open>format!("CHRONO:{}:{}", uid, port)\<close>\<close>
definition announcement :: "uid \<Rightarrow> u16 \<Rightarrow> string" where
  "announcement u port = ''CHRONO:'' @ u @ '':'' @ show_nat (unat port)"

definition parse_announce :: "string \<Rightarrow> LanPeer option" where
  "parse_announce data = (case split_at_char CHR '':'' (trim data) of
     [tag, u, p] \<Rightarrow> if tag = ''CHRONO''
       then (case parse_uint (2 ^ 16) p of
         None \<Rightarrow> None
       | Some n \<Rightarrow> Some \<lparr> lp_uid = u, lp_port = of_nat n, lp_addr = ''0.0.0.0:'' @ show_nat n \<rparr>)
       else None
   | _ \<Rightarrow> None)"

text \<open>A datagram: its bytes (the buffer takes 256 of them) and the sender's address as text.\<close>
type_synonym datagram = "bytes \<times> string"

text \<open>What one datagram adds.\<close>
definition heard :: "uid \<Rightarrow> datagram \<Rightarrow> LanPeer list" where
  "heard me d = (case parse_announce (from_utf8_lossy (take 256 (fst d))) of
     None \<Rightarrow> []
   | Some p \<Rightarrow> if lp_uid p \<noteq> me
       then [\<lparr> lp_uid = lp_uid p, lp_port = lp_port p, lp_addr = snd d @ '':'' @ show_nat (unat (lp_port p)) \<rparr>] else [])"

fun hear :: "uid \<Rightarrow> datagram list \<Rightarrow> LanPeer list \<Rightarrow> LanPeer list" where
  "hear me [] peers = peers"
| "hear me (d # ds) peers = hear me ds (peers @ heard me d)"

text \<open>What is broadcast, and who is found; nothing if no socket can be had.\<close>
definition discover_peers :: "bool \<Rightarrow> u16 \<Rightarrow> uid \<Rightarrow> datagram list \<Rightarrow> bytes list \<times> LanPeer list" where
  "discover_peers socket_ok port me ds = (if \<not> socket_ok then ([], []) else ([str_bytes (announcement me port)], hear me ds []))"

section \<open>Properties\<close>

lemma set_hear: "set (hear me ds peers) = set peers \<union> (\<Union>d \<in> set ds. set (heard me d))"
  by (induction ds arbitrary: peers) auto

lemma valid_uid_visible: "validate_uid u \<Longrightarrow> visible u"
proof -
  assume valid: "validate_uid u"
  have "33 \<le> (of_char c :: nat) \<and> (of_char c :: nat) \<le> 126" if "c \<in> set u" for c
  proof -
    have "(of_nat (of_char c) :: u8) \<in> set (str_bytes u)" using that by (auto simp: str_bytes_def)
    then have "uid_byte_ok (of_nat (of_char c))" using valid by (simp add: validate_uid_def)
    then have "33 \<le> (of_nat (of_char c) :: u8) \<and> (of_nat (of_char c) :: u8) \<le> 126"
      by (auto simp: uid_byte_ok_def str_bytes_def word_le_nat_alt)
    then show ?thesis by (simp add: word_le_nat_alt unat_of_nat of_char_lt_256)
  qed
  then show ?thesis by (simp add: visible_def)
qed

lemma announcement_visible: "validate_uid u \<Longrightarrow> visible (announcement u port)"
  using valid_uid_visible show_nat_visible by (simp add: announcement_def)

lemma show_nat_no_colon: "CHR '':'' \<notin> set (show_nat n)"
  using show_nat_digits [of "CHR '':''" n] by auto

lemma parse_announcement:
  assumes "validate_uid u" and "CHR '':'' \<notin> set u"
  shows "parse_announce (announcement u port) = Some \<lparr> lp_uid = u, lp_port = port, lp_addr = ''0.0.0.0:'' @ show_nat (unat port) \<rparr>"
proof -
  have "split_at_char CHR '':'' (announcement u port) = [''CHRONO'', u, show_nat (unat port)]"
    using split_at_char_append [of "CHR '':''" "''CHRONO''" "u @ '':'' @ show_nat (unat port)"] split_at_char_append [OF assms(2)]
      split_at_char_single [OF show_nat_no_colon] by (simp add: announcement_def)
  moreover have "unat port < 2 ^ 16" using unsigned_less [of port, where 'a = nat] by simp
  then have "parse_uint (2 ^ 16) (show_nat (unat port)) = Some (unat port)" by (rule parse_uint_show_nat)
  ultimately show ?thesis using trim_visible [OF announcement_visible [OF assms(1)]] by (simp add: parse_announce_def)
qed

lemma length_show_port: "length (show_nat (unat (port :: u16))) \<le> 5"
proof -
  have step: "length (show_nat n) \<le> Suc k" if "n < 10 ^ Suc k" for n k
    using that
  proof (induction k arbitrary: n)
    case (Suc k)
    then have "n div 10 < 10 ^ Suc k" by (simp add: less_mult_imp_div_less)
    from Suc.IH [OF this] show ?case by (simp add: show_nat.simps [of n])
  qed (simp add: show_nat.simps)
  have "unat port < 10 ^ Suc 4" using unsigned_less [of port, where 'a = nat] by simp
  from step [OF this] show ?thesis by simp
qed

text \<open>Nodes on one network find each other. A node whose name is valid and has no colon is found by
  every other node that receives its announcement, under its name, its port and the
  address the datagram came from, whatever else arrives; and a node never finds itself.\<close>
theorem lan_discovery:
  assumes "validate_uid u" and "CHR '':'' \<notin> set u" and "u \<noteq> me"
    and "(str_bytes (announcement u port), src) \<in> set ds"
  shows "\<lparr> lp_uid = u, lp_port = port, lp_addr = src @ '':'' @ show_nat (unat port) \<rparr> \<in> set (snd (discover_peers True my_port me ds))
    \<and> (\<forall>p \<in> set (snd (discover_peers True my_port me ds)). lp_uid p \<noteq> me)"
proof -
  have "length (announcement u port) \<le> 256"
    using assms(1) length_show_port [of port] by (simp add: announcement_def validate_uid_def)
  moreover have "str_valid (announcement u port)" unfolding str_valid_def
    by (rule utf8_valid_ascii) (use announcement_visible [OF assms(1), of port] in
        \<open>fastforce simp: visible_def str_bytes_def word_less_nat_alt unat_of_nat\<close>)
  ultimately have "heard me (str_bytes (announcement u port), src) =
      [\<lparr> lp_uid = u, lp_port = port, lp_addr = src @ '':'' @ show_nat (unat port) \<rparr>]"
    using parse_announcement [OF assms(1,2)] assms(3) by (simp add: heard_def)
  then have "\<lparr> lp_uid = u, lp_port = port, lp_addr = src @ '':'' @ show_nat (unat port) \<rparr> \<in> set (hear me ds [])"
    using assms(4) by (force simp: set_hear)
  moreover have "lp_uid p \<noteq> me" if "p \<in> set (hear me ds [])" for p
    using that by (auto simp: set_hear heard_def split: option.splits if_splits)
  ultimately show ?thesis by (simp add: discover_peers_def)
qed

theorem lan_discovery_witness:
  "\<lparr> lp_uid = ''ann'', lp_port = 9000, lp_addr = ''10.0.0.7'' @ '':'' @ show_nat (unat (9000 :: u16)) \<rparr>
    \<in> set (snd (discover_peers True 9001 ''bob'' [([0xFF], ''10.0.0.9''), (str_bytes (announcement ''ann'' 9000), ''10.0.0.7'')]))"
  by (rule lan_discovery [THEN conjunct1]) (simp_all add: validate_uid_def uid_byte_ok_def str_bytes_def)

lemma length_split_at_char: "length (split_at_char c s) = Suc (length (filter (\<lambda>x. x = c) s))"
  by (induction s) (auto split: list.split)

text \<open>A valid name may contain a colon; the announcement of such a node is heard by nobody.\<close>
theorem colon_name_not_found:
  assumes "validate_uid (a @ '':'' @ b)"
  shows "parse_announce (announcement (a @ '':'' @ b) port) = None"
proof -
  have "length (split_at_char CHR '':'' (announcement (a @ '':'' @ b) port)) \<ge> 4"
    by (simp add: length_split_at_char announcement_def)
  then show ?thesis using trim_visible [OF announcement_visible [OF assms]]
    by (auto simp: parse_announce_def split: list.split)
qed

theorem colon_name_not_found_witness: "parse_announce (announcement (''a'' @ '':'' @ ''b'') 9000) = None"
  by (rule colon_name_not_found) (simp add: validate_uid_def uid_byte_ok_def str_bytes_def)

end
