(* ===== verification/ProtocolFilter.thy ===== *)
theory ProtocolFilter
  imports Text
begin

text \<open>
  \<^verbatim>\<open>protocol_filter.rs\<close>: which messages may pass as text protocols. \<^verbatim>\<open>str::to_uppercase\<close> (the Unicode
  tables) and serde_json are parameters.
\<close>

section \<open>The filter\<close>

datatype Protocol = IRC | BBS | Unknown

datatype RejectReason = TooLarge nat nat | NotText | BinaryDetected

record ProtocolFilter =
  pf_max_message_bytes :: nat
  pf_allow_irc :: bool
  pf_allow_bbs :: bool
  pf_allow_unknown_text :: bool

definition filter_default :: ProtocolFilter where
  "filter_default = \<lparr> pf_max_message_bytes = 8192, pf_allow_irc = True, pf_allow_bbs = True, pf_allow_unknown_text = False \<rparr>"

record text_fns =
  tf_uppercase :: "string \<Rightarrow> string"
  tf_json_keys :: "string \<Rightarrow> string list option" \<comment> \<open>the keys, if the text is a JSON object\<close>

definition contains_binary :: "string \<Rightarrow> bool" where
  "contains_binary text \<longleftrightarrow> (\<exists>b \<in> set (str_bytes text). b = 0 \<or> (b < 0x20 \<and> b \<noteq> 13 \<and> b \<noteq> 10 \<and> b \<noteq> 9) \<or> b = 0x7F)"

text \<open>\<^verbatim>\<open>trim_end_matches(&['\r', '\n'])\<close>\<close>
definition trim_newlines :: "string \<Rightarrow> string" where
  "trim_newlines s = rev (dropWhile (\<lambda>c. c = CHR 0x0D \<or> c = CHR 0x0A) (rev s))"

definition irc_verbs :: "string list" where
  "irc_verbs = [''PRIVMSG'', ''JOIN'', ''PART'', ''NICK'', ''USER'', ''PING'', ''PONG'', ''QUIT'', ''NOTICE'', ''MODE'',
     ''TOPIC'', ''KICK'', ''INVITE'', ''WHOIS'']"

definition is_digit :: "char \<Rightarrow> bool" where
  "is_digit c \<longleftrightarrow> 48 \<le> (of_char c :: nat) \<and> (of_char c :: nat) \<le> 57"

text \<open>\<^verbatim>\<open>text.get(..3)\<close> is nothing when the third byte is inside a character; three ASCII digits never are.\<close>
definition looks_like_irc :: "text_fns \<Rightarrow> string \<Rightarrow> bool" where
  "looks_like_irc F text0 =
     (let text = trim_newlines text0 in
      if length text < 3 then False
      else let upper = tf_uppercase F text in
        if list_ex (\<lambda>verb. starts_with upper verb \<or> starts_with upper ('':'' @ verb)) irc_verbs then True
        else list_all is_digit (take 3 text))"

definition looks_like_bbs :: "text_fns \<Rightarrow> string \<Rightarrow> bool" where
  "looks_like_bbs F text = (case tf_json_keys F text of
     None \<Rightarrow> False
   | Some ks \<Rightarrow> ''topic'' \<in> set ks \<or> ''body'' \<in> set ks \<or> ''title'' \<in> set ks)"

definition filter_check :: "text_fns \<Rightarrow> ProtocolFilter \<Rightarrow> bytes \<Rightarrow> RejectReason + Protocol" where
  "filter_check F pf data =
     (if length data > pf_max_message_bytes pf then Inl (TooLarge (length data) (pf_max_message_bytes pf))
      else case from_utf8 data of
        None \<Rightarrow> Inl NotText
      | Some text \<Rightarrow>
          if contains_binary text then Inl BinaryDetected
          else if pf_allow_irc pf \<and> looks_like_irc F text then Inr IRC
          else if pf_allow_bbs pf \<and> looks_like_bbs F text then Inr BBS
          else if pf_allow_unknown_text pf then Inr Unknown
          else Inl NotText)"

section \<open>Properties\<close>

text \<open>What passes the filter is small clean text. Whatever the configuration, data that is let through
  is within the size limit, is well-formed UTF-8, contains no control character other than the end-of-line
  and tab characters, and has a protocol that is switched on; with the default configuration it is an IRC line or a
  BBS post.\<close>
theorem filter_passes_text:
  assumes "filter_check F pf data = Inr proto"
  shows "length data \<le> pf_max_message_bytes pf \<and> utf8_valid data
    \<and> (\<forall>b \<in> set data. b < 0x20 \<longrightarrow> b \<in> {9, 10, 13}) \<and> 0x7F \<notin> set data
    \<and> (case proto of IRC \<Rightarrow> pf_allow_irc pf \<and> looks_like_irc F (bytes_str data)
        | BBS \<Rightarrow> pf_allow_bbs pf \<and> looks_like_bbs F (bytes_str data) | Unknown \<Rightarrow> pf_allow_unknown_text pf)
    \<and> (pf = filter_default \<longrightarrow> proto \<noteq> Unknown)"
proof -
  have ok: "length data \<le> pf_max_message_bytes pf" "utf8_valid data" "\<not> contains_binary (bytes_str data)"
    using assms by (auto simp: filter_check_def from_utf8_def not_less split: if_splits)
  moreover have "(\<forall>b \<in> set data. b < 0x20 \<longrightarrow> b \<in> {9, 10, 13}) \<and> 0x7F \<notin> set data"
    using ok(3) by (auto simp: contains_binary_def)
  moreover have "case proto of IRC \<Rightarrow> pf_allow_irc pf \<and> looks_like_irc F (bytes_str data)
        | BBS \<Rightarrow> pf_allow_bbs pf \<and> looks_like_bbs F (bytes_str data) | Unknown \<Rightarrow> pf_allow_unknown_text pf"
    using assms by (auto simp: filter_check_def from_utf8_def split: if_splits)
  ultimately show ?thesis by (auto simp: filter_default_def)
qed

definition ascii_fns :: text_fns where
  "ascii_fns = \<lparr> tf_uppercase = id, tf_json_keys = (\<lambda>_. None) \<rparr>"

theorem filter_passes_text_witness:
  "filter_check ascii_fns filter_default (str_bytes ''JOIN #room'') = Inr IRC \<and> utf8_valid (str_bytes ''JOIN #room'')"
proof -
  have "utf8_valid (str_bytes ''JOIN #room'')" by (rule utf8_valid_ascii) (simp add: str_bytes_def)
  then have "filter_check ascii_fns filter_default (str_bytes ''JOIN #room'') = Inr IRC"
    by (simp add: filter_check_def from_utf8_def filter_default_def contains_binary_def str_bytes_def bytes_str_def looks_like_irc_def
        trim_newlines_def irc_verbs_def ascii_fns_def starts_with_def char_of_def bit_0)
  with filter_passes_text [OF this] show ?thesis by simp
qed

end
