(* ===== verification/Broadcast.thy ===== *)
theory Broadcast
  imports F2fBridge
begin

text \<open>
  \<^verbatim>\<open>dcnet/f2f.rs\<close>, the in-process DC-Net round: \<^verbatim>\<open>expand_share\<close>, \<^verbatim>\<open>broadcast_message\<close> and
  \<^verbatim>\<open>sync_reputation_to_trust\<close>. The ephemeral X25519 secret of participant \<open>i\<close> is \<open>secret i\<close>.
\<close>

section \<open>Shares\<close>

function expand_loop :: "prims \<Rightarrow> bytes \<Rightarrow> nat \<Rightarrow> u64 \<Rightarrow> bytes \<Rightarrow> bytes" where
  "expand_loop P seed len counter out =
     (if length out < len
      then expand_loop P seed len (counter + 1) (out @ sha256 P (seed @ be_bytes 8 (unat counter)))
      else take len out)"
  by pat_completeness auto
termination
  by (relation "measure (\<lambda>(P, seed, len, c, out). len - length out)") auto

declare expand_loop.simps [simp del]

definition expand_share :: "prims \<Rightarrow> bytes \<Rightarrow> nat \<Rightarrow> bytes" where
  "expand_share P seed len = expand_loop P seed len 0 []"

definition all_pairs :: "nat \<Rightarrow> (nat \<times> nat) list" where
  "all_pairs n = concat (map (\<lambda>i. map (Pair i) [i + 1..<n]) [0..<n])"

text \<open>The body of the two nested loops: one pairwise key goes into both shares.\<close>
definition share_pair :: "prims \<Rightarrow> (nat \<Rightarrow> bytes) \<Rightarrow> nat \<Rightarrow> nat \<times> nat \<Rightarrow> bytes list \<Rightarrow> bytes list" where
  "share_pair P secret payload_len ij shs =
     (let (i, j) = ij;
          shared = x_dh P (secret i) (x_public P (secret j));
          expanded = expand_share P shared payload_len;
          s1 = shs[i := xor_bytes (shs ! i) expanded]
      in s1[j := xor_bytes (s1 ! j) expanded])"

definition local_shares :: "prims \<Rightarrow> (nat \<Rightarrow> bytes) \<Rightarrow> nat \<Rightarrow> nat \<Rightarrow> bytes list" where
  "local_shares P secret n payload_len =
     fold (share_pair P secret payload_len) (all_pairs n) (replicate n (replicate payload_len 0))"

definition extract_text :: "bytes \<Rightarrow> string" where
  "extract_text global_xor =
     (if length global_xor \<ge> 4
      then let declared_len = from_be (take 4 global_xor);
               actual_len = min declared_len (length global_xor - 4)
           in from_utf8_lossy (take actual_len (drop 4 global_xor))
      else from_utf8_lossy global_xor)"

section \<open>Reputation to trust\<close>

definition trust_of_score :: "Reputation \<Rightarrow> u8" where
  "trust_of_score rep = (if rep_is_malicious rep then 0 else if rep_score rep \<ge> f64_lit 8 10 then 2
     else if rep_score rep \<ge> f64_lit 5 10 then 1 else 0)"

definition sync_one :: "u64 \<Rightarrow> uid \<times> bytes \<times> u8 \<Rightarrow> F2fDcNetBridge \<times> (uid \<times> u8) list
    \<Rightarrow> F2fDcNetBridge \<times> (uid \<times> u8) list" where
  "sync_one now upd st =
     (let (u, pid, cur) = upd; (b, changes) = st;
          (m, rep) = get_or_create now pid (br_reputation b);
          b1 = b\<lparr> br_reputation := m \<rparr>;
          nt = trust_of_score rep
      in if cur \<noteq> nt then (case hget (br_friends b1) u of
             None \<Rightarrow> (b1, changes)
           | Some f \<Rightarrow> (b1\<lparr> br_friends := hput u (f\<lparr> ff_trust_level := nt \<rparr>) (br_friends b1) \<rparr>, changes @ [(u, nt)]))
         else (b1, changes))"

definition sync_reputation_to_trust :: "u64 \<Rightarrow> F2fDcNetBridge \<Rightarrow> F2fDcNetBridge \<times> (uid \<times> u8) list" where
  "sync_reputation_to_trust now b =
     fold (sync_one now) (map (\<lambda>f. (ff_uid f, ff_peer_id f, ff_trust_level f)) (hvalues (br_friends b))) (b, [])"

section \<open>Broadcast\<close>

text \<open>Phase 4: rewards in the group and the reputation manager, trust levels, round number, evictions.\<close>
definition settle_broadcast :: "prims \<Rightarrow> u64 \<Rightarrow> string \<Rightarrow> u64 \<Rightarrow> bytes list \<Rightarrow> DcGroup \<Rightarrow> F2fDcNetBridge \<Rightarrow> F2fDcNetBridge" where
  "settle_broadcast P now channel next_id participants grp b =
     (let (grp', dropouts, malicious) = finish_round_with participants grp;
          (m, bad) = process_round now participants participants 100 (br_reputation b);
          malicious' = malicious @ filter (\<lambda>x. length x = 32) bad;
          b1 = b\<lparr> br_groups := hput channel grp' (br_groups b), br_reputation := m \<rparr>;
          b2 = fst (sync_reputation_to_trust now b1)
      in b2\<lparr> br_channels := hmodify channel (\<lambda>ch. ch\<lparr> ci_round_id := next_id,
            ci_participants := filter (\<lambda>u. uid_to_peer P u \<notin> set malicious') (ci_participants ch) \<rparr>) (br_channels b2) \<rparr>)"

definition broadcast_message :: "prims \<Rightarrow> (nat \<Rightarrow> bytes) \<Rightarrow> nat \<Rightarrow> u64 \<Rightarrow> string \<Rightarrow> string \<Rightarrow> F2fDcNetBridge
    \<Rightarrow> F2fDcNetBridge \<times> string option" where
  "broadcast_message P secret instant now channel text b = (case hget (br_groups b) channel of
     None \<Rightarrow> (b, None)
   | Some grp \<Rightarrow>
       (let participants = map peer_id (gr_participants grp) in
        if length participants < 2 then (b, Some text)
        else
          let next_id = (case hget (br_channels b) channel of Some ch \<Rightarrow> ci_round_id ch + 1 | None \<Rightarrow> 1);
              (grp1, started) = start_round instant next_id grp;
              b1 = b\<lparr> br_groups := hput channel grp1 (br_groups b) \<rparr>
          in case started of
            None \<Rightarrow> (b1, None)
          | Some _ \<Rightarrow>
              (let n = length participants;
                   payload_len = 4 + length text;
                   shs = local_shares P secret n payload_len
               in case position (uid_to_peer P (br_my_uid b)) participants of
                 None \<Rightarrow> (b1, None)
               | Some sender_idx \<Rightarrow>
                   (let payload = be_bytes 4 (length text) @ str_bytes text;
                        shs' = shs[sender_idx := xor_bytes (shs ! sender_idx) payload];
                        global_xor = xor_into (replicate payload_len 0) shs';
                        extracted = extract_text global_xor
                    in (settle_broadcast P now channel next_id participants grp1 b1,
                        Some (''[DC-Net round #'' @ show_nat (unat next_id) @ '' ('' @ show_nat n @ '' parties)] '' @ extracted))))))"

section \<open>What trust synchronisation does\<close>

lemma get_or_create_record: "record_of now (fst (get_or_create now p m)) q = record_of now m q"
  "snd (get_or_create now p m) = record_of now m p"
  by (auto simp: get_or_create_def record_of_def split: option.split)

lemma sync_one_frame [simp]:
  "br_channels (fst (sync_one now upd st)) = br_channels (fst st)"
  "br_groups (fst (sync_one now upd st)) = br_groups (fst st)"
  "br_min_trust (fst (sync_one now upd st)) = br_min_trust (fst st)"
  "record_of now (br_reputation (fst (sync_one now upd st))) q = record_of now (br_reputation (fst st)) q"
  using get_or_create_record(1) [of now "fst (snd upd)" "br_reputation (fst st)"]
  by (auto simp: sync_one_def Let_def split_beta split: option.split)

lemma fold_sync_frame:
  "br_channels (fst (fold (sync_one now) upds st)) = br_channels (fst st)"
  "br_groups (fst (fold (sync_one now) upds st)) = br_groups (fst st)"
  "br_min_trust (fst (fold (sync_one now) upds st)) = br_min_trust (fst st)"
  by (induction upds arbitrary: st) simp_all

lemma sync_channels [simp]: "br_channels (fst (sync_reputation_to_trust now b)) = br_channels b"
  "br_min_trust (fst (sync_reputation_to_trust now b)) = br_min_trust b"
  by (simp_all add: sync_reputation_to_trust_def fold_sync_frame)

lemma sync_one_friend:
  "hget (br_friends (fst (sync_one now (v, pid, cur) st))) u =
    (if u = v \<and> cur \<noteq> trust_of_score (record_of now (br_reputation (fst st)) pid)
     then map_option (\<lambda>f. f\<lparr> ff_trust_level := trust_of_score (record_of now (br_reputation (fst st)) pid) \<rparr>)
       (hget (br_friends (fst st)) u)
     else hget (br_friends (fst st)) u)"
  using get_or_create_record(2) [of now pid "br_reputation (fst st)"]
  by (auto simp: sync_one_def Let_def split_beta split: option.split)

lemma fold_sync_friend:
  "distinct (map fst upds) \<Longrightarrow> hget (br_friends (fst (fold (sync_one now) upds st))) u =
    (case map_of upds u of None \<Rightarrow> hget (br_friends (fst st)) u
     | Some (pid, cur) \<Rightarrow> if cur \<noteq> trust_of_score (record_of now (br_reputation (fst st)) pid)
        then map_option (\<lambda>f. f\<lparr> ff_trust_level := trust_of_score (record_of now (br_reputation (fst st)) pid) \<rparr>)
          (hget (br_friends (fst st)) u)
        else hget (br_friends (fst st)) u)"
proof (induction upds arbitrary: st)
  case (Cons upd upds)
  obtain v pid cur where upd: "upd = (v, pid, cur)" by (cases upd) auto
  have "map_of upds v = None" using Cons.prems upd by (simp add: map_of_eq_None_iff)
  then show ?case using Cons.IH [of "sync_one now upd st"] Cons.prems
    by (auto simp: upd sync_one_friend split: option.split)
qed simp

text \<open>Friends are filed under their own name.\<close>
definition friends_ok :: "F2fDcNetBridge \<Rightarrow> bool" where
  "friends_ok b \<longleftrightarrow> hwf (br_friends b) \<and> (\<forall>(u, f) \<in> set (br_friends b). ff_uid f = u)"

lemma sync_sets_trust:
  assumes "friends_ok b" and "hget (br_friends b) u = Some f"
  shows "hget (br_friends (fst (sync_reputation_to_trust now b))) u =
    Some (f\<lparr> ff_trust_level := trust_of_score (record_of now (br_reputation b) (ff_peer_id f)) \<rparr>)"
proof -
  let ?upds = "map (\<lambda>f. (ff_uid f, ff_peer_id f, ff_trust_level f)) (hvalues (br_friends b))"
  have ks: "map fst ?upds = hkeys (br_friends b)"
    using assms(1) by (auto simp: friends_ok_def hvalues_def hkeys_def)
  then have d: "distinct (map fst ?upds)" using assms(1) by (simp add: friends_ok_def hwf_def)
  have uf: "ff_uid f = u" using assms by (auto simp: friends_ok_def dest: hget_in_set)
  have "(u, ff_peer_id f, ff_trust_level f) \<in> set ?upds"
    using hget_in_set [OF assms(2)] uf by (force simp: hvalues_def)
  then have "map_of ?upds u = Some (ff_peer_id f, ff_trust_level f)" using d by (simp add: map_of_eq_Some_iff)
  then show ?thesis using fold_sync_friend [OF d, of now "(b, [])" u] assms(2)
    by (simp add: sync_reputation_to_trust_def)
qed

section \<open>The broadcast delivers the message\<close>

lemma length_expand_loop: "length (expand_loop P seed len c out) = len"
proof (induction P seed len c out rule: expand_loop.induct)
  case (1 P seed len c out)
  then show ?case by (subst expand_loop.simps) auto
qed

lemma length_expand_share [simp]: "length (expand_share P seed len) = len"
  by (simp add: expand_share_def length_expand_loop)

lemma xor_into_update:
  assumes "i < length ss" and "length e \<le> n" and "\<forall>s \<in> set ss. length s \<le> n"
  shows "xor_into (replicate n 0) (ss[i := xor_bytes (ss ! i) e]) = xor_bytes (xor_into (replicate n 0) ss) e"
  using assms
proof (induction ss arbitrary: i rule: rev_induct)
  case (snoc s ss)
  show ?case
  proof (cases "i < length ss")
    case True
    then show ?thesis using snoc
      by (simp add: nth_append list_update_append xor_into_snoc) (metis xor_ac)
  next
    case False
    then have "i = length ss" using snoc.prems by simp
    then show ?thesis by (simp add: xor_into_snoc xor_bytes_assoc)
  qed
qed simp

lemma update_lengths:
  "\<forall>s \<in> set ss. length s = n \<Longrightarrow> length x = n \<Longrightarrow> \<forall>s \<in> set (ss[i := x]). length s = n"
  by (auto dest!: set_update_subset_insert [THEN subsetD])

lemma share_pair_neutral:
  assumes "i < j" "j < length ss" and "\<forall>s \<in> set ss. length s = n"
  shows "xor_into (replicate n 0) (share_pair P secret n (i, j) ss) = xor_into (replicate n 0) ss
    \<and> length (share_pair P secret n (i, j) ss) = length ss \<and> (\<forall>s \<in> set (share_pair P secret n (i, j) ss). length s = n)"
proof -
  let ?e = "expand_share P (x_dh P (secret i) (x_public P (secret j))) n"
  let ?s1 = "ss[i := xor_bytes (ss ! i) ?e]"
  have len1: "\<forall>s \<in> set ?s1. length s = n" using assms by (intro update_lengths) simp_all
  have "length (?s1 ! j) = n" using assms(2) len1 by (simp add: nth_mem)
  then have len2: "\<forall>s \<in> set (?s1[j := xor_bytes (?s1 ! j) ?e]). length s = n"
    by (intro update_lengths [OF len1]) simp
  have "xor_into (replicate n 0) (?s1[j := xor_bytes (?s1 ! j) ?e]) = xor_bytes (xor_into (replicate n 0) ?s1) ?e"
    using assms(2) len1 by (intro xor_into_update) auto
  also have "xor_into (replicate n 0) ?s1 = xor_bytes (xor_into (replicate n 0) ss) ?e"
    using assms by (intro xor_into_update) auto
  also have "xor_bytes (xor_bytes (xor_into (replicate n 0) ss) ?e) ?e = xor_into (replicate n 0) ss"
    using assms(3) by (intro xor_bytes_cancel) (simp add: length_xor_into)
  finally show ?thesis using len2 by (simp add: share_pair_def Let_def)
qed

lemma fold_share_pair:
  assumes "\<forall>(i, j) \<in> set ps. i < j \<and> j < m" and "length ss = m" and "\<forall>s \<in> set ss. length s = n"
  shows "xor_into (replicate n 0) (fold (share_pair P secret n) ps ss) = xor_into (replicate n 0) ss
    \<and> length (fold (share_pair P secret n) ps ss) = m \<and> (\<forall>s \<in> set (fold (share_pair P secret n) ps ss). length s = n)"
  using assms
proof (induction ps arbitrary: ss)
  case (Cons ij ps)
  obtain i j where ij: "ij = (i, j)" by (cases ij)
  note step = share_pair_neutral [of i j ss n P secret]
  show ?case using Cons.IH [of "share_pair P secret n (i, j) ss"] Cons.prems step by (simp add: ij)
qed simp

lemma local_shares_cancel:
  "xor_into (replicate n 0) (local_shares P secret m n) = replicate n 0"
  "length (local_shares P secret m n) = m" "\<forall>s \<in> set (local_shares P secret m n). length s = n"
proof -
  have pairs: "\<forall>(i, j) \<in> set (all_pairs m). i < j \<and> j < m" by (auto simp: all_pairs_def)
  have zero: "xor_into (replicate n 0) (replicate m (replicate n 0)) = replicate n 0"
    by (induction m) (simp_all)
  show "xor_into (replicate n 0) (local_shares P secret m n) = replicate n 0"
    "length (local_shares P secret m n) = m" "\<forall>s \<in> set (local_shares P secret m n). length s = n"
    using fold_share_pair [OF pairs, of "replicate m (replicate n 0)" n P secret] zero
    by (simp_all add: local_shares_def)
qed

lemma extract_payload:
  assumes "str_valid text" and "length text < 2 ^ 32"
  shows "extract_text (be_bytes 4 (length text) @ str_bytes text) = text"
  using assms by (simp add: extract_text_def from_be_be_bytes)

lemma global_xor_is_payload:
  assumes "idx < m" and "length payload = n"
  shows "xor_into (replicate n 0) ((local_shares P secret m n)[idx := xor_bytes (local_shares P secret m n ! idx) payload])
    = payload"
  using assms local_shares_cancel [where n = n and m = m and P = P and secret = secret] by (subst xor_into_update) auto

text \<open>C29: A local broadcast comes out as it went in. In a channel whose group has at least two members, us
  among them, and can start a round, the masks of all members cancel whatever the ephemeral keys
  are, and the text extracted from the XOR of all broadcasts is exactly the text sent; the channel
  moves to the next round number.\<close>
theorem broadcast_delivers:
  assumes "hget (br_groups b) channel = Some g" and "hget (br_channels b) channel = Some ch"
    and "2 \<le> length (gr_participants g)" and "start_round instant (ci_round_id ch + 1) g = (g1, Some r)"
    and "uid_to_peer P (br_my_uid b) \<in> set (map peer_id (gr_participants g))"
    and "str_valid text" and "length text < 2 ^ 32"
  shows "\<exists>b'. broadcast_message P secret instant now channel text b =
      (b', Some (''[DC-Net round #'' @ show_nat (unat (ci_round_id ch + 1)) @ '' ('' @ show_nat (length (gr_participants g))
        @ '' parties)] '' @ text))
    \<and> map_option ci_round_id (hget (br_channels b') channel) = Some (ci_round_id ch + 1)"
proof -
  let ?ids = "map peer_id (gr_participants g)" and ?n = "4 + length text"
  let ?payload = "be_bytes 4 (length text) @ str_bytes text"
  obtain idx where idx: "position (uid_to_peer P (br_my_uid b)) ?ids = Some idx" using position_mem [OF assms(5)] by blast
  then have "idx < length (gr_participants g)" using position_Some by fastforce
  then have "extract_text (xor_into (replicate ?n 0) ((local_shares P secret (length (gr_participants g)) ?n)
      [idx := xor_bytes (local_shares P secret (length (gr_participants g)) ?n ! idx) ?payload])) = text"
    using extract_payload [OF assms(6,7)] by (subst global_xor_is_payload) simp_all
  then show ?thesis using assms idx
    by (simp add: broadcast_message_def Let_def sync_channels settle_broadcast_def split_beta)
qed

definition demo_bridge :: F2fDcNetBridge where
  "demo_bridge = (let f = (\<lambda>u t. F2fFriend_new toy_prims [] u ''addr'' t);
     b = (F2fDcNetBridge_new ''ann'')\<lparr> br_friends := [(''bob'', f ''bob'' 2), (''eve'', f ''eve'' 0)] \<rparr>
   in fst (join_channel_no_log ''c'' [''bob''] (fst (create_channel_no_log toy_prims ''c'' b))))"

text \<open>With the toy digest (length and sum), the three names have different peer ids.\<close>
lemma demo_peers: "uid_to_peer toy_prims ''ann'' = [3, 61] @ replicate 30 0"
  "uid_to_peer toy_prims ''bob'' = [3, 51] @ replicate 30 0" "uid_to_peer toy_prims ''eve'' = [3, 64] @ replicate 30 0"
  by (simp_all add: uid_to_peer_def sha256_def toy_prims_def arr_def str_bytes_def)

lemma demo_group:
  "gr_participants (the (hget (br_groups demo_bridge) ''c'')) =
    [Participant_new (uid_to_peer toy_prims ''ann''), Participant_new (uid_to_peer toy_prims ''bob'')]"
  "\<exists>g. hget (br_groups demo_bridge) ''c'' = Some g \<and> gr_min_participants g = 2"
  "\<exists>ch. hget (br_channels demo_bridge) ''c'' = Some ch \<and> ci_round_id ch = 0"
  "br_my_uid demo_bridge = ''ann''" "br_min_trust demo_bridge = 1" "br_reputation demo_bridge = []"
  "br_friends demo_bridge = [(''bob'', F2fFriend_new toy_prims [] ''bob'' ''addr'' 2),
     (''eve'', F2fFriend_new toy_prims [] ''eve'' ''addr'' 0)]"
  by (simp_all add: demo_bridge_def F2fDcNetBridge_new_def create_channel_no_log_def join_channel_no_log_def Let_def
      has_key_def join_def DcGroup_new_def F2fFriend_new_def demo_peers uid_to_peer_def [symmetric])

lemma new_not_malicious: "\<not> is_malicious (Participant_new p)"
  by (simp add: is_malicious_def Participant_new_def not_less f64_lit_le_one)

lemma demo_starts:
  obtains g ch g1 r where "hget (br_groups demo_bridge) ''c'' = Some g" "hget (br_channels demo_bridge) ''c'' = Some ch"
    "ci_round_id ch = 0" "start_round 7 (ci_round_id ch + 1) g = (g1, Some r)"
    "map peer_id (gr_participants g) = [uid_to_peer toy_prims ''ann'', uid_to_peer toy_prims ''bob'']"
proof -
  obtain g ch where g: "hget (br_groups demo_bridge) ''c'' = Some g" "gr_min_participants g = 2"
    and ch: "hget (br_channels demo_bridge) ''c'' = Some ch" "ci_round_id ch = 0" using demo_group(2,3) by blast
  have ps: "gr_participants g = [Participant_new (uid_to_peer toy_prims ''ann''), Participant_new (uid_to_peer toy_prims ''bob'')]"
    using demo_group(1) g by simp
  have "\<exists>g1 r. start_round 7 (ci_round_id ch + 1) g = (g1, Some r)"
    using g ps by (simp add: start_round_def Let_def new_not_malicious)
  then show ?thesis using that g ch ps by auto
qed

theorem broadcast_delivers_witness:
  "\<exists>b'. broadcast_message toy_prims (\<lambda>i. [of_nat i]) 7 9 ''c'' ''hi'' demo_bridge =
    (b', Some ''[DC-Net round #1 (2 parties)] hi'')"
proof -
  obtain g ch g1 r where run: "hget (br_groups demo_bridge) ''c'' = Some g" "hget (br_channels demo_bridge) ''c'' = Some ch"
    "ci_round_id ch = 0" "start_round 7 (ci_round_id ch + 1) g = (g1, Some r)"
    and ps: "map peer_id (gr_participants g) = [uid_to_peer toy_prims ''ann'', uid_to_peer toy_prims ''bob'']"
    by (rule demo_starts)
  have two: "length (gr_participants g) = 2" using arg_cong [OF ps, of length] by simp
  have valid: "str_valid ''hi''" by (simp add: str_valid_def str_bytes_def utf8_valid_ascii)
  have me: "uid_to_peer toy_prims (br_my_uid demo_bridge) \<in> set (map peer_id (gr_participants g))"
    by (simp only: ps demo_group(4)) simp
  from broadcast_delivers [OF run(1,2) _ run(4) me valid, of "\<lambda>i. [of_nat i]" 9] two run(3) show ?thesis
    by (auto simp: show_nat.simps char_of_def bit_0)
qed

section \<open>Trust levels after a broadcast\<close>

lemma process_round_others: "q \<notin> set all \<Longrightarrow> hget (fst (process_round now responded all pct m)) q = hget m q"
proof -
  have "hget (fst (fold (process_peer now responded pct) all st)) q = hget (fst st) q" if "q \<notin> set all" for st
    using that by (induction all arbitrary: st) (simp_all add: process_peer_hget)
  then show "q \<notin> set all \<Longrightarrow> ?thesis" by (simp add: process_round_def)
qed

lemma half_below_four_fifths: "f64_lit 5 10 < f64_lit 8 10"
proof -
  have "f64_lit 5 10 = f64_round (2 ^ 1073 * 10) 10"
    unfolding f64_lit_def f64_unit_def by (rule arg_cong2 [where f = f64_round]) simp_all
  then have half: "f64_lit 5 10 = 2 ^ 1073" using f64_round_exact [OF _ f64_rep_power, of 10 1073] by simp
  have "3 * 2 ^ 1072 = f64_round (3 * 2 ^ 1072 * 10) 10"
    using f64_round_exact [of 10 "3 * 2 ^ 1072"] f64_rep_small_mult [of 3 1072] by simp
  also have "\<dots> \<le> f64_round (8 * f64_unit) 10"
    by (rule f64_round_mono) (simp_all add: f64_unit_def)
  finally have "3 * 2 ^ 1072 \<le> f64_lit 8 10" by (simp only: f64_lit_def)
  moreover have "(2 :: nat) ^ 1073 < 3 * 2 ^ 1072" by simp
  ultimately show ?thesis unfolding half by linarith
qed

lemma trust_of_new_record: "trust_of_score (Reputation_new now pid) = 1"
  using half_below_four_fifths f64_lit_mono [of 10 3 5]
  by (simp add: trust_of_score_def rep_is_malicious_def Reputation_new_def)

text \<open>One broadcast promotes every unverified friend. A friend added with trust level 0, in no channel
  and with no record of any round, is not trusted before the broadcast and is at level 1, so trusted,
  after it: the default reputation of 0.5 is read as level 1.\<close>
theorem broadcast_promotes_unverified:
  assumes "hget (br_groups b) channel = Some g" and "hget (br_channels b) channel = Some ch"
    and "2 \<le> length (gr_participants g)" and "start_round instant (ci_round_id ch + 1) g = (g1, Some r)"
    and "uid_to_peer P (br_my_uid b) \<in> set (map peer_id (gr_participants g))"
    and "friends_ok b" and "br_min_trust b = 1"
    and f: "hget (br_friends b) u = Some f" "ff_trust_level f = 0"
    and "ff_peer_id f \<notin> set (map peer_id (gr_participants g))" and "hget (br_reputation b) (ff_peer_id f) = None"
  shows "\<not> is_trusted b u \<and> is_trusted (fst (broadcast_message P secret instant now channel text b)) u"
proof -
  let ?ids = "map peer_id (gr_participants g)"
  let ?b1 = "b\<lparr> br_groups := hput channel (fst (finish_round_with ?ids g1)) (hput channel g1 (br_groups b)),
    br_reputation := fst (process_round now ?ids ?ids 100 (br_reputation b)) \<rparr>"
  obtain idx where "position (uid_to_peer P (br_my_uid b)) ?ids = Some idx" using position_mem [OF assms(5)] by blast
  then have frs: "br_friends (fst (broadcast_message P secret instant now channel text b))
      = br_friends (fst (sync_reputation_to_trust now ?b1))"
    and mt: "br_min_trust (fst (broadcast_message P secret instant now channel text b)) = 1"
    using assms(1-4,7) by (simp_all add: broadcast_message_def settle_broadcast_def Let_def split_beta)
  have "record_of now (br_reputation ?b1) (ff_peer_id f) = Reputation_new now (ff_peer_id f)"
    using process_round_others [OF assms(10)] assms(11) by (simp add: record_of_def)
  moreover have "friends_ok ?b1" "hget (br_friends ?b1) u = Some f" using assms(6) f by (simp_all add: friends_ok_def)
  ultimately have "hget (br_friends (fst (sync_reputation_to_trust now ?b1))) u = Some (f\<lparr> ff_trust_level := 1 \<rparr>)"
    using sync_sets_trust [of ?b1 u f now] by (simp add: trust_of_new_record)
  then show ?thesis using frs mt f assms(7) by (simp add: is_trusted_def)
qed

theorem broadcast_promotes_unverified_witness:
  "\<not> is_trusted demo_bridge ''eve'' \<and>
    is_trusted (fst (broadcast_message toy_prims (\<lambda>i. [of_nat i]) 7 9 ''c'' ''hi'' demo_bridge)) ''eve''"
proof -
  obtain g ch g1 r where run: "hget (br_groups demo_bridge) ''c'' = Some g" "hget (br_channels demo_bridge) ''c'' = Some ch"
    "ci_round_id ch = 0" "start_round 7 (ci_round_id ch + 1) g = (g1, Some r)"
    and ps: "map peer_id (gr_participants g) = [uid_to_peer toy_prims ''ann'', uid_to_peer toy_prims ''bob'']"
    by (rule demo_starts)
  have two: "2 \<le> length (gr_participants g)" using arg_cong [OF ps, of length] by simp
  have me: "uid_to_peer toy_prims (br_my_uid demo_bridge) \<in> set (map peer_id (gr_participants g))"
    by (simp only: ps demo_group(4)) simp
  have eve: "hget (br_friends demo_bridge) ''eve'' = Some (F2fFriend_new toy_prims [] ''eve'' ''addr'' 0)"
    by (simp add: demo_group)
  show ?thesis
    by (rule broadcast_promotes_unverified [OF run(1,2) two run(4) me _ _ eve])
      (simp_all only: ps, simp_all add: demo_group friends_ok_def hwf_def hkeys_def F2fFriend_new_def
        uid_to_peer_def [symmetric] demo_peers)
qed

end
