(* ===== verification/Ffi.thy ===== *)
theory Ffi
  imports Broadcast
begin

text \<open>
  \<^verbatim>\<open>ffi.rs\<close> and \<^verbatim>\<open>parser.rs\<close>: the C interface. C's memory is a function from addresses to bytes, with 0 as the null
  address; buffers and strings given to C live in it, and the allocator's choice of their address is an argument, as are
  random bytes and what the log does. The application pointer is null until it is set. serde_json is a parameter. A call
  that the safety contract forbids (freeing what was not handed out) has no result. No operation behind the interface panics here, so the panic guard never acts.
\<close>

section \<open>Memory\<close>

record ffi_world =
  fw_mem :: "nat \<Rightarrow> u8"
  fw_bridge :: "F2fDcNetBridge option" \<comment> \<open>\<^const>\<open>None\<close> while \<^verbatim>\<open>APP_STATE_PTR\<close> is null\<close>
  fw_buffers :: "(nat, nat) hmap" \<comment> \<open>byte buffers handed out and not freed, with their lengths\<close>
  fw_strings :: "nat list" \<comment> \<open>C strings handed out and not freed\<close>

definition slice :: "(nat \<Rightarrow> u8) \<Rightarrow> nat \<Rightarrow> nat \<Rightarrow> bytes" where
  "slice mem p n = map (\<lambda>i. mem (p + i)) [0..<n]"

definition store :: "nat \<Rightarrow> bytes \<Rightarrow> (nat \<Rightarrow> u8) \<Rightarrow> nat \<Rightarrow> u8" where
  "store p bs mem x = (if p \<le> x \<and> x < p + length bs then bs ! (x - p) else mem x)"

text \<open>\<^verbatim>\<open>*out_len = n as u32\<close>, little end first.\<close>
definition store_u32 :: "nat \<Rightarrow> nat \<Rightarrow> (nat \<Rightarrow> u8) \<Rightarrow> nat \<Rightarrow> u8" where
  "store_u32 p n mem = store p (rev (be_bytes 4 n)) mem"

definition load_u32 :: "(nat \<Rightarrow> u8) \<Rightarrow> nat \<Rightarrow> nat" where
  "load_u32 mem p = from_be (rev (slice mem p 4))"

definition MAX_FFI_BUF :: nat where "MAX_FFI_BUF = 1048576"
definition MAX_JSON_CSTR_BYTES :: nat where "MAX_JSON_CSTR_BYTES = 65536"
definition MAX_JSON_INPUT :: nat where "MAX_JSON_INPUT = 1048576"

text \<open>\<^verbatim>\<open>ffi_set_app_state\<close>, with the bridge behind the pointer.\<close>
definition ffi_set_app_state :: "F2fDcNetBridge option \<Rightarrow> ffi_world \<Rightarrow> ffi_world" where
  "ffi_set_app_state b w = w\<lparr> fw_bridge := b \<rparr>"

definition with_bridge :: "(F2fDcNetBridge \<Rightarrow> F2fDcNetBridge \<times> 'r) \<Rightarrow> ffi_world \<Rightarrow> ffi_world \<times> 'r option" where
  "with_bridge f w = (case fw_bridge w of
     None \<Rightarrow> (w, None)
   | Some b \<Rightarrow> (let (b', r) = f b in (w\<lparr> fw_bridge := Some b' \<rparr>, Some r)))"

section \<open>Strings\<close>

text \<open>At most \<open>max\<close> bytes are looked at.\<close>
fun scan_nul :: "(nat \<Rightarrow> u8) \<Rightarrow> nat \<Rightarrow> nat \<Rightarrow> bytes option" where
  "scan_nul mem p 0 = None"
| "scan_nul mem p (Suc n) = (if mem p = 0 then Some [] else map_option ((#) (mem p)) (scan_nul mem (Suc p) n))"

definition bounded_c_str :: "(nat \<Rightarrow> u8) \<Rightarrow> nat \<Rightarrow> nat \<Rightarrow> string option" where
  "bounded_c_str mem p mx = (if p = 0 then None else
     case scan_nul mem p mx of None \<Rightarrow> None | Some bs \<Rightarrow> from_utf8 bs)"

text \<open>\<^verbatim>\<open>CStr::from_ptr\<close>: looks for the terminator without bound; \<^const>\<open>None\<close> if there is none.\<close>
partial_function (option) c_scan :: "(nat \<Rightarrow> u8) \<Rightarrow> nat \<Rightarrow> bytes option" where
  "c_scan mem p = (if mem p = 0 then Some [] else Option.bind (c_scan mem (Suc p)) (\<lambda>bs. Some (mem p # bs)))"

definition safe_c_str :: "(nat \<Rightarrow> u8) \<Rightarrow> nat \<Rightarrow> string option" where
  "safe_c_str mem p = (if p = 0 then None else case c_scan mem p of None \<Rightarrow> None | Some bs \<Rightarrow> from_utf8 bs)"

text \<open>The macro \<^verbatim>\<open>c_str!\<close>\<close>
definition c_str :: "(nat \<Rightarrow> u8) \<Rightarrow> nat \<Rightarrow> string" where
  "c_str mem p = (case safe_c_str mem p of None \<Rightarrow> [] | Some s \<Rightarrow> s)"

text \<open>\<^verbatim>\<open>CString::new(s).unwrap_or_default().into_raw()\<close> at address \<open>a\<close>: a text with a NUL in it becomes empty.\<close>
definition give_string :: "nat \<Rightarrow> string \<Rightarrow> ffi_world \<Rightarrow> ffi_world \<times> nat" where
  "give_string a s w =
     (let bs = (if 0 \<in> set (str_bytes s) then [] else str_bytes s)
      in (w\<lparr> fw_mem := store a (bs @ [0]) (fw_mem w), fw_strings := a # fw_strings w \<rparr>, a))"

definition give_bytes :: "nat \<Rightarrow> nat \<Rightarrow> bytes \<Rightarrow> ffi_world \<Rightarrow> ffi_world \<times> nat" where
  "give_bytes a out_len r w =
     (w\<lparr> fw_mem := store a r (store_u32 out_len (length r) (fw_mem w)), fw_buffers := hput a (length r) (fw_buffers w) \<rparr>, a)"

section \<open>The parser\<close>

record json_fns =
  jf_parse :: "string \<Rightarrow> string option" \<comment> \<open>the value, printed again\<close>
  jf_escape :: "string \<Rightarrow> string"
  jf_strings :: "string list \<Rightarrow> string"
  jf_pairs :: "(uid \<times> u8) list \<Rightarrow> string"
  jf_group :: "GroupStatus \<Rightarrow> string"
  jf_channel :: "string + ChannelStatus \<Rightarrow> string"
  jf_uids :: "string \<Rightarrow> string list option"

definition parse_json :: "json_fns \<Rightarrow> string \<Rightarrow> string option" where
  "parse_json F input = (if length input > MAX_JSON_INPUT then None else jf_parse F input)"

definition escape_json :: "json_fns \<Rightarrow> string \<Rightarrow> string" where
  "escape_json F input = jf_escape F input"

section \<open>Cryptography\<close>

definition rust_encrypt_e2e :: "prims \<Rightarrow> bytes \<Rightarrow> nat \<Rightarrow> nat \<Rightarrow> nat \<Rightarrow> nat \<Rightarrow> nat \<Rightarrow> ffi_world \<Rightarrow> ffi_world \<times> nat" where
  "rust_encrypt_e2e P nonce a plaintext plaintext_len key out_len w =
     (if plaintext = 0 \<or> key = 0 \<or> out_len = 0 then (w, 0)
      else if plaintext_len = 0 \<or> plaintext_len > 65536 then (w, 0)
      else case encrypt_e2e P nonce (slice (fw_mem w) plaintext plaintext_len) (slice (fw_mem w) key 32) of
        None \<Rightarrow> (w, 0)
      | Some r \<Rightarrow> give_bytes a out_len r w)"

definition rust_decrypt_e2e :: "prims \<Rightarrow> nat \<Rightarrow> nat \<Rightarrow> nat \<Rightarrow> nat \<Rightarrow> nat \<Rightarrow> ffi_world \<Rightarrow> ffi_world \<times> nat" where
  "rust_decrypt_e2e P a enc enc_len key out_len w =
     (if enc = 0 \<or> key = 0 \<or> out_len = 0 then (w, 0)
      else if enc_len = 0 \<or> enc_len > 65536 then (w, 0)
      else case decrypt_e2e P (slice (fw_mem w) enc enc_len) (slice (fw_mem w) key 32) of
        None \<Rightarrow> (w, 0)
      | Some r \<Rightarrow> give_bytes a out_len r w)"

definition rust_secure_random :: "bytes \<Rightarrow> nat \<Rightarrow> nat \<Rightarrow> ffi_world \<Rightarrow> ffi_world \<times> int" where
  "rust_secure_random rnd buf len w =
     (if buf = 0 \<or> len > MAX_FFI_BUF then (w, -1)
      else (w\<lparr> fw_mem := store buf (secure_random_bytes rnd len) (fw_mem w) \<rparr>, 0))"

definition rust_constant_time_eq :: "nat \<Rightarrow> nat \<Rightarrow> nat \<Rightarrow> nat \<Rightarrow> ffi_world \<Rightarrow> int" where
  "rust_constant_time_eq a al b bl w =
     (if a = 0 \<or> b = 0 then 0 else if constant_time_eq (slice (fw_mem w) a al) (slice (fw_mem w) b bl) then 1 else 0)"

definition rust_parse_json :: "json_fns \<Rightarrow> nat \<Rightarrow> nat \<Rightarrow> ffi_world \<Rightarrow> ffi_world \<times> nat" where
  "rust_parse_json F a i w =
     (if i = 0 then (w, 0)
      else case bounded_c_str (fw_mem w) i MAX_JSON_CSTR_BYTES of
        None \<Rightarrow> (w, 0)
      | Some s \<Rightarrow> (case parse_json F s of None \<Rightarrow> (w, 0) | Some _ \<Rightarrow> give_string a ''ok'' w))"

definition rust_escape_json :: "json_fns \<Rightarrow> nat \<Rightarrow> nat \<Rightarrow> ffi_world \<Rightarrow> ffi_world \<times> nat" where
  "rust_escape_json F a i w = (if i = 0 then (w, 0) else give_string a (escape_json F (c_str (fw_mem w) i)) w)"

definition rust_validate_utf8 :: "nat \<Rightarrow> nat \<Rightarrow> ffi_world \<Rightarrow> int" where
  "rust_validate_utf8 d l w = (if d = 0 then 0 else if utf8_valid (slice (fw_mem w) d l) then 1 else 0)"

text \<open>Freeing needs exactly what was handed out, with its length; anything else is outside the contract.\<close>
definition rust_free_bytes :: "nat \<Rightarrow> nat \<Rightarrow> ffi_world \<Rightarrow> ffi_world option" where
  "rust_free_bytes p l w = (if p = 0 then Some w
     else if hget (fw_buffers w) p = Some l then Some (w\<lparr> fw_buffers := hdel p (fw_buffers w) \<rparr>) else None)"

definition rust_free_string :: "nat \<Rightarrow> ffi_world \<Rightarrow> ffi_world option" where
  "rust_free_string p w = (if p = 0 then Some w
     else if p \<in> set (fw_strings w) then Some (w\<lparr> fw_strings := remove1 p (fw_strings w) \<rparr>) else None)"

definition rust_secure_clear :: "nat \<Rightarrow> nat \<Rightarrow> ffi_world \<Rightarrow> ffi_world" where
  "rust_secure_clear p l w = (if p \<noteq> 0 \<and> l \<le> MAX_FFI_BUF
     then w\<lparr> fw_mem := store p (secure_clear (slice (fw_mem w) p l)) (fw_mem w) \<rparr> else w)"

section \<open>The bridge\<close>

text \<open>The macro \<^verbatim>\<open>f2f_or!\<close>\<close>
definition f2f_or :: "(F2fDcNetBridge \<Rightarrow> F2fDcNetBridge \<times> 'r) \<Rightarrow> 'r \<Rightarrow> ffi_world \<Rightarrow> ffi_world \<times> 'r" where
  "f2f_or f d w = (case with_bridge f w of (w', r) \<Rightarrow> (w', case r of None \<Rightarrow> d | Some x \<Rightarrow> x))"

definition rust_f2f_init :: "nat \<Rightarrow> int" where
  "rust_f2f_init my_uid = 0"

definition rust_f2f_add_friend :: "prims \<Rightarrow> wal_json \<Rightarrow> wal_io \<Rightarrow> bytes \<Rightarrow> nat \<Rightarrow> nat \<Rightarrow> u8 \<Rightarrow> ffi_world \<Rightarrow> ffi_world \<times> int" where
  "rust_f2f_add_friend P J io rnd u addr trust w = (if u = 0 \<or> addr = 0 then (w, -1)
     else f2f_or (\<lambda>b. (add_friend P J io rnd (c_str (fw_mem w) u) (c_str (fw_mem w) addr) trust b, 0)) (-1) w)"

definition rust_f2f_remove_friend :: "wal_json \<Rightarrow> wal_io \<Rightarrow> nat \<Rightarrow> ffi_world \<Rightarrow> ffi_world \<times> int" where
  "rust_f2f_remove_friend J io u w = (if u = 0 then (w, -1)
     else f2f_or (\<lambda>b. (remove_friend J io (c_str (fw_mem w) u) b, 0)) (-1) w)"

definition rust_f2f_update_trust :: "wal_json \<Rightarrow> wal_io \<Rightarrow> nat \<Rightarrow> u8 \<Rightarrow> ffi_world \<Rightarrow> ffi_world \<times> int" where
  "rust_f2f_update_trust J io u trust w = (if u = 0 then (w, -1)
     else f2f_or (\<lambda>b. (update_trust J io (c_str (fw_mem w) u) trust b, 0)) (-1) w)"

text \<open>A call that hands a string to C, or null when there is no application state.\<close>
definition f2f_string :: "nat \<Rightarrow> (F2fDcNetBridge \<Rightarrow> F2fDcNetBridge \<times> string) \<Rightarrow> ffi_world \<Rightarrow> ffi_world \<times> nat" where
  "f2f_string a f w = (case with_bridge f w of
     (w', None) \<Rightarrow> (w', 0)
   | (w', Some s) \<Rightarrow> give_string a s w')"

definition rust_f2f_form_group :: "prims \<Rightarrow> wal_json \<Rightarrow> json_fns \<Rightarrow> wal_io \<Rightarrow> nat \<Rightarrow> ffi_world \<Rightarrow> ffi_world \<times> nat" where
  "rust_f2f_form_group P J F io a w =
     f2f_string a (\<lambda>b. let b' = fst (create_channel P J io ''#main'' b) in (b', jf_strings F (list_channels b'))) w"

definition bool_int :: "bool \<Rightarrow> int" where "bool_int b = (if b then 1 else 0)"

definition rust_f2f_is_trusted :: "nat \<Rightarrow> ffi_world \<Rightarrow> int" where
  "rust_f2f_is_trusted u w = (if u = 0 then 0
     else snd (f2f_or (\<lambda>b. (b, bool_int (is_trusted b (c_str (fw_mem w) u)))) 0 w))"

definition rust_f2f_get_trust :: "nat \<Rightarrow> ffi_world \<Rightarrow> u8" where
  "rust_f2f_get_trust u w = (if u = 0 then 0 else snd (f2f_or (\<lambda>b. (b, get_trust b (c_str (fw_mem w) u))) 0 w))"

definition rust_f2f_sync_reputation :: "json_fns \<Rightarrow> u64 \<Rightarrow> nat \<Rightarrow> ffi_world \<Rightarrow> ffi_world \<times> nat" where
  "rust_f2f_sync_reputation F now a w =
     f2f_string a (\<lambda>b. case sync_reputation_to_trust now b of (b', c) \<Rightarrow> (b', jf_pairs F c)) w"

definition rust_f2f_group_status :: "json_fns \<Rightarrow> nat \<Rightarrow> ffi_world \<Rightarrow> ffi_world \<times> nat" where
  "rust_f2f_group_status F a w =
     (case f2f_or (\<lambda>b. (b, jf_group F (group_status b)))
        (let q = [CHR 0x22] in ''{'' @ q @ ''error'' @ q @ '':'' @ q @ ''not_initialized'' @ q @ ''}'') w of
        (w', s) \<Rightarrow> give_string a s w')"

definition rust_f2f_create_channel :: "prims \<Rightarrow> wal_json \<Rightarrow> wal_io \<Rightarrow> nat \<Rightarrow> ffi_world \<Rightarrow> ffi_world \<times> int" where
  "rust_f2f_create_channel P J io name w = (if name = 0 then (w, -1)
     else f2f_or (\<lambda>b. case create_channel P J io (c_str (fw_mem w) name) b of (b', ok) \<Rightarrow> (b', bool_int ok)) (-1) w)"

definition rust_f2f_join_channel :: "wal_json \<Rightarrow> json_fns \<Rightarrow> (uid \<Rightarrow> wal_io) \<Rightarrow> nat \<Rightarrow> nat \<Rightarrow> nat \<Rightarrow> ffi_world \<Rightarrow> ffi_world \<times> nat" where
  "rust_f2f_join_channel J F ios a ch uids_json w = (if ch = 0 \<or> uids_json = 0 then (w, 0)
     else let uids = (case jf_uids F (c_str (fw_mem w) uids_json) of None \<Rightarrow> [] | Some us \<Rightarrow> us)
          in f2f_string a (\<lambda>b. case join_channel J ios (c_str (fw_mem w) ch) uids b of (b', j) \<Rightarrow> (b', jf_strings F j)) w)"

definition rust_f2f_leave_channel :: "prims \<Rightarrow> wal_json \<Rightarrow> wal_io \<Rightarrow> nat \<Rightarrow> ffi_world \<Rightarrow> ffi_world \<times> int" where
  "rust_f2f_leave_channel P J io name w = (if name = 0 then (w, -1)
     else f2f_or (\<lambda>b. (leave_channel P J io (c_str (fw_mem w) name) b, 0)) (-1) w)"

definition rust_f2f_list_channels :: "json_fns \<Rightarrow> nat \<Rightarrow> ffi_world \<Rightarrow> ffi_world \<times> nat" where
  "rust_f2f_list_channels F a w =
     (case f2f_or (\<lambda>b. (b, list_channels b)) [] w of (w', cs) \<Rightarrow> give_string a (jf_strings F cs) w')"

definition rust_f2f_channel_status :: "json_fns \<Rightarrow> nat \<Rightarrow> nat \<Rightarrow> ffi_world \<Rightarrow> ffi_world \<times> nat" where
  "rust_f2f_channel_status F a name w = (if name = 0 then (w, 0)
     else f2f_string a (\<lambda>b. (b, jf_channel F (channel_status b (c_str (fw_mem w) name)))) w)"

definition rust_f2f_switch_channel :: "nat \<Rightarrow> ffi_world \<Rightarrow> ffi_world \<times> int" where
  "rust_f2f_switch_channel name w = (if name = 0 then (w, -1)
     else f2f_or (\<lambda>b. case switch_channel (c_str (fw_mem w) name) b of (b', ok) \<Rightarrow> (b', bool_int ok)) (-1) w)"

section \<open>Memory facts\<close>

text \<open>Two regions of memory do not meet.\<close>
definition apart :: "nat \<times> nat \<Rightarrow> nat \<times> nat \<Rightarrow> bool" where
  "apart a b \<longleftrightarrow> fst a + snd a \<le> fst b \<or> fst b + snd b \<le> fst a"

lemma length_slice [simp]: "length (slice mem p n) = n"
  by (simp add: slice_def)

lemma slice_store [simp]: "slice (store p bs mem) p (length bs) = bs"
  by (rule nth_equalityI) (simp_all add: slice_def store_def)

lemma slice_store_apart: "apart (p, length bs) (q, n) \<Longrightarrow> slice (store p bs mem) q n = slice mem q n"
  by (auto simp: slice_def store_def apart_def)

lemma load_store_u32: "n < 2 ^ 32 \<Longrightarrow> load_u32 (store_u32 p n mem) p = n"
proof -
  assume n: "n < 2 ^ 32"
  have "slice (store_u32 p n mem) p 4 = rev (be_bytes 4 n)"
    using slice_store [of p "rev (be_bytes 4 n)" mem] by (simp add: store_u32_def)
  then show ?thesis using n by (simp add: load_u32_def from_be_be_bytes)
qed

lemma slice_store_u32_apart: "apart (p, 4) (q, n) \<Longrightarrow> slice (store_u32 p m mem) q n = slice mem q n"
  by (simp add: store_u32_def slice_store_apart)

lemma give_bytes_effect:
  assumes "give_bytes a out_len r w = (w', p)" and "apart (a, length r) (out_len, 4)" and "length r < 2 ^ 32"
  shows "p = a" "slice (fw_mem w') a (length r) = r" "load_u32 (fw_mem w') out_len = length r"
    "fw_buffers w' = hput a (length r) (fw_buffers w)"
    "apart (a, length r) (q, n) \<Longrightarrow> apart (out_len, 4) (q, n) \<Longrightarrow> slice (fw_mem w') q n = slice (fw_mem w) q n"
proof -
  have w': "w' = w\<lparr> fw_mem := store a r (store_u32 out_len (length r) (fw_mem w)), fw_buffers := hput a (length r) (fw_buffers w) \<rparr>"
    and p: "p = a" using assms(1) by (auto simp: give_bytes_def)
  show "p = a" by (rule p)
  show "slice (fw_mem w') a (length r) = r" "fw_buffers w' = hput a (length r) (fw_buffers w)" by (simp_all add: w')
  have "slice (fw_mem w') out_len 4 = slice (store_u32 out_len (length r) (fw_mem w)) out_len 4"
    using assms(2) by (simp add: w' slice_store_apart)
  then show "load_u32 (fw_mem w') out_len = length r" using load_store_u32 [OF assms(3)] by (simp add: load_u32_def)
  show "slice (fw_mem w') q n = slice (fw_mem w) q n" if "apart (a, length r) (q, n)" "apart (out_len, 4) (q, n)"
    using that by (simp add: w' slice_store_apart slice_store_u32_apart)
qed

section \<open>Properties\<close>

text \<open>C40: A message survives the C interface. C encrypts a buffer of up to 65508 bytes, hands the result and
  the reported length back for decryption with the same key, and gets a buffer with exactly the bytes it
  started from; both buffers can be freed with their reported lengths, which leaves nothing allocated.
  The allocator must give non-null buffers apart from the memory in use.\<close>
theorem ffi_encrypt_decrypt:
  assumes law: "aead_law P" and nonce: "length nonce = 12"
    and args: "pt \<noteq> 0" "key \<noteq> 0" "o1 \<noteq> 0" "o2 \<noteq> 0" "0 < n" "n \<le> 65508"
    and enc: "encrypt_e2e P nonce (slice (fw_mem w) pt n) (slice (fw_mem w) key 32) = Some c"
    and first: "a1 \<noteq> 0" "apart (a1, n + 28) (key, 32)" "apart (a1, n + 28) (o1, 4)" "apart (o1, 4) (key, 32)"
    and second: "a2 \<noteq> 0" "a2 \<noteq> a1" "apart (a2, n) (o2, 4)"
    and none: "fw_buffers w = []"
  shows "\<exists>w1 w2 w3 w4. rust_encrypt_e2e P nonce a1 pt n key o1 w = (w1, a1)
    \<and> rust_decrypt_e2e P a2 a1 (load_u32 (fw_mem w1) o1) key o2 w1 = (w2, a2)
    \<and> slice (fw_mem w2) a2 (load_u32 (fw_mem w2) o2) = slice (fw_mem w) pt n
    \<and> rust_free_bytes a1 (n + 28) w2 = Some w3 \<and> rust_free_bytes a2 n w3 = Some w4 \<and> fw_buffers w4 = []"
proof -
  let ?p = "slice (fw_mem w) pt n" and ?k = "slice (fw_mem w) key 32"
  have len: "length c = n + 28" using length_encrypt_e2e [OF law nonce enc] by simp
  have dec: "decrypt_e2e P c ?k = Some ?p" by (rule decrypt_encrypt_e2e [OF law nonce enc])
  obtain w1 where g1: "give_bytes a1 o1 c w = (w1, a1)" by (simp add: give_bytes_def)
  have e1: "rust_encrypt_e2e P nonce a1 pt n key o1 w = (w1, a1)" using args enc g1 by (simp add: rust_encrypt_e2e_def)
  have apart1: "apart (a1, length c) (o1, 4)" "length c < 2 ^ 32" using first(3) args(6) len by simp_all
  note eff1 = give_bytes_effect [OF g1 apart1]
  have key1: "slice (fw_mem w1) key 32 = ?k" using eff1(5) first(2,4) len by simp
  obtain w2 where g2: "give_bytes a2 o2 ?p w1 = (w2, a2)" by (simp add: give_bytes_def)
  have d: "rust_decrypt_e2e P a2 a1 (load_u32 (fw_mem w1) o1) key o2 w1 = (w2, a2)"
    using args first(1) dec key1 eff1(2,3) len g2 by (simp add: rust_decrypt_e2e_def)
  have "apart (a2, length ?p) (o2, 4)" "length ?p < 2 ^ 32" using second(3) args(6) by simp_all
  note eff2 = give_bytes_effect [OF g2 this]
  have "slice (fw_mem w2) a2 (load_u32 (fw_mem w2) o2) = ?p" using eff2(2,3) by simp
  moreover have "fw_buffers w2 = hput a2 n (hput a1 (n + 28) [])" using eff1(4) eff2(4) none len by simp
  then have "\<exists>w3 w4. rust_free_bytes a1 (n + 28) w2 = Some w3 \<and> rust_free_bytes a2 n w3 = Some w4 \<and> fw_buffers w4 = []"
    using first(1) second(1,2) by (simp add: rust_free_bytes_def)
  ultimately show ?thesis using e1 d by blast
qed

theorem ffi_encrypt_decrypt_witness:
  "\<exists>w1 w2. rust_encrypt_e2e toy_prims (replicate 12 1) 1000 10 3 20 60
      \<lparr> fw_mem = (\<lambda>x. of_nat x), fw_bridge = None, fw_buffers = [], fw_strings = [] \<rparr> = (w1, 1000)
    \<and> rust_decrypt_e2e toy_prims 2000 1000 (load_u32 (fw_mem w1) 60) 20 70 w1 = (w2, 2000)
    \<and> slice (fw_mem w2) 2000 (load_u32 (fw_mem w2) 70) = [10, 11, 12]"
proof -
  let ?w = "\<lparr> fw_mem = (\<lambda>x. of_nat x), fw_bridge = None, fw_buffers = [], fw_strings = [] \<rparr> :: ffi_world"
  have "\<exists>c. encrypt_e2e toy_prims (replicate 12 1) (slice (fw_mem ?w) 10 3) (slice (fw_mem ?w) 20 32) = Some c"
    by (simp add: encrypt_e2e_def toy_prims_def)
  then obtain c where c: "encrypt_e2e toy_prims (replicate 12 1) (slice (fw_mem ?w) 10 3) (slice (fw_mem ?w) 20 32) = Some c" by blast
  have "slice (fw_mem ?w) 10 3 = [10, 11, 12]" by (simp add: slice_def upt_rec)
  with ffi_encrypt_decrypt [OF toy_aead _ _ _ _ _ _ _ c, of 60 70 1000 2000] show ?thesis by (simp add: apart_def) blast
qed

text \<open>What encrypts may not decrypt. A message of 65509 to 65536 bytes is accepted for encryption, but
  its ciphertext is longer than the decryption function takes, which returns null.\<close>
theorem ffi_large_message_stuck:
  assumes law: "aead_law P" and nonce: "length nonce = 12"
    and args: "pt \<noteq> 0" "key \<noteq> 0" "o1 \<noteq> 0" "65508 < n" "n \<le> 65536"
    and enc: "encrypt_e2e P nonce (slice (fw_mem w) pt n) (slice (fw_mem w) key 32) = Some c"
    and first: "apart (a1, n + 28) (o1, 4)"
  shows "\<exists>w1. rust_encrypt_e2e P nonce a1 pt n key o1 w = (w1, a1)
    \<and> rust_decrypt_e2e P a2 a1 (load_u32 (fw_mem w1) o1) key o2 w1 = (w1, 0)"
proof -
  have len: "length c = n + 28" using length_encrypt_e2e [OF law nonce enc] by simp
  obtain w1 where g1: "give_bytes a1 o1 c w = (w1, a1)" by (simp add: give_bytes_def)
  have "rust_encrypt_e2e P nonce a1 pt n key o1 w = (w1, a1)" using args enc g1 by (simp add: rust_encrypt_e2e_def)
  moreover have "apart (a1, length c) (o1, 4)" "length c < 2 ^ 32" using first args(5) len by simp_all
  from give_bytes_effect(3) [OF g1 this] have "load_u32 (fw_mem w1) o1 > 65536" using args(4) len by simp
  then have "rust_decrypt_e2e P a2 a1 (load_u32 (fw_mem w1) o1) key o2 w1 = (w1, 0)" by (simp add: rust_decrypt_e2e_def)
  ultimately show ?thesis by blast
qed

theorem ffi_large_message_stuck_witness:
  "\<exists>w1. rust_encrypt_e2e toy_prims (replicate 12 1) 1000000 10 65536 20 100000
      \<lparr> fw_mem = (\<lambda>x. of_nat x), fw_bridge = None, fw_buffers = [], fw_strings = [] \<rparr> = (w1, 1000000)
    \<and> rust_decrypt_e2e toy_prims 2000000 1000000 (load_u32 (fw_mem w1) 100000) 20 100004 w1 = (w1, 0)"
proof -
  let ?w = "\<lparr> fw_mem = (\<lambda>x. of_nat x), fw_bridge = None, fw_buffers = [], fw_strings = [] \<rparr> :: ffi_world"
  have "\<exists>c. encrypt_e2e toy_prims (replicate 12 1) p k = Some c" for p k by (simp add: encrypt_e2e_def toy_prims_def)
  then obtain c where c: "encrypt_e2e toy_prims (replicate 12 1) (slice (fw_mem ?w) 10 65536) (slice (fw_mem ?w) 20 32) = Some c" by blast
  show ?thesis by (rule ffi_large_message_stuck [OF toy_aead _ _ _ _ _ _ c]) (simp_all add: apart_def)
qed

text \<open>Parsing never looks past the limit: the result depends on the first 64 KiB only.\<close>
lemma scan_nul_bounded: "(\<And>i. i < n \<Longrightarrow> mem (p + i) = mem' (p + i)) \<Longrightarrow> scan_nul mem p n = scan_nul mem' p n"
proof (induction n arbitrary: p)
  case (Suc n)
  have "mem p = mem' p" using Suc.prems [of 0] by simp
  moreover have "scan_nul mem (Suc p) n = scan_nul mem' (Suc p) n" using Suc.prems [of "Suc _"] by (intro Suc.IH) simp
  ultimately show ?case by simp
qed simp

theorem parse_json_bounded_read:
  assumes "\<And>x. i \<le> x \<Longrightarrow> x < i + 65536 \<Longrightarrow> fw_mem w x = mem' x"
  shows "snd (rust_parse_json F a i w) = snd (rust_parse_json F a i (w\<lparr> fw_mem := mem' \<rparr>))"
proof -
  have "scan_nul (fw_mem w) i 65536 = scan_nul mem' i 65536" by (rule scan_nul_bounded) (simp add: assms)
  then show ?thesis
    by (simp add: rust_parse_json_def bounded_c_str_def MAX_JSON_CSTR_BYTES_def give_string_def Let_def split: option.split)
qed

section \<open>Strings cross the interface\<close>

lemma slice_Suc: "slice mem p (Suc n) = mem p # slice mem (Suc p) n"
  by (simp add: slice_def upt_conv_Cons map_Suc_upt [symmetric] del: upt_Suc)

text \<open>The search without bound returns where there is a terminator, with the bytes before the first one.\<close>
lemma c_scan_returns: "mem (p + n) = 0 \<Longrightarrow> \<forall>i < n. mem (p + i) \<noteq> 0 \<Longrightarrow> c_scan mem p = Some (slice mem p n)"
proof (induction n arbitrary: p)
  case 0
  then show ?case by (simp add: c_scan.simps slice_def)
next
  case (Suc n)
  have "mem p \<noteq> 0" using Suc.prems(2) by force
  moreover have "c_scan mem (Suc p) = Some (slice mem (Suc p) n)" using Suc.prems by (intro Suc.IH) auto
  ultimately show ?case by (simp add: c_scan.simps [of mem p] slice_Suc)
qed

theorem c_scan_terminated: "(\<exists>n. mem (p + n) = 0) \<Longrightarrow> \<exists>n. c_scan mem p = Some (slice mem p n) \<and> mem (p + n) = 0"
proof -
  assume "\<exists>n. mem (p + n) = 0"
  then have least: "mem (p + (LEAST n. mem (p + n) = 0)) = 0" by (rule LeastI_ex)
  moreover have "\<forall>i < (LEAST n. mem (p + n) = 0). mem (p + i) \<noteq> 0" using not_less_Least by blast
  ultimately have "c_scan mem p = Some (slice mem p (LEAST n. mem (p + n) = 0))" by (rule c_scan_returns)
  with least show ?thesis by blast
qed

text \<open>The bounded search finds what the other finds, when it finds anything.\<close>
theorem scan_nul_c_scan: "scan_nul mem p n = Some bs \<Longrightarrow> c_scan mem p = Some bs"
proof (induction mem p n arbitrary: bs rule: scan_nul.induct)
  case (2 mem p n)
  then show ?case by (auto simp: c_scan.simps [of mem p] split: if_splits)
qed simp

text \<open>A text that Rust hands to C is read back unchanged when C passes it in again, unless it has a NUL in it;
  then C gets the empty string.\<close>
theorem string_roundtrip:
  assumes "give_string a s w = (w', p)" and "a \<noteq> 0" and "str_valid s"
  shows "c_str (fw_mem w') p = (if 0 \<in> set (str_bytes s) then [] else s)"
proof -
  define bs where "bs = (if 0 \<in> set (str_bytes s) then [] else str_bytes s)"
  have w': "fw_mem w' = store a (bs @ [0]) (fw_mem w)" and p: "p = a"
    using assms(1) by (auto simp: give_string_def bs_def Let_def)
  have "slice (fw_mem w') a (length bs) = take (length bs) (slice (fw_mem w') a (length (bs @ [0])))"
    by (simp add: slice_def take_map)
  then have given: "slice (fw_mem w') a (length bs) = bs" by (simp only: w' slice_store) simp
  have "0 \<notin> set bs" by (simp add: bs_def)
  then have "\<forall>i < length bs. fw_mem w' (a + i) \<noteq> 0"
    by (auto simp: w' store_def nth_append in_set_conv_nth)
  moreover have "fw_mem w' (a + length bs) = 0" by (simp add: w' store_def)
  ultimately have "c_scan (fw_mem w') a = Some bs" using c_scan_returns given by simp
  moreover have "from_utf8 bs = Some (if 0 \<in> set (str_bytes s) then [] else s)"
    using assms(3) by (auto simp: bs_def from_utf8_def str_valid_def utf8_valid.simps [of "[]"] bytes_str_def [of "[]"])
  ultimately show ?thesis using assms(2) by (simp add: c_str_def safe_c_str_def p)
qed

end
