(* ===== verification/Services.thy ===== *)
theory Services
  imports Prelude
begin

text \<open>
  \<^verbatim>\<open>service.rs\<close>: services inside a friend-to-friend network and their local proxy ports. The UUID and
  the clock of \<^verbatim>\<open>create_service\<close> are arguments; a \<^verbatim>\<open>Result\<close>-returning method gives the state it leaves
  together with its result.
\<close>

section \<open>Data\<close>

datatype ServiceStatus = SvPending | SvActive | SvRejected | SvClosed

record F2fService =
  sv_id :: string
  sv_name :: string
  sv_owner_uid :: uid
  sv_network_name :: string
  sv_owner_port :: u16
  sv_status :: ServiceStatus
  sv_created :: u64

record ProxyConfig =
  px_target_uid :: uid
  px_target_port :: u16
  px_allowed_clients :: "uid list"
  px_allow_all_members :: bool

record ServiceManager =
  sm_services :: "(string, F2fService) hmap"
  sm_proxies :: "(u16, ProxyConfig) hmap"
  sm_next_port :: u16

datatype service_error = NoSuchService | NotPending | NotOwner | NoProxy

section \<open>Operations\<close>

definition ServiceManager_new :: ServiceManager where
  "ServiceManager_new = \<lparr> sm_services = [], sm_proxies = [], sm_next_port = 18080 \<rparr>"

definition create_service ::
  "string \<Rightarrow> u64 \<Rightarrow> string \<Rightarrow> uid \<Rightarrow> string \<Rightarrow> u16 \<Rightarrow> ServiceManager \<Rightarrow> ServiceManager \<times> F2fService" where
  "create_service uuid now name owner_uid network_name owner_port m =
     (let service = \<lparr> sv_id = uuid, sv_name = name, sv_owner_uid = owner_uid, sv_network_name = network_name,
        sv_owner_port = owner_port, sv_status = SvPending, sv_created = now \<rparr>
      in (m\<lparr> sm_services := hput uuid service (sm_services m) \<rparr>, service))"

definition accept_service ::
  "string \<Rightarrow> ServiceManager \<Rightarrow> ServiceManager \<times> (service_error + (u16 \<times> ProxyConfig))" where
  "accept_service service_id m = (case hget (sm_services m) service_id of
     None \<Rightarrow> (m, Inl NoSuchService)
   | Some service \<Rightarrow>
       if sv_status service \<noteq> SvPending then (m, Inl NotPending)
       else let local_port = sm_next_port m;
                config = \<lparr> px_target_uid = sv_owner_uid service, px_target_port = sv_owner_port service,
                  px_allowed_clients = [], px_allow_all_members = True \<rparr>
            in (m\<lparr> sm_services := hput service_id (service\<lparr> sv_status := SvActive \<rparr>) (sm_services m),
                   sm_next_port := local_port + 1,
                   sm_proxies := hput local_port config (sm_proxies m) \<rparr>,
                Inr (local_port, config)))"

definition reject_service :: "string \<Rightarrow> ServiceManager \<Rightarrow> ServiceManager \<times> (service_error + unit)" where
  "reject_service service_id m = (case hget (sm_services m) service_id of
     None \<Rightarrow> (m, Inl NoSuchService)
   | Some service \<Rightarrow>
       (m\<lparr> sm_services := hput service_id (service\<lparr> sv_status := SvRejected \<rparr>) (sm_services m) \<rparr>, Inr ()))"

definition close_service :: "string \<Rightarrow> uid \<Rightarrow> ServiceManager \<Rightarrow> ServiceManager \<times> (service_error + unit)" where
  "close_service service_id requester m = (case hget (sm_services m) service_id of
     None \<Rightarrow> (m, Inl NoSuchService)
   | Some service \<Rightarrow>
       if sv_owner_uid service \<noteq> requester then (m, Inl NotOwner)
       else (m\<lparr> sm_services := hput service_id (service\<lparr> sv_status := SvClosed \<rparr>) (sm_services m),
                sm_proxies := filter (\<lambda>(_, cfg). px_target_uid cfg \<noteq> sv_owner_uid service) (sm_proxies m) \<rparr>,
             Inr ()))"

text \<open>The proxy \<^verbatim>\<open>values_mut().find(..)\<close> yields: its port and configuration.\<close>
definition proxy_of :: "string \<Rightarrow> ServiceManager \<Rightarrow> (u16 \<times> ProxyConfig) option" where
  "proxy_of service_name m = find (\<lambda>(_, p). \<exists>s \<in> set (hvalues (sm_services m)).
     sv_name s = service_name \<and> sv_owner_uid s = px_target_uid p) (sm_proxies m)"

definition allow_client :: "string \<Rightarrow> uid \<Rightarrow> ServiceManager \<Rightarrow> ServiceManager \<times> (service_error + unit)" where
  "allow_client service_name u m = (case proxy_of service_name m of
     None \<Rightarrow> (m, Inl NoProxy)
   | Some (port, p) \<Rightarrow>
       (m\<lparr> sm_proxies := hput port (p\<lparr> px_allow_all_members := False,
          px_allowed_clients := (if u \<in> set (px_allowed_clients p) then px_allowed_clients p
            else px_allowed_clients p @ [u]) \<rparr>) (sm_proxies m) \<rparr>, Inr ()))"

definition deny_client :: "string \<Rightarrow> uid \<Rightarrow> ServiceManager \<Rightarrow> ServiceManager \<times> (service_error + unit)" where
  "deny_client service_name u m = (case proxy_of service_name m of
     None \<Rightarrow> (m, Inl NoProxy)
   | Some (port, p) \<Rightarrow>
       (m\<lparr> sm_proxies := hput port (p\<lparr> px_allowed_clients := filter (\<lambda>c. c \<noteq> u) (px_allowed_clients p) \<rparr>)
          (sm_proxies m) \<rparr>, Inr ()))"

definition can_access :: "uid \<Rightarrow> u16 \<Rightarrow> ServiceManager \<Rightarrow> bool" where
  "can_access u local_port m = (case hget (sm_proxies m) local_port of
     Some cfg \<Rightarrow> px_allow_all_members cfg \<or> u \<in> set (px_allowed_clients cfg)
   | None \<Rightarrow> False)"

definition list_services :: "ServiceManager \<Rightarrow> F2fService list" where
  "list_services m = filter (\<lambda>s. sv_status s = SvActive) (hvalues (sm_services m))"

definition list_pending :: "ServiceManager \<Rightarrow> F2fService list" where
  "list_pending m = filter (\<lambda>s. sv_status s = SvPending) (hvalues (sm_services m))"

definition active_count :: "ServiceManager \<Rightarrow> nat" where
  "active_count m = length (list_services m)"

definition pending_count :: "ServiceManager \<Rightarrow> nat" where
  "pending_count m = length (list_pending m)"

definition proxy_count :: "ServiceManager \<Rightarrow> nat" where
  "proxy_count m = length (sm_proxies m)"

section \<open>Every open port belongs to an approved service\<close>

datatype service_op =
    OpCreate string u64 string uid string u16
  | OpAccept string
  | OpReject string
  | OpClose string uid
  | OpAllow string uid
  | OpDeny string uid

text \<open>One call; \<^verbatim>\<open>Uuid::new_v4\<close> never repeats an identifier in use.\<close>
fun service_step :: "service_op \<Rightarrow> ServiceManager \<Rightarrow> ServiceManager" where
  "service_step (OpCreate uuid now n owner net port) m =
     (if has_key (sm_services m) uuid then m else fst (create_service uuid now n owner net port m))"
| "service_step (OpAccept i) m = fst (accept_service i m)"
| "service_step (OpReject i) m = fst (reject_service i m)"
| "service_step (OpClose i u) m = fst (close_service i u m)"
| "service_step (OpAllow n u) m = fst (allow_client n u m)"
| "service_step (OpDeny n u) m = fst (deny_client n u m)"

definition backed :: "ServiceManager \<Rightarrow> ProxyConfig \<Rightarrow> bool" where
  "backed m cfg \<longleftrightarrow> (\<exists>i s. hget (sm_services m) i = Some s \<and> sv_owner_uid s = px_target_uid cfg
     \<and> sv_owner_port s = px_target_port cfg \<and> sv_status s \<in> {SvActive, SvRejected})"

definition services_inv :: "ServiceManager \<Rightarrow> bool" where
  "services_inv m \<longleftrightarrow> hwf (sm_services m) \<and> hwf (sm_proxies m)
     \<and> (\<forall>port cfg. hget (sm_proxies m) port = Some cfg \<longrightarrow> backed m cfg)"

lemma backed_put:
  assumes "backed m cfg" and "hget (sm_services m) i = Some s"
    and "sv_owner_uid s' = sv_owner_uid s" "sv_owner_port s' = sv_owner_port s"
    and "sv_status s \<in> {SvActive, SvRejected} \<Longrightarrow> px_target_uid cfg = sv_owner_uid s \<Longrightarrow> sv_status s' \<in> {SvActive, SvRejected}"
  shows "backed (m\<lparr> sm_services := hput i s' (sm_services m) \<rparr>) cfg"
proof -
  obtain j t where t: "hget (sm_services m) j = Some t" "sv_owner_uid t = px_target_uid cfg"
    "sv_owner_port t = px_target_port cfg" "sv_status t \<in> {SvActive, SvRejected}"
    using assms(1) by (auto simp: backed_def)
  show ?thesis
  proof (cases "j = i")
    case True
    then have "t = s" using t(1) assms(2) by simp
    then show ?thesis unfolding backed_def using t assms(3-5) True by (intro exI [of _ i] exI [of _ s']) simp
  next
    case False
    then show ?thesis unfolding backed_def using t by (intro exI [of _ j] exI [of _ t]) simp
  qed
qed

lemma backed_proxies [simp]: "backed (m\<lparr> sm_proxies := ps \<rparr>) cfg = backed m cfg"
  "backed (m\<lparr> sm_next_port := n \<rparr>) cfg = backed m cfg"
  by (simp_all add: backed_def)

lemma create_inv:
  assumes "services_inv m" and "\<not> has_key (sm_services m) uuid"
  shows "services_inv (fst (create_service uuid now n owner net port m))"
proof -
  have "backed (fst (create_service uuid now n owner net port m)) cfg" if b: "backed m cfg" for cfg
  proof -
    obtain j t where "hget (sm_services m) j = Some t" "sv_owner_uid t = px_target_uid cfg"
      "sv_owner_port t = px_target_port cfg" "sv_status t \<in> {SvActive, SvRejected}"
      using b by (auto simp: backed_def)
    then show ?thesis using assms(2) unfolding backed_def
      by (intro exI [of _ j] exI [of _ t]) (auto simp: create_service_def has_key_def Let_def)
  qed
  then show ?thesis using assms by (simp add: services_inv_def create_service_def Let_def)
qed

lemma accept_inv: "services_inv m \<Longrightarrow> services_inv (fst (accept_service i m))"
proof (cases "\<exists>s. hget (sm_services m) i = Some s \<and> sv_status s = SvPending")
  case True
  assume inv: "services_inv m"
  obtain s where s: "hget (sm_services m) i = Some s" "sv_status s = SvPending" using True by blast
  let ?s = "s\<lparr> sv_status := SvActive \<rparr>"
  let ?m = "m\<lparr> sm_services := hput i ?s (sm_services m) \<rparr>"
  have old: "backed ?m cfg" if "backed m cfg" for cfg
    by (rule backed_put [OF that s(1)]) simp_all
  have new: "backed ?m cfg" if "px_target_uid cfg = sv_owner_uid s" "px_target_port cfg = sv_owner_port s" for cfg
    unfolding backed_def by (intro exI [of _ i] exI [of _ ?s]) (simp add: that)
  have "fst (accept_service i m) = ?m\<lparr> sm_next_port := sm_next_port m + 1, sm_proxies := sm_proxies (fst (accept_service i m)) \<rparr>"
    using s by (simp add: accept_service_def Let_def)
  then have "backed (fst (accept_service i m)) cfg = backed ?m cfg" for cfg by (metis backed_proxies)
  then show ?thesis using inv s old new by (auto simp: services_inv_def accept_service_def Let_def)
qed (auto simp: accept_service_def split: option.split)

lemma reject_inv: "services_inv m \<Longrightarrow> services_inv (fst (reject_service i m))"
  by (auto simp: services_inv_def reject_service_def split: option.split intro: backed_put)

lemma close_inv: "services_inv m \<Longrightarrow> services_inv (fst (close_service i u m))"
proof (cases "hget (sm_services m) i")
  case (Some s)
  assume inv: "services_inv m"
  let ?m = "m\<lparr> sm_services := hput i (s\<lparr> sv_status := SvClosed \<rparr>) (sm_services m) \<rparr>"
  have "backed ?m cfg" if "backed m cfg" "px_target_uid cfg \<noteq> sv_owner_uid s" for cfg
    by (rule backed_put [OF that(1) Some]) (simp_all add: that(2))
  then show ?thesis using inv Some
    by (auto simp: services_inv_def close_service_def hget_filter_key split: option.splits if_splits)
qed (simp add: close_service_def)

lemma nth_mem_eq: "i < length xs \<Longrightarrow> xs ! i = x \<Longrightarrow> x \<in> set xs"
  by auto

lemma proxy_of_Some: "hwf (sm_proxies m) \<Longrightarrow> proxy_of n m = Some (port, p) \<Longrightarrow> hget (sm_proxies m) port = Some p"
  by (auto simp: proxy_of_def find_Some_iff hget_eq_Some_iff intro: nth_mem_eq)

lemma retarget_inv:
  assumes "services_inv m" and "proxy_of n m = Some (port, p)"
    and "px_target_uid p' = px_target_uid p" "px_target_port p' = px_target_port p"
  shows "services_inv (m\<lparr> sm_proxies := hput port p' (sm_proxies m) \<rparr>)"
proof -
  have "hget (sm_proxies m) port = Some p" using assms(1,2) by (intro proxy_of_Some) (simp_all add: services_inv_def)
  then have "backed m p" using assms(1) by (auto simp: services_inv_def)
  then have "backed m p'" using assms(3,4) by (simp add: backed_def)
  then show ?thesis using assms(1) by (auto simp: services_inv_def)
qed

lemma allow_inv: "services_inv m \<Longrightarrow> services_inv (fst (allow_client n u m))"
  by (auto simp: allow_client_def split: option.split intro: retarget_inv)

lemma deny_inv: "services_inv m \<Longrightarrow> services_inv (fst (deny_client n u m))"
  by (auto simp: deny_client_def split: option.split intro: retarget_inv)

interpretation services: op_system service_step services_inv
proof unfold_locales
  fix m op
  assume "services_inv m"
  then show "services_inv (service_step op m)"
    by (cases op) (simp_all add: create_inv accept_inv reject_inv close_inv allow_inv deny_inv)
qed


text \<open>Closing a service shuts its owner's ports, and only the owner can do it. After the owner closes
  the service no port forwards to the owner any more, while ports of other owners keep their
  configuration; anybody else gets an error and changes nothing.\<close>
theorem close_service_revokes:
  assumes "services_inv m" and "hget (sm_services m) i = Some s"
  shows "if sv_owner_uid s = requester
    then let m' = fst (close_service i requester m) in
      map_option sv_status (hget (sm_services m') i) = Some SvClosed
      \<and> (\<forall>port. hget (sm_proxies m') port = (case hget (sm_proxies m) port of None \<Rightarrow> None
          | Some cfg \<Rightarrow> if px_target_uid cfg = requester then None else Some cfg))
    else close_service i requester m = (m, Inl NotOwner)"
  using assms by (auto simp: close_service_def services_inv_def hget_filter_key split: option.split)

definition demo_services :: ServiceManager where
  "demo_services = fold service_step [OpCreate ''s1'' 5 ''bbs'' ''ann'' ''net'' 80, OpAccept ''s1'',
     OpCreate ''s2'' 6 ''files'' ''bob'' ''net'' 81, OpAccept ''s2''] ServiceManager_new"

lemmas service_defs = create_service_def accept_service_def reject_service_def close_service_def
  allow_client_def deny_client_def proxy_of_def can_access_def ServiceManager_new_def has_key_def hvalues_def Let_def

theorem close_service_revokes_witness:
  "\<exists>s. services_inv demo_services \<and> hget (sm_services demo_services) ''s1'' = Some s \<and>
    hget (sm_proxies (fst (close_service ''s1'' ''ann'' demo_services))) 18080 = None"
proof -
  have inv: "services_inv demo_services" unfolding demo_services_def
    by (rule services.run_inv) (simp add: services_inv_def ServiceManager_new_def)
  obtain s where s: "hget (sm_services demo_services) ''s1'' = Some s" "sv_owner_uid s = ''ann''"
    by (simp add: demo_services_def service_defs)
  have "\<exists>cfg. hget (sm_proxies demo_services) 18080 = Some cfg \<and> px_target_uid cfg = ''ann''"
    by (simp add: demo_services_def service_defs)
  with close_service_revokes [OF inv s(1), of "''ann''"] inv s show ?thesis by (auto simp: Let_def)
qed

text \<open>Rejecting a service that is already active leaves its port open to everyone.\<close>
theorem rejected_service_still_open:
  assumes "hget (sm_services m) i = Some s" and "sv_status s = SvPending"
  shows "case accept_service i m of (m1, Inr (port, cfg)) \<Rightarrow>
      (case reject_service i m1 of (m2, r) \<Rightarrow> r = Inr () \<and> can_access u port m2
        \<and> map_option sv_status (hget (sm_services m2) i) = Some SvRejected)
    | _ \<Rightarrow> False"
  using assms by (simp add: accept_service_def reject_service_def can_access_def Let_def)

theorem rejected_service_still_open_witness:
  "let m = fst (create_service ''s1'' 5 ''bbs'' ''ann'' ''net'' 80 ServiceManager_new) in
   case accept_service ''s1'' m of (m1, Inr (port, cfg)) \<Rightarrow>
      (case reject_service ''s1'' m1 of (m2, r) \<Rightarrow> r = Inr () \<and> can_access ''eve'' port m2
        \<and> map_option sv_status (hget (sm_services m2) ''s1'') = Some SvRejected)
    | _ \<Rightarrow> False"
proof -
  let ?m = "fst (create_service ''s1'' 5 ''bbs'' ''ann'' ''net'' 80 ServiceManager_new)"
  have "hget (sm_services ?m) ''s1'' = Some (snd (create_service ''s1'' 5 ''bbs'' ''ann'' ''net'' 80 ServiceManager_new))"
    by (simp add: create_service_def Let_def)
  from rejected_service_still_open [OF this] show ?thesis unfolding Let_def
    by (simp add: create_service_def Let_def)
qed

text \<open>Denying a client has no effect while the service is open to all members.\<close>
theorem deny_without_allow_list:
  assumes "hwf (sm_proxies m)" and "proxy_of n m = Some (port, p)" and "px_allow_all_members p"
  shows "can_access u port (fst (deny_client n u m))"
  using assms by (simp add: deny_client_def can_access_def)

theorem deny_without_allow_list_witness:
  "can_access ''eve'' 18080 (fst (deny_client ''bbs'' ''eve'' demo_services))"
  by (rule deny_without_allow_list [of _ _ _ "\<lparr> px_target_uid = ''ann'', px_target_port = 80,
      px_allowed_clients = [], px_allow_all_members = True \<rparr>"])
    (simp_all add: demo_services_def service_defs hwf_def hkeys_def)

end
