(* ===== verification/Ratchet.thy ===== *)
theory Ratchet
  imports Crypto
begin

text \<open>
  \<^verbatim>\<open>ratchet.rs\<close>: the symmetric message ratchet between two friends. Freshly drawn X25519 secrets and AES
  nonces are arguments. \<^verbatim>\<open>encrypt\<close> panics when AES-GCM refuses the plaintext, which is \<^const>\<open>None\<close>.
\<close>

section \<open>State and operations\<close>

record RatchetState =
  rs_dh_private :: bytes
  rs_dh_public :: bytes
  rs_root_key :: bytes
  rs_send_chain :: bytes
  rs_recv_chain :: bytes
  rs_send_idx :: u64
  rs_recv_idx :: u64
  rs_expected_recv_idx :: u64
  rs_prev_hash :: bytes
  rs_snapshot_count :: u64
  rs_handshake_done :: bool

definition hkdf_expand :: "prims \<Rightarrow> bytes \<Rightarrow> bytes \<Rightarrow> bytes" where
  "hkdf_expand P prk info = arr 32 (hkdf_fn P None prk info)"

definition new_alice :: "prims \<Rightarrow> bytes \<Rightarrow> RatchetState" where
  "new_alice P private = \<lparr> rs_dh_private = private, rs_dh_public = x_public P private,
     rs_root_key = replicate 32 0, rs_send_chain = replicate 32 0, rs_recv_chain = replicate 32 0,
     rs_send_idx = 0, rs_recv_idx = 0, rs_expected_recv_idx = 1, rs_prev_hash = replicate 32 0,
     rs_snapshot_count = 0, rs_handshake_done = False \<rparr>"

definition complete_handshake :: "prims \<Rightarrow> RatchetState \<Rightarrow> bytes \<Rightarrow> RatchetState" where
  "complete_handshake P s peer_public =
     (if rs_handshake_done s then s
      else let shared_secret = x_dh P (rs_dh_private s) peer_public;
               root = hkdf_expand P shared_secret (str_bytes ''chrono-ratchet-v1'')
           in s\<lparr> rs_root_key := root, rs_send_chain := root, rs_recv_chain := root,
                 rs_handshake_done := True \<rparr>)"

definition new_bob :: "prims \<Rightarrow> bytes \<Rightarrow> bytes \<Rightarrow> RatchetState" where
  "new_bob P private alice_public = complete_handshake P (new_alice P private) alice_public"

definition chain_advance :: "prims \<Rightarrow> bytes \<Rightarrow> bytes" where
  "chain_advance P chain = hkdf_expand P chain (str_bytes ''chain-advance'')"

definition ratchet_encrypt ::
  "prims \<Rightarrow> bytes \<Rightarrow> RatchetState \<Rightarrow> bytes \<Rightarrow> (RatchetState \<times> bytes \<times> u64 \<times> bytes) option" where
  "ratchet_encrypt P nonce s plaintext =
     (let idx = rs_send_idx s + 1;
          msg_key = hkdf_expand P (rs_send_chain s) (le_bytes 8 (unat idx))
      in case aead_enc P msg_key nonce plaintext of
        None \<Rightarrow> None
      | Some ciphertext \<Rightarrow>
          (let result = nonce @ ciphertext;
               hash = sha256 P (rs_prev_hash s @ result)
           in Some (s\<lparr> rs_send_idx := idx, rs_send_chain := chain_advance P (rs_send_chain s),
                       rs_prev_hash := hash \<rparr>, result, idx, hash)))"

definition ratchet_decrypt ::
  "prims \<Rightarrow> RatchetState \<Rightarrow> bytes \<Rightarrow> u64 \<Rightarrow> RatchetState \<times> (bytes \<times> bytes) option" where
  "ratchet_decrypt P s encrypted msg_idx =
     (if length encrypted < 28 then (s, None)
      else if msg_idx < rs_expected_recv_idx s then (s, None)
      else let msg_key = hkdf_expand P (rs_recv_chain s) (le_bytes 8 (unat msg_idx))
           in case aead_dec P msg_key (take 12 encrypted) (drop 12 encrypted) of
             None \<Rightarrow> (s, None)
           | Some plaintext \<Rightarrow>
               (let hash = sha256 P (rs_prev_hash s @ encrypted)
                in (s\<lparr> rs_expected_recv_idx := msg_idx + 1, rs_recv_chain := chain_advance P (rs_recv_chain s),
                       rs_prev_hash := hash, rs_recv_idx := msg_idx \<rparr>, Some (plaintext, hash))))"

definition dh_ratchet_advance :: "prims \<Rightarrow> bytes \<Rightarrow> RatchetState \<Rightarrow> bytes \<Rightarrow> RatchetState" where
  "dh_ratchet_advance P new_private s peer_new_public =
     (let shared1 = x_dh P (rs_dh_private s) peer_new_public;
          shared2 = x_dh P new_private peer_new_public;
          combined = arr 32 shared1 @ arr 32 shared2
      in s\<lparr> rs_root_key := hkdf_expand P combined (str_bytes ''dh-ratchet''),
            rs_dh_private := new_private, rs_dh_public := x_public P new_private \<rparr>)"

section \<open>Conversations\<close>

text \<open>What one side may send next, the other is ready to read.\<close>
definition in_step :: "RatchetState \<Rightarrow> RatchetState \<Rightarrow> bool" where
  "in_step a b \<longleftrightarrow> rs_send_chain a = rs_recv_chain b \<and> rs_expected_recv_idx b = rs_send_idx a + 1"

definition synced :: "RatchetState \<Rightarrow> RatchetState \<Rightarrow> bool" where
  "synced a b \<longleftrightarrow> in_step a b \<and> in_step b a \<and> rs_prev_hash a = rs_prev_hash b"

text \<open>A message crosses: the sender's new state, the receiver's new state and what the receiver read.\<close>
definition deliver :: "prims \<Rightarrow> bytes \<Rightarrow> bytes \<Rightarrow> RatchetState \<Rightarrow> RatchetState
    \<Rightarrow> (RatchetState \<times> RatchetState \<times> bytes option) option" where
  "deliver P nonce m a b = (case ratchet_encrypt P nonce a m of
     None \<Rightarrow> None
   | Some (a', enc, idx, _) \<Rightarrow> (let (b', r) = ratchet_decrypt P b enc idx in Some (a', b', map_option fst r)))"

text \<open>A conversation: (from the first party?, nonce, text) one after the other.\<close>
fun converse :: "prims \<Rightarrow> (bool \<times> bytes \<times> bytes) list \<Rightarrow> RatchetState \<Rightarrow> RatchetState
    \<Rightarrow> (RatchetState \<times> RatchetState \<times> bytes option list) option" where
  "converse P [] a b = Some (a, b, [])"
| "converse P ((True, nonce, m) # ms) a b = (case deliver P nonce m a b of None \<Rightarrow> None
   | Some (a', b', r) \<Rightarrow> map_option (\<lambda>(a'', b'', rs). (a'', b'', r # rs)) (converse P ms a' b'))"
| "converse P ((False, nonce, m) # ms) a b = (case deliver P nonce m b a of None \<Rightarrow> None
   | Some (b', a', r) \<Rightarrow> map_option (\<lambda>(a'', b'', rs). (a'', b'', r # rs)) (converse P ms a' b'))"

lemma synced_sym: "synced a b \<Longrightarrow> synced b a"
  by (simp add: synced_def)

lemma deliver_synced:
  assumes "aead_law P" and "length nonce = 12" and "synced a b" and "deliver P nonce m a b = Some (a', b', r)"
  shows "r = Some m \<and> synced a' b'"
proof -
  from assms(4) obtain c where c: "aead_enc P (hkdf_expand P (rs_send_chain a) (le_bytes 8 (unat (rs_send_idx a + 1)))) nonce m = Some c"
    by (auto simp: deliver_def ratchet_encrypt_def Let_def split: option.splits)
  have "length c = length m + 16" using length_aead_enc [OF assms(1) c] .
  then show ?thesis using assms(2-4) c aead_dec_enc [OF assms(1) c]
    by (auto simp: deliver_def ratchet_encrypt_def ratchet_decrypt_def synced_def in_step_def Let_def)
qed

text \<open>Both sides after the opening exchange of public keys.\<close>
definition alice_ready :: "prims \<Rightarrow> bytes \<Rightarrow> bytes \<Rightarrow> RatchetState" where
  "alice_ready P ska skb = complete_handshake P (new_alice P ska) (rs_dh_public (new_bob P skb (x_public P ska)))"

lemma handshake_synced:
  assumes "dh_law P"
  shows "synced (alice_ready P ska skb) (new_bob P skb (x_public P ska))"
proof -
  have "x_dh P ska (x_public P skb) = x_dh P skb (x_public P ska)" using assms by (simp add: dh_law_def)
  then show ?thesis
    by (simp add: alice_ready_def new_bob_def complete_handshake_def new_alice_def synced_def in_step_def Let_def)
qed

lemma converse_synced:
  assumes "aead_law P" and "\<forall>(d, nonce, m) \<in> set ms. length nonce = 12" and "synced a b"
    and "converse P ms a b = Some (a', b', rs)"
  shows "rs = map (\<lambda>(d, nonce, m). Some m) ms \<and> synced a' b'"
  using assms
proof (induction P ms a b arbitrary: a' b' rs rule: converse.induct)
  case (2 P nonce m ms a b)
  then obtain a1 b1 r rs' where one: "deliver P nonce m a b = Some (a1, b1, r)"
    and more: "converse P ms a1 b1 = Some (a', b', rs')" and rs: "rs = r # rs'" by (auto split: option.splits)
  have "r = Some m \<and> synced a1 b1" using "2.prems" one by (intro deliver_synced) auto
  then show ?case using "2.IH" [OF one refl refl _ _ _ more] "2.prems" rs by auto
next
  case (3 P nonce m ms a b)
  then obtain a1 b1 r rs' where one: "deliver P nonce m b a = Some (b1, a1, r)"
    and more: "converse P ms a1 b1 = Some (a', b', rs')" and rs: "rs = r # rs'" by (auto split: option.splits)
  have "r = Some m \<and> synced b1 a1" using "3.prems" one by (intro deliver_synced) (auto intro: synced_sym)
  then show ?case using "3.IH" [OF one refl refl _ _ _ more] "3.prems" rs by (auto intro: synced_sym)
qed auto

text \<open>C30: A conversation over the ratchet is read correctly. After the two sides exchange public keys,
  any sequence of messages, from either side in any order, each delivered before the next is sent, is
  decrypted to what was written, and both sides always hold the same chain hash.\<close>
theorem ratchet_conversation:
  assumes "aead_law P" and "dh_law P" and "\<forall>(d, nonce, m) \<in> set ms. length nonce = 12"
    and "converse P ms (alice_ready P ska skb) (new_bob P skb (x_public P ska)) = Some (a', b', rs)"
  shows "rs = map (\<lambda>(d, nonce, m). Some m) ms \<and> rs_prev_hash a' = rs_prev_hash b'"
  using converse_synced [OF assms(1,3) handshake_synced [OF assms(2)] assms(4)] by (simp add: synced_def)

theorem ratchet_conversation_witness:
  "\<exists>a b. converse toy_prims [(True, replicate 12 1, [10]), (False, replicate 12 2, [20]), (True, replicate 12 3, [30])]
      (alice_ready toy_prims [1] [2]) (new_bob toy_prims [2] (x_public toy_prims [1]))
    = Some (a, b, [Some [10], Some [20], Some [30]])"
proof -
  let ?ms = "[(True, replicate 12 1, [10]), (False, replicate 12 2, [20]), (True, replicate 12 3, [30])]
    :: (bool \<times> bytes \<times> bytes) list"
  have enc: "aead_enc toy_prims k n m = Some (m @ replicate 16 0)" for k n m by (simp add: toy_prims_def)
  obtain a b rs where "converse toy_prims ?ms (alice_ready toy_prims [1] [2]) (new_bob toy_prims [2] (x_public toy_prims [1]))
      = Some (a, b, rs)"
    by (auto simp: deliver_def ratchet_encrypt_def enc Let_def split_beta)
  with ratchet_conversation [OF toy_aead toy_dh _ this] show ?thesis by auto
qed

section \<open>Replay and loss\<close>

lemma decrypt_refused: "snd (ratchet_decrypt P s enc idx) = None \<Longrightarrow> fst (ratchet_decrypt P s enc idx) = s"
  by (simp add: ratchet_decrypt_def Let_def split: if_splits option.splits)

text \<open>The ratchet reads no message twice and forgeries do not disturb it. A refused frame leaves the
  state as it was; once index \<open>idx\<close> has been read, nothing with an index up to \<open>idx\<close> is accepted
  (the 64-bit counter's last value apart, where it wraps).\<close>
theorem ratchet_no_replay:
  assumes "ratchet_decrypt P s enc idx = (s', Some (m, h))" and "idx \<noteq> - 1" and "j \<le> idx"
  shows "ratchet_decrypt P s' enc' j = (s', None)"
proof -
  have "rs_expected_recv_idx s' = idx + 1" using assms(1)
    by (auto simp: ratchet_decrypt_def Let_def split: if_splits option.splits)
  moreover have "j < idx + 1"
    using assms(2,3) inc_less_eq_self_iff_eq [of idx] by (meson le_less_trans not_less)
  ultimately show ?thesis by (simp add: ratchet_decrypt_def)
qed

theorem ratchet_no_replay_witness:
  "\<exists>s' m h. ratchet_decrypt toy_prims (alice_ready toy_prims [1] [2]) (replicate 30 7) 3 = (s', Some (m, h))
    \<and> ratchet_decrypt toy_prims s' (replicate 40 1) 2 = (s', None)"
proof -
  obtain s' m h where run: "ratchet_decrypt toy_prims (alice_ready toy_prims [1] [2]) (replicate 30 7) 3 = (s', Some (m, h))"
    by (simp add: ratchet_decrypt_def alice_ready_def complete_handshake_def new_alice_def toy_prims_def Let_def)
  with ratchet_no_replay [OF run, of 2 "replicate 40 1"] show ?thesis by simp
qed

lemma length_hkdf_expand [simp]: "length (hkdf_expand P k i) = 32"
  by (simp add: hkdf_expand_def)

text \<open>AES-256-GCM authenticates: a ciphertext opens under no other 32-byte key.\<close>
definition tamper_law :: "prims \<Rightarrow> bool" where
  "tamper_law P \<longleftrightarrow> (\<forall>k k' n m c. aead_enc P k n m = Some c \<and> length k = 32 \<and> length k' = 32 \<and> k' \<noteq> k
     \<longrightarrow> aead_dec P k' n c = None)"

text \<open>A lost message ends the conversation in that direction. If the sender's chain has moved on
  from the receiver's by a message that never arrived, the keys differ, and with an authenticating
  cipher the next message is refused, leaving the receiver where it was: the ratchet has no way to
  skip ahead.\<close>
theorem lost_message_desynchronises:
  assumes auth: "tamper_law P"
    and keys: "hkdf_expand P (chain_advance P (rs_send_chain a)) i \<noteq> hkdf_expand P (rs_send_chain a) i"
    and i: "i = le_bytes 8 (unat (rs_send_idx a + 2))"
    and "in_step a b" and "length n1 = 12" "length n2 = 12"
    and lost: "ratchet_encrypt P n1 a m1 = Some (a1, e1, i1, h1)"
    and sent: "ratchet_encrypt P n2 a1 m2 = Some (a2, e2, i2, h2)"
  shows "ratchet_decrypt P b e2 i2 = (b, None)"
proof -
  have a1: "rs_send_chain a1 = chain_advance P (rs_send_chain a)" "rs_send_idx a1 = rs_send_idx a + 1"
    using lost by (auto simp: ratchet_encrypt_def Let_def split: option.splits)
  obtain c where c: "aead_enc P (hkdf_expand P (rs_send_chain a1) i) n2 m2 = Some c" and e2: "e2 = n2 @ c" "i2 = rs_send_idx a + 2"
    using sent a1(2) i by (auto simp: ratchet_encrypt_def Let_def add.assoc split: option.splits)
  have "aead_dec P (hkdf_expand P (rs_recv_chain b) i) n2 c = None"
    using auth c keys a1 \<open>in_step a b\<close> unfolding tamper_law_def in_step_def by (metis length_hkdf_expand)
  then show ?thesis using e2 i assms(6) by (simp add: ratchet_decrypt_def)
qed

text \<open>Primitives whose cipher checks its key and whose key derivation moves on, for the witness.\<close>
definition lock_prims :: prims where
  "lock_prims = toy_prims\<lparr> hkdf_fn := (\<lambda>_ k info. [of_nat (length info) + sum_list k]),
     aead_enc := (\<lambda>k n m. Some (k @ m)),
     aead_dec := (\<lambda>k n c. if take 32 c = k then Some (drop 32 c) else None) \<rparr>"

theorem lost_message_desynchronises_witness:
  "\<exists>a1 e1 i1 h1 a2 e2 i2 h2. let a = alice_ready lock_prims [1] [2]; b = new_bob lock_prims [2] (x_public lock_prims [1]) in
     ratchet_encrypt lock_prims (replicate 12 1) a [10] = Some (a1, e1, i1, h1)
     \<and> ratchet_encrypt lock_prims (replicate 12 2) a1 [20] = Some (a2, e2, i2, h2)
     \<and> ratchet_decrypt lock_prims b e2 i2 = (b, None)"
proof -
  let ?a = "alice_ready lock_prims [1] [2]" and ?b = "new_bob lock_prims [2] (x_public lock_prims [1])"
  have law: "tamper_law lock_prims" by (auto simp: tamper_law_def lock_prims_def)
  have "dh_law lock_prims" using toy_dh by (simp add: dh_law_def lock_prims_def)
  then have step: "in_step ?a ?b" using handshake_synced by (simp add: synced_def)
  have keys: "hkdf_expand lock_prims (chain_advance lock_prims c) i \<noteq> hkdf_expand lock_prims c i"
    if "length c = 32" for c i
    by (simp add: hkdf_expand_def chain_advance_def lock_prims_def arr_def sum_list_replicate)
  obtain a1 e1 i1 h1 where one: "ratchet_encrypt lock_prims (replicate 12 1) ?a [10] = Some (a1, e1, i1, h1)"
    by (simp add: ratchet_encrypt_def lock_prims_def Let_def)
  obtain a2 e2 i2 h2 where two: "ratchet_encrypt lock_prims (replicate 12 2) a1 [20] = Some (a2, e2, i2, h2)"
    by (simp add: ratchet_encrypt_def lock_prims_def Let_def)
  have "ratchet_decrypt lock_prims ?b e2 i2 = (?b, None)"
    by (rule lost_message_desynchronises [OF law keys refl step _ _ one two])
      (simp_all add: alice_ready_def complete_handshake_def new_alice_def Let_def)
  with one two show ?thesis unfolding Let_def by blast
qed

section \<open>What the chains do not depend on\<close>

text \<open>A message comes back to its own sender as if the friend had written it. Both directions start from
  the same root, so until the first message of the friend the sender's receiving chain is the one it
  sends on: whoever returns the first frame to it has it accepted.\<close>
theorem reflected_message_accepted:
  assumes "aead_law P" and "length nonce = 12"
    and sent: "ratchet_encrypt P nonce (alice_ready P ska skb) m = Some (a', enc, idx, h)"
  shows "\<exists>a'' h'. ratchet_decrypt P a' enc idx = (a'', Some (m, h'))"
proof -
  obtain root where a: "alice_ready P ska skb = (new_alice P ska)\<lparr> rs_root_key := root, rs_send_chain := root,
      rs_recv_chain := root, rs_handshake_done := True \<rparr>"
    by (simp add: alice_ready_def complete_handshake_def new_alice_def Let_def)
  obtain c where c: "aead_enc P (hkdf_expand P root (le_bytes 8 1)) nonce m = Some c" "enc = nonce @ c" "idx = 1"
    and a': "rs_recv_chain a' = root" "rs_expected_recv_idx a' = 1"
    using sent by (auto simp: a new_alice_def ratchet_encrypt_def Let_def split: option.splits)
  then show ?thesis using assms(2) aead_dec_enc [OF assms(1) c(1)] length_aead_enc [OF assms(1) c(1)]
    by (simp add: ratchet_decrypt_def Let_def)
qed

theorem reflected_message_accepted_witness:
  "\<exists>a' enc idx h a'' h'. ratchet_encrypt toy_prims (replicate 12 1) (alice_ready toy_prims [1] [2]) [10] = Some (a', enc, idx, h)
    \<and> ratchet_decrypt toy_prims a' enc idx = (a'', Some ([10], h'))"
proof -
  obtain a' enc idx h where run: "ratchet_encrypt toy_prims (replicate 12 1) (alice_ready toy_prims [1] [2]) [10] = Some (a', enc, idx, h)"
    by (simp add: ratchet_encrypt_def toy_prims_def Let_def)
  from reflected_message_accepted [OF toy_aead _ run] run show ?thesis by auto
qed

text \<open>Nothing holds a message back before the handshake: it is encrypted under a key derived from an
  all-zero chain, and any other fresh state, whatever its secret, reads it.\<close>
theorem message_before_handshake_public:
  assumes "aead_law P" and "length nonce = 12"
    and sent: "ratchet_encrypt P nonce (new_alice P ska) m = Some (a', enc, idx, h)"
  shows "\<exists>e' h'. ratchet_decrypt P (new_alice P eve) enc idx = (e', Some (m, h'))"
proof -
  obtain c where c: "aead_enc P (hkdf_expand P (replicate 32 0) (le_bytes 8 1)) nonce m = Some c" "enc = nonce @ c" "idx = 1"
    using sent by (auto simp: new_alice_def ratchet_encrypt_def Let_def split: option.splits)
  then show ?thesis using assms(2) aead_dec_enc [OF assms(1) c(1)] length_aead_enc [OF assms(1) c(1)]
    by (simp add: new_alice_def ratchet_decrypt_def Let_def)
qed

theorem message_before_handshake_public_witness:
  "\<exists>a' enc idx h e' h'. ratchet_encrypt toy_prims (replicate 12 1) (new_alice toy_prims [1]) [10] = Some (a', enc, idx, h)
    \<and> ratchet_decrypt toy_prims (new_alice toy_prims [9]) enc idx = (e', Some ([10], h'))"
proof -
  obtain a' enc idx h where run: "ratchet_encrypt toy_prims (replicate 12 1) (new_alice toy_prims [1]) [10] = Some (a', enc, idx, h)"
    by (simp add: ratchet_encrypt_def toy_prims_def Let_def)
  from message_before_handshake_public [OF toy_aead _ run, of "[9]"] run show ?thesis by auto
qed

text \<open>A state with another key pair and root.\<close>
definition rekey :: "bytes \<Rightarrow> bytes \<Rightarrow> bytes \<Rightarrow> RatchetState \<Rightarrow> RatchetState" where
  "rekey root sk pk s = s\<lparr> rs_root_key := root, rs_dh_private := sk, rs_dh_public := pk \<rparr>"

lemma deliver_rekey:
  "deliver P nonce m (rekey r sk pk a) (rekey r' sk' pk' b)
    = map_option (\<lambda>(a', b', x). (rekey r sk pk a', rekey r' sk' pk' b', x)) (deliver P nonce m a b)"
  by (auto simp: deliver_def ratchet_encrypt_def ratchet_decrypt_def rekey_def Let_def split: option.split)

lemma converse_rekey:
  "converse P ms (rekey r sk pk a) (rekey r' sk' pk' b)
    = map_option (\<lambda>(a', b', xs). (rekey r sk pk a', rekey r' sk' pk' b', xs)) (converse P ms a b)"
proof (induction P ms a b rule: converse.induct)
  case (2 P nonce m ms a b)
  then show ?case by (cases "deliver P nonce m a b") (auto simp: deliver_rekey option.map_comp comp_def split_beta)
next
  case (3 P nonce m ms a b)
  then show ?case by (cases "deliver P nonce m b a") (auto simp: deliver_rekey option.map_comp comp_def split_beta)
qed simp

lemma dh_ratchet_advance_rekey: "\<exists>r sk pk. dh_ratchet_advance P new s peer = rekey r sk pk s"
  unfolding dh_ratchet_advance_def rekey_def Let_def by blast

text \<open>The DH ratchet step has no effect on any message. It mixes a fresh exchange into the root key, but
  the chains were taken from the root once, at the handshake, and never again: a conversation after
  any such steps is read (or fails) exactly as it would without them, so a leaked chain key is never
  recovered from.\<close>
theorem dh_ratchet_no_effect:
  "map_option (\<lambda>r. snd (snd r)) (converse P ms (dh_ratchet_advance P new1 a peer1) (dh_ratchet_advance P new2 b peer2))
    = map_option (\<lambda>r. snd (snd r)) (converse P ms a b)
  \<and> rs_send_chain (dh_ratchet_advance P new1 a peer1) = rs_send_chain a
  \<and> rs_recv_chain (dh_ratchet_advance P new1 a peer1) = rs_recv_chain a"
proof -
  obtain r sk pk r' sk' pk' where eq: "dh_ratchet_advance P new1 a peer1 = rekey r sk pk a"
      "dh_ratchet_advance P new2 b peer2 = rekey r' sk' pk' b"
    using dh_ratchet_advance_rekey by metis
  show ?thesis unfolding eq converse_rekey by (simp add: rekey_def option.map_comp comp_def split_beta)
qed

end
