(* ===== verification/Spec2Isabelle.thy ===== *)
theory Spec2Isabelle
  imports MeshFaults Cluster Restart WebConsole Socks5 Lan ProtocolFilter Ffi Services Ratchet Shuffle
begin

text \<open>
  Verification library of the Chrono-shift security core, the Rust crate
  \<^verbatim>\<open>src/client/security/rust_core\<close>. All file names below are relative to its directory \<^verbatim>\<open>src/\<close>.

  \<^bold>\<open>The program.\<close> Chrono-shift is a peer-to-peer messenger built on a DC-Net: in a round every member
  of a channel publishes the XOR of key streams it shares pairwise with the others, one member XORs its
  message in, and the XOR of all shares is the message, whoever sent it. Around that are friends with
  edge keys and trust levels (\<^verbatim>\<open>dcnet/f2f.rs\<close>), a web of trust, authenticated and encrypted sessions over TCP,
  relaying for peers that are not connected, a write-ahead log, a web console, a C interface, and the
  daemon that wires some of these together.

  \<^bold>\<open>Theories, from the bottom up.\<close>

  \<^item> \<^verbatim>\<open>Prelude\<close>: byte and word types, hash maps as association lists with distinct keys, UTF-8, big- and
    little-endian numbers, and the interfaces that several components meet: \<^verbatim>\<open>op_system\<close> (an invariant kept by every
    operation holds along every sequence of them), \<^verbatim>\<open>guarded_system\<close> (the same for well-formed operations), \<^verbatim>\<open>refinement\<close> (operations
    that commute with an abstraction), \<^verbatim>\<open>monotone_system\<close> and \<^verbatim>\<open>codec\<close>. \<^verbatim>\<open>Text\<close>: the
    functions on \<^verbatim>\<open>str\<close> the code uses (trim, split, parse, prefixes). \<^verbatim>\<open>Float64\<close>: binary64 arithmetic on
    rationals with round-half-even, enough for reputation scores. \<^verbatim>\<open>DiskFiles\<close>: files written whole, with the
    ways a write can stop, and the interfaces \<^verbatim>\<open>text_file\<close> and \<^verbatim>\<open>object_file\<close> between such a file and the state kept in it.
  \<^item> \<^verbatim>\<open>Crypto\<close> (\<^verbatim>\<open>crypto.rs\<close>, \<^verbatim>\<open>identity.rs\<close>, \<^verbatim>\<open>validate_uid\<close> of \<^verbatim>\<open>lib.rs\<close>): the envelope, session keys, identities
    and hex over a record \<^verbatim>\<open>prims\<close> of cryptographic primitives. What is used of the primitives are named laws:
    decryption inverts encryption, Diffie-Hellman agrees, signatures verify, public keys parse.
  \<^item> \<^verbatim>\<open>DcCore\<close>, \<^verbatim>\<open>Group\<close> (\<^verbatim>\<open>dcnet/mod.rs\<close>, \<^verbatim>\<open>round.rs\<close>, \<^verbatim>\<open>group.rs\<close>): XOR, pairwise shares, participants, local
    rounds and groups. \<^verbatim>\<open>Messages\<close> (\<^verbatim>\<open>net/tcp.rs\<close>): the message type, frames, padding.
  \<^item> \<^verbatim>\<open>RoundNetwork\<close> (\<^verbatim>\<open>dcnet/round_network.rs\<close>): shares, collector, share signatures, round tracker. Every
    arrival order delivers the message, the vector of shares does not tell its sender, and the collector takes only the first
    valid share of each member; payloads beyond 8192 bytes leak.
  \<^item> \<^verbatim>\<open>RoundDriver\<close> (\<^verbatim>\<open>dcnet/round_driver.rs\<close>): the mesh protocol. Its state stays well-formed, and a full mesh
    round delivers at listeners and at the initiator. \<^verbatim>\<open>Mesh\<close> puts the drivers of a channel together with the
    messages in flight: whoever initiates at the same moment, every text is delivered to everybody, in the order of the
    names, for every delivery order in which no share overtakes a start. \<^verbatim>\<open>MeshFaults\<close>: what is lost when one does, and when
    the winner of a contest fails. \<^verbatim>\<open>RoundEngine\<close> (\<^verbatim>\<open>round_engine.rs\<close>): the same with a leader.
  \<^item> \<^verbatim>\<open>Reputation\<close>, \<^verbatim>\<open>Shuffle\<close> (\<^verbatim>\<open>dcnet/reputation.rs\<close>, \<^verbatim>\<open>shuffle.rs\<close>): bans are permanent; honest slots are never blamed.
  \<^item> \<^verbatim>\<open>Trust\<close> (\<^verbatim>\<open>pgp/mod.rs\<close>, \<^verbatim>\<open>dcnet/network.rs\<close>) and \<^verbatim>\<open>WebOfTrust\<close> (\<^verbatim>\<open>pgp/web_of_trust.rs\<close>): trust levels,
    networks, and the trust computation, which ends in the least fixed point of its rule, does not depend on the
    iteration order of the hash maps, and needs a chain of signatures; the cached web
    refines one that never caches.
  \<^item> \<^verbatim>\<open>Session\<close> (\<^verbatim>\<open>net/session.rs\<close>): the handshake over byte streams agrees on keys and names, a peer on record cannot
    be impersonated, frames are not replayed. \<^verbatim>\<open>Ratchet\<close> (\<^verbatim>\<open>ratchet.rs\<close>): conversations decrypt;
    what the DH step does not do, and which messages can be read or sent back.
  \<^item> \<^verbatim>\<open>ConnManager\<close> (\<^verbatim>\<open>net/connection_manager.rs\<close>): listener, connector, reader and writer tasks and
    their time-outs as a step relation over one state; the table, the slot counter and the queues stay
    consistent under every interleaving, and a connection delivers what was queued.
  \<^item> \<^verbatim>\<open>Relay\<close> (\<^verbatim>\<open>net/relay.rs\<close>): relay signatures, routing table, admission (replay, freshness, rate).
  \<^item> \<^verbatim>\<open>Storage\<close> (\<^verbatim>\<open>storage.rs\<close>): the log and the checkpoint byte for byte, torn writes included; together
    they refine a snapshot with a list of operations, whatever fails in a checkpoint. \<^verbatim>\<open>F2fBridge\<close>,
    \<^verbatim>\<open>Broadcast\<close> (\<^verbatim>\<open>dcnet/f2f.rs\<close>): friends, channels, logging, snapshots, the local broadcast. \<^verbatim>\<open>Recovery\<close>:
    start-up from the log gives the live state back, up to edge keys.
  \<^item> \<^verbatim>\<open>AddressBook\<close>, \<^verbatim>\<open>Services\<close>, \<^verbatim>\<open>Socks5\<close>, \<^verbatim>\<open>Lan\<close>, \<^verbatim>\<open>ProtocolFilter\<close>, \<^verbatim>\<open>PrivateFiles\<close>: one source file each
    (\<^verbatim>\<open>address_book.rs\<close>, \<^verbatim>\<open>service.rs\<close>, \<^verbatim>\<open>network.rs\<close>, \<^verbatim>\<open>net/lan.rs\<close>, \<^verbatim>\<open>protocol_filter.rs\<close>), the last the files of
    \<^verbatim>\<open>identity.rs\<close>, \<^verbatim>\<open>net/transport.rs\<close> and the legacy store of \<^verbatim>\<open>storage.rs\<close>.
  \<^item> \<^verbatim>\<open>App\<close> (\<^verbatim>\<open>app.rs\<close>) composes them: start-up, shutdown, events, and a relay message on its way from node to
    node, which reaches its target and always stops. \<^verbatim>\<open>Daemon\<close> (\<^verbatim>\<open>main.rs\<close>) adds the pumps between the
    application and the network. \<^verbatim>\<open>Restart\<close>: what shutting down and starting again keeps, and what it
    loses. \<^verbatim>\<open>Cluster\<close> joins several daemons by their connections: registered peers get a working
    connection, and a leader-based round goes through every layer and delivers. \<^verbatim>\<open>WebConsole\<close> (\<^verbatim>\<open>web.rs\<close>) goes from the bytes of a request to
    those of the response. \<^verbatim>\<open>Ffi\<close> (\<^verbatim>\<open>ffi.rs\<close>, \<^verbatim>\<open>parser.rs\<close>) models the C functions over an explicit memory: buffers
    of up to 65508 bytes and strings without NUL that cross the interface come back unchanged.

  \<^bold>\<open>Conventions.\<close> A struct is a record, an enum a datatype, a fallible function returns an option or a sum. Integers have the
  width of the source and wrap, as in the release profile; \<^verbatim>\<open>usize\<close> counts are natural
  numbers. Strings are their UTF-8 bytes as characters. A hash map is an association list with distinct keys; where the code
  iterates over one, the order of the list is the order of the iteration, and the theorems hold for all of them; a hash set collected from a
  list keeps the order of the list, one of those the code may see.
  Clocks, random bytes and what the operating system answers (files, sockets, allocation) are arguments. A panic is
  \<^const>\<open>None\<close>. serde_json is a parameter with the law that parsing inverts printing. Mutexes are left out: each
  step of a relation is one critical section; poisoned locks do not arise, because a panic aborts.

  \<^bold>\<open>Bounds and fuel.\<close> No definition uses fuel: every loop is structurally recursive or has a termination
  proof, but for two that are partial functions: \<^const>\<open>trust_loop\<close>, proved to return on every web, and \<^const>\<open>c_scan\<close>,
  which returns where the C string has its terminator. The theorems on interleavings assume fewer than \<open>2 ^ 64 - 2\<close> steps, so that connection numbers do not
  wrap; those on frames assume as much of sequence numbers, those on the mesh of round numbers. The number of
  deliveries of a contest is bounded by the function \<^const>\<open>deliveries\<close> of the sizes of the channel and of the contest.

  \<^bold>\<open>Not modelled.\<close> Logging; file permissions; the module declarations of \<^verbatim>\<open>lib.rs\<close>; the binding of ports and the
  spawning of threads and tasks; zeroisation of memory that is dropped; \<^verbatim>\<open>Debug\<close> and serde derivations; the
  panic guard of the C interface, which has no effect when panics abort; the C and JavaScript sources outside the crate.
\<close>

end
